(* ===== verification/Prelude.thy ===== *)
theory Prelude
  imports Main "HOL-Library.Word"
begin

text \<open>
  Shared vocabulary of the development.

  \<^item> \<open>byte\<close> is Rust's \<open>u8\<close> and \<open>bytes\<close> a \<open>Vec<u8>\<close>, a \<open>&[u8]\<close> or a fixed array \<open>[u8; n]\<close>
    (whose length the well-formedness predicates of the components state).
  \<^item> \<open>to_be\<close> and \<open>from_be\<close> are \<open>to_be_bytes\<close> and \<open>from_be_bytes\<close>; a cast such as \<open>len as u16\<close>
    is the truncation \<open>to_be\<close> performs.
  \<^item> A panic is the value \<open>Inl fault\<close> of a sum type; \<open>sbind\<close> sequences computations that may panic;
    \<open>idx\<close> and \<open>slice\<close> are Rust's checked indexing and slicing.
  \<^item> \<open>bxor\<close> is the byte-wise XOR that all secret sharing in the program uses.
  \<^item> The locale \<open>framed_codec\<close> is the interface between a writer and a reader of self-delimiting
    messages; its client lemmas (concatenated streams decode, encodings are injective) are used
    for TLS records, handshake messages and the signed byte strings.
\<close>

unbundle bit_operations_syntax

named_theorems byte_simps \<open>lengths and round trips of byte encodings\<close>
named_theorems xor_simps \<open>algebra of byte-wise XOR\<close>
named_theorems fault_simps \<open>evaluation of computations that may panic\<close>

type_synonym byte = "8 word"
type_synonym bytes = "8 word list"
type_synonym u64 = "64 word"
type_synonym u32 = "32 word"
type_synonym u16 = "16 word"

section \<open>Panics as values\<close>

datatype fault =
    OutOfBounds
  | Assertion string
  | Expect string
  | Explicit string

fun sbind :: "'e + 'a \<Rightarrow> ('a \<Rightarrow> 'e + 'b) \<Rightarrow> 'e + 'b" where
  "sbind (Inl e) f = Inl e"
| "sbind (Inr a) f = f a"

lemma sbind_Inr_iff [fault_simps]:
  "sbind m f = Inr b \<longleftrightarrow> (\<exists>a. m = Inr a \<and> f a = Inr b)"
  by (cases m) auto

lemma sbind_assoc: "sbind (sbind m f) g = sbind m (\<lambda>a. sbind (f a) g)"
  by (cases m) auto

lemma case_Inl_Inr_iff [fault_simps]:
  "(case x of Inl e \<Rightarrow> Inl (g e) | Inr a \<Rightarrow> f a) = Inr c \<longleftrightarrow> (\<exists>a. x = Inr a \<and> f a = Inr c)"
  by (cases x) auto

lemma case_None_Inr_iff [fault_simps]:
  "(case x of None \<Rightarrow> Inl e | Some a \<Rightarrow> f a) = Inr c \<longleftrightarrow> (\<exists>a. x = Some a \<and> f a = Inr c)"
  by (cases x) auto

text \<open>\<open>assert!\<close> and \<open>Option::expect\<close>.\<close>

definition ensure :: "bool \<Rightarrow> string \<Rightarrow> fault + unit" where
  "ensure b msg = (if b then Inr () else Inl (Assertion msg))"

definition expect :: "'a option \<Rightarrow> string \<Rightarrow> fault + 'a" where
  "expect x msg = (case x of None \<Rightarrow> Inl (Expect msg) | Some a \<Rightarrow> Inr a)"

lemma ensure_Inr_iff [fault_simps]: "ensure b msg = Inr u \<longleftrightarrow> b"
  by (simp add: ensure_def)

lemma expect_Inr_iff [fault_simps]: "expect x msg = Inr a \<longleftrightarrow> x = Some a"
  by (auto simp: expect_def split: option.splits)

lemma ensure_True [simp]: "ensure True msg = Inr ()"
  by (simp add: ensure_def)

lemma expect_Some [simp]: "expect (Some a) msg = Inr a"
  by (simp add: expect_def)

text \<open>Running a computation over a list, stopping at the first panic.\<close>

fun smap :: "('a \<Rightarrow> 'e + 'b) \<Rightarrow> 'a list \<Rightarrow> 'e + 'b list" where
  "smap f [] = Inr []"
| "smap f (x # xs) = sbind (f x) (\<lambda>y. sbind (smap f xs) (\<lambda>ys. Inr (y # ys)))"

lemma smap_Inr_iff: "smap f xs = Inr ys \<longleftrightarrow> list_all2 (\<lambda>x y. f x = Inr y) xs ys"
  by (induction xs arbitrary: ys) (auto simp: fault_simps list_all2_Cons1)

section \<open>Slices\<close>

definition idx :: "bytes \<Rightarrow> nat \<Rightarrow> fault + byte" where
  "idx bs i = (if i < length bs then Inr (bs ! i) else Inl OutOfBounds)"

definition slice :: "bytes \<Rightarrow> nat \<Rightarrow> nat \<Rightarrow> fault + bytes" where
  "slice bs a b = (if a \<le> b \<and> b \<le> length bs then Inr (take (b - a) (drop a bs)) else Inl OutOfBounds)"

lemma idx_Inr [simp]: "i < length bs \<Longrightarrow> idx bs i = Inr (bs ! i)"
  by (simp add: idx_def)

lemma slice_Inr [simp]:
  "a \<le> b \<Longrightarrow> b \<le> length bs \<Longrightarrow> slice bs a b = Inr (take (b - a) (drop a bs))"
  by (simp add: slice_def)

lemma slice_Inr_iff [fault_simps]:
  "slice bs a b = Inr r \<longleftrightarrow> a \<le> b \<and> b \<le> length bs \<and> r = take (b - a) (drop a bs)"
  by (auto simp: slice_def)

lemma idx_Inr_iff [fault_simps]: "idx bs i = Inr x \<longleftrightarrow> i < length bs \<and> x = bs ! i"
  by (auto simp: idx_def)

text \<open>\<open>bs[i..i + new.len()].copy_from_slice(new)\<close> and \<open>bs[i] = x\<close> on an array that is long enough.\<close>

definition put :: "bytes \<Rightarrow> nat \<Rightarrow> bytes \<Rightarrow> bytes" where
  "put bs i new = take i bs @ new @ drop (i + length new) bs"

lemma length_put [simp]: "i + length new \<le> length bs \<Longrightarrow> length (put bs i new) = length bs"
  by (simp add: put_def)

section \<open>Big-endian integers\<close>

fun to_be :: "nat \<Rightarrow> nat \<Rightarrow> bytes" where
  "to_be 0 x = []"
| "to_be (Suc n) x = word_of_nat (x div 256 ^ n) # to_be n x"

definition from_be :: "bytes \<Rightarrow> nat" where
  "from_be bs = foldl (\<lambda>a b. a * 256 + unat b) 0 bs"

lemma length_to_be [simp, byte_simps]: "length (to_be n x) = n"
  by (induction n) auto

lemma to_be_numeral:
  "to_be (numeral k) x = word_of_nat (x div 256 ^ pred_numeral k) # to_be (pred_numeral k) x"
  by (simp add: numeral_eq_Suc)

lemma from_be_single [simp]: "from_be [b] = unat b"
  by (simp add: from_be_def)

lemma from_be_acc: "foldl (\<lambda>a b. a * 256 + unat b) a (bs :: bytes) = a * 256 ^ length bs + from_be bs"
proof (induction bs arbitrary: a)
  case Nil
  then show ?case by (simp add: from_be_def)
next
  case (Cons b bs)
  have "from_be (b # bs) = unat b * 256 ^ length bs + from_be bs"
    using Cons.IH [of "unat b"] by (simp add: from_be_def)
  with Cons.IH [of "a * 256 + unat b"] show ?case
    by (simp add: algebra_simps)
qed

lemma from_be_Nil [simp]: "from_be [] = 0"
  by (simp add: from_be_def)

lemma from_be_Cons [simp]: "from_be (b # bs) = unat b * 256 ^ length bs + from_be bs"
  using from_be_acc [of "unat b" bs] by (simp add: from_be_def)

lemma from_be_append: "from_be (as @ bs) = from_be as * 256 ^ length bs + from_be bs"
  by (induction as) (simp_all add: power_add algebra_simps)

lemma unat_byte_lt [simp]: "unat (b :: byte) < 256"
  using unsigned_less [of b] by simp

lemma unat_eqI_byte: "unat a mod 256 = unat b mod 256 \<Longrightarrow> a = (b :: byte)"
  by (metis mod_less unat_byte_lt word_unat_eq_iff)

lemma from_be_less: "from_be bs < 256 ^ length bs"
proof (induction bs)
  case Nil
  then show ?case by simp
next
  case (Cons b bs)
  have "unat b * 256 ^ length bs + from_be bs < unat b * 256 ^ length bs + 256 ^ length bs"
    using Cons by simp
  also have "\<dots> = Suc (unat b) * 256 ^ length bs" by simp
  also have "\<dots> \<le> 256 * 256 ^ length bs"
    using unat_byte_lt [of b] by (intro mult_right_mono) (simp_all add: Suc_le_eq)
  finally show ?case by simp
qed

lemma from_be_0 [simp]: "from_be (0 # bs) = from_be bs"
  by simp

lemma from_be_bound2: "from_be [a, b] < 65536"
  using from_be_less [of "[a, b]"] by simp

lemma from_be_bound3: "from_be [a, b, c] < 16777216"
  using from_be_less [of "[a, b, c]"] by simp

lemma unat_byte_of_nat: "unat (word_of_nat x :: byte) = x mod 256"
  by (simp add: unat_of_nat)

lemma from_be_to_be [simp, byte_simps]: "from_be (to_be n x) = x mod 256 ^ n"
proof (induction n)
  case 0
  then show ?case by simp
next
  case (Suc n)
  have "x mod 256 ^ Suc n = 256 ^ n * (x div 256 ^ n mod 256) + x mod 256 ^ n"
    by (simp add: mod_mult2_eq mult.commute [of 256])
  with Suc show ?case by (simp add: unat_byte_of_nat mult.commute)
qed

lemma to_be_add_mult: "to_be n (k * 256 ^ n + x) = to_be n x"
proof (induction n arbitrary: k)
  case 0
  then show ?case by simp
next
  case (Suc n)
  have "(x + k * 256 * 256 ^ n) div 256 ^ n = k * 256 + x div 256 ^ n"
    by (rule div_mult_self1) simp
  then have "(k * 256 ^ Suc n + x) div 256 ^ n = k * 256 + x div 256 ^ n"
    by (simp only: power_Suc mult.assoc add.commute)
  moreover have "to_be n (k * 256 ^ Suc n + x) = to_be n x"
    using Suc.IH [of "k * 256"] by (simp add: algebra_simps)
  moreover have "(word_of_nat (k * 256 + x div 256 ^ n) :: byte) = word_of_nat (x div 256 ^ n)"
    by (rule unat_eqI_byte) (simp only: unat_byte_of_nat mod_mod_trivial mod_mult_self3)
  ultimately show ?case by simp
qed

lemma to_be_from_be [simp, byte_simps]: "to_be (length bs) (from_be bs) = bs"
proof (induction bs)
  case Nil
  then show ?case by simp
next
  case (Cons b bs)
  have "(unat b * 256 ^ length bs + from_be bs) div 256 ^ length bs = unat b"
    using from_be_less [of bs] by simp
  with Cons show ?case by (simp add: to_be_add_mult)
qed

lemma to_be_from_be_len: "length bs = n \<Longrightarrow> to_be n (from_be bs) = bs"
  using to_be_from_be by blast

lemma to_be_mod: "to_be n (x mod 256 ^ n) = to_be n x"
  by (metis from_be_to_be length_to_be to_be_from_be)

declare from_be_Cons [simp del]

lemma from_be_of_nats [simp]:
  "from_be [word_of_nat (v div 256), word_of_nat v] = v mod 65536"
  "from_be [word_of_nat (v div 65536), word_of_nat (v div 256), word_of_nat v] = v mod 16777216"
  using from_be_to_be [of 2 v] from_be_to_be [of 3 v] by (simp_all add: to_be_numeral)

lemma to_be_word16: "to_be 2 (unat (word_of_nat (from_be [a, b]) :: u16)) = [a, b]"
proof -
  have "unat (word_of_nat (from_be [a, b]) :: u16) = from_be [a, b]"
    using from_be_bound2 [of a b] by (simp add: unat_of_nat)
  then show ?thesis using to_be_from_be_len [of "[a, b]" 2] by simp
qed

lemma from_be_word16 [simp]: "from_be [word_of_nat (unat w div 256), ucast (w :: u16)] = unat w"
proof -
  have "unat w < 65536" using unsigned_less [of w] by simp
  moreover have "(ucast w :: byte) = word_of_nat (unat w)" by simp
  ultimately show ?thesis
    using from_be_of_nats(1) [of "unat w"] by simp
qed

lemma drop_Cons_nth: "i < length bs \<Longrightarrow> drop i bs = bs ! i # drop (i + 1) bs"
  using Cons_nth_drop_Suc [of i bs] by simp

lemma drop_4_nths:
  assumes "pos + 4 \<le> length bs"
  shows "drop pos bs = bs ! pos # bs ! (pos + 1) # bs ! (pos + 2) # bs ! (pos + 3) # drop (pos + 4) bs"
  using drop_Cons_nth [of pos bs] drop_Cons_nth [of "pos + 1" bs] drop_Cons_nth [of "pos + 2" bs]
    drop_Cons_nth [of "pos + 3" bs] assms by (simp add: eval_nat_numeral)

lemma drop_5_nths:
  assumes "pos + 5 \<le> length bs"
  shows "drop pos bs = bs ! pos # bs ! (pos + 1) # bs ! (pos + 2) # bs ! (pos + 3) # bs ! (pos + 4) #
           drop (pos + 5) bs"
  using drop_4_nths [of pos bs] drop_Cons_nth [of "pos + 4" bs] assms by (simp add: add.commute)

lemma to_be_inject:
  assumes "x < 256 ^ n" and "y < 256 ^ n"
  shows "to_be n x = to_be n y \<longleftrightarrow> x = y"
  by (metis assms from_be_to_be mod_less)

lemma from_be_inject: "length as = length bs \<Longrightarrow> from_be as = from_be bs \<longleftrightarrow> as = bs"
  by (metis to_be_from_be)

section \<open>Byte-wise XOR\<close>

definition bxor :: "bytes \<Rightarrow> bytes \<Rightarrow> bytes" where
  "bxor as bs = map2 (\<lambda>x y. x XOR y) as bs"

definition zeros :: "nat \<Rightarrow> bytes" where
  "zeros n = replicate n 0"

lemma bxor_simps [simp]:
  "bxor [] bs = []"
  "bxor as [] = []"
  "bxor (a # as) (b # bs) = (a XOR b) # bxor as bs"
  by (simp_all add: bxor_def)

lemma length_bxor [simp, byte_simps]: "length (bxor as bs) = min (length as) (length bs)"
  by (simp add: bxor_def)

lemma length_zeros [simp, byte_simps]: "length (zeros n) = n"
  by (simp add: zeros_def)

lemma zeros_simps [simp]: "zeros 0 = []" "zeros (Suc n) = 0 # zeros n"
  by (simp_all add: zeros_def)

lemma nth_bxor [simp]:
  "i < length as \<Longrightarrow> i < length bs \<Longrightarrow> bxor as bs ! i = as ! i XOR bs ! i"
  by (simp add: bxor_def)

lemma bxor_commute: "bxor as bs = bxor bs as"
  by (induction as bs rule: list_induct2') (simp_all add: xor.commute)

lemma bxor_assoc: "bxor (bxor as bs) cs = bxor as (bxor bs cs)"
proof (induction as arbitrary: bs cs)
  case Nil
  then show ?case by simp
next
  case (Cons a as)
  then show ?case by (cases bs; cases cs) (simp_all add: xor.assoc)
qed

lemma bxor_left_commute: "bxor as (bxor bs cs) = bxor bs (bxor as cs)"
  by (metis bxor_assoc bxor_commute)

lemmas bxor_ac [xor_simps] = bxor_assoc bxor_commute bxor_left_commute

lemma bxor_self [simp]: "bxor as as = zeros (length as)"
  by (induction as) simp_all

lemma bxor_zeros_right [simp]: "n = length as \<Longrightarrow> bxor as (zeros n) = as"
  by (induction as arbitrary: n) auto

lemma bxor_zeros_left [simp]: "n = length as \<Longrightarrow> bxor (zeros n) as = as"
  by (induction as arbitrary: n) auto

lemma bxor_cancel_left: "length as = length bs \<Longrightarrow> bxor as (bxor as bs) = bs"
  by (simp add: bxor_assoc [symmetric])

lemma bxor_cancel_right: "length as = length bs \<Longrightarrow> bxor (bxor as bs) bs = as"
  by (simp add: bxor_assoc)

lemma bxor_append:
  "length as = length cs \<Longrightarrow> bxor (as @ bs) (cs @ ds) = bxor as cs @ bxor bs ds"
  by (simp add: bxor_def)

lemma take_bxor: "take n (bxor as bs) = bxor (take n as) (take n bs)"
  by (simp add: bxor_def take_map take_zip)

lemma drop_bxor: "drop n (bxor as bs) = bxor (drop n as) (drop n bs)"
  by (simp add: bxor_def drop_map drop_zip)

lemma zeros_add: "zeros (m + n) = zeros m @ zeros n"
  by (simp add: zeros_def replicate_add)

lemma take_zeros [simp]: "take m (zeros n) = zeros (min m n)"
  by (simp add: zeros_def)

lemma drop_zeros [simp]: "drop m (zeros n) = zeros (n - m)"
  by (simp add: zeros_def)

section \<open>Self-delimiting encodings\<close>

text \<open>
  The contract between the code that writes a message and the code that reads it back from the
  front of a longer input. The client lemmas give injectivity, also of concatenations, which is
  what a hash or a signature over such bytes relies on.
\<close>

locale framed_codec =
  fixes enc :: "'a \<Rightarrow> bytes"
    and dec :: "bytes \<Rightarrow> ('a \<times> bytes) option"
    and ok :: "'a \<Rightarrow> bool"
  assumes dec_enc: "ok a \<Longrightarrow> dec (enc a @ rest) = Some (a, rest)"
begin

lemma enc_prefix_inject:
  assumes "ok a" and "ok b" and "enc a @ r = enc b @ s"
  shows "a = b \<and> r = s"
proof -
  have "Some (a, r) = dec (enc b @ s)"
    unfolding assms(3) [symmetric] by (rule dec_enc [OF assms(1), symmetric])
  also have "\<dots> = Some (b, s)" by (rule dec_enc [OF assms(2)])
  finally show ?thesis by simp
qed

lemma enc_inject: "ok a \<Longrightarrow> ok b \<Longrightarrow> enc a = enc b \<longleftrightarrow> a = b"
  by (metis append_Nil2 enc_prefix_inject)

lemma concat_enc_inject:
  assumes "list_all ok as" and "list_all ok bs" and "length as = length bs"
    and "concat (map enc as) @ r = concat (map enc bs) @ s"
  shows "as = bs \<and> r = s"
  using assms(3,1,2,4)
proof (induction as bs rule: list_induct2)
  case Nil
  then show ?case by simp
next
  case (Cons a as b bs)
  have ok: "ok a" "ok b" "list_all ok as" "list_all ok bs"
    using Cons.prems(1,2) by simp_all
  have "enc a @ (concat (map enc as) @ r) = enc b @ (concat (map enc bs) @ s)"
    using Cons.prems(3) by simp
  from enc_prefix_inject [OF ok(1,2) this]
  have hd: "a = b" and tl: "concat (map enc as) @ r = concat (map enc bs) @ s"
    by (rule conjunct1, rule conjunct2)
  from Cons.IH [OF ok(3,4) tl] hd show ?case by simp
qed

end

section \<open>Lists\<close>

lemma append_same_length_inject:
  "length as = length bs \<Longrightarrow> as @ cs = bs @ ds \<longleftrightarrow> as = bs \<and> cs = ds"
  by simp

lemma drop_add_append: "length as = n \<Longrightarrow> drop (n + k) (as @ bs) = drop k bs"
  by simp

end
