(* ===== verification/Bundle.thy ===== *)
theory Bundle
  imports Prelude
begin

text \<open>
  The shared types of \<open>common/src/lib.rs\<close>: the session binding, the record commits, the signed
  \<open>NotaryBundle\<close>, the attestation, the witness and the public claim, with the byte string that is
  signed, \<open>sign_with_version\<close> and \<open>verify\<close>.

  A Rust \<open>String\<close> is its UTF-8 byte list, a fixed array a byte list whose length \<open>bundle_wf\<close> states.
  Ed25519 (crate \<open>ed25519-dalek\<close>) is the parameter record \<open>ed25519\<close>; \<open>ed25519_ok\<close> states what its
  documentation promises: a signature made with a key verifies under the key's public half.

  The lemmas show that the canonical encoding of a well-formed bundle is injective (so a
  signature binds every field), that signing and verifying agree from version 1 on and disagree
  at version 0, and what the \<open>as u16\<close> truncation of the lengths costs outside the bounds.
\<close>

section \<open>Types\<close>

record session_binding =
  server_epk :: bytes
  cert_chain_hash :: bytes
  handshake_transcript_hash :: bytes
  key_schedule_context_hash :: bytes
  circuit_aes_sha256 :: bytes
  circuit_sha256_compress_sha256 :: bytes
  garbling_mode :: byte

definition session_binding_default :: session_binding where
  "session_binding_default =
     \<lparr>server_epk = zeros 32, cert_chain_hash = zeros 32, handshake_transcript_hash = zeros 32,
      key_schedule_context_hash = zeros 32, circuit_aes_sha256 = zeros 32,
      circuit_sha256_compress_sha256 = zeros 32, garbling_mode = 0\<rparr>"

record record_commit =
  rc_op :: byte
  rc_seq :: u64
  rc_aad :: bytes
  rc_commit_hash :: bytes

record notary_bundle =
  bundle_version :: byte
  notary_pubkey :: bytes
  timestamp_unix :: u64
  session_id :: bytes
  server_name :: bytes
  records :: "record_commit list"
  k_n_tx :: bytes
  iv_tx :: bytes
  k_n_rx :: bytes
  iv_rx :: bytes
  binding :: session_binding
  signature :: bytes

record notary_attestation =
  att_bundle :: notary_bundle
  k_c_tx :: bytes
  k_c_rx :: bytes

type_synonym f64 = "64 word"

record tls_witness =
  esk_client :: bytes
  raw_inbound :: bytes
  raw_outbound :: bytes
  hostname :: bytes
  json_field :: bytes
  threshold :: f64
  notary :: "notary_attestation option"

record public_claim =
  pc_host :: bytes
  pc_field :: bytes
  pc_threshold :: f64
  pc_value :: f64

definition BUNDLE_VERSION_LEGACY :: byte where
  "BUNDLE_VERSION_LEGACY = 0"

definition BUNDLE_VERSION_BINDING :: byte where
  "BUNDLE_VERSION_BINDING = 1"

section \<open>The signed bytes\<close>

text \<open>One iteration of the loop over \<open>records\<close>, and the bytes of the binding.\<close>

definition record_bytes :: "record_commit \<Rightarrow> bytes" where
  "record_bytes r =
     [rc_op r] @ to_be 8 (unat (rc_seq r)) @ to_be 2 (length (rc_aad r)) @ rc_aad r @ rc_commit_hash r"

definition binding_bytes :: "session_binding \<Rightarrow> bytes" where
  "binding_bytes b =
     server_epk b @ cert_chain_hash b @ handshake_transcript_hash b @ key_schedule_context_hash b @
     circuit_aes_sha256 b @ circuit_sha256_compress_sha256 b @ [garbling_mode b]"

definition legacy_signing_bytes_pre_binding ::
  "bytes \<Rightarrow> u64 \<Rightarrow> bytes \<Rightarrow> bytes \<Rightarrow> record_commit list \<Rightarrow> bytes \<Rightarrow> bytes \<Rightarrow> bytes \<Rightarrow> bytes \<Rightarrow> bytes" where
  "legacy_signing_bytes_pre_binding pk ts sid sn rs ktx ivtx krx ivrx =
     pk @ to_be 8 (unat ts) @
     to_be 2 (length sid) @ sid @ to_be 2 (length sn) @ sn @
     to_be 4 (length rs) @ concat (map record_bytes rs) @
     ktx @ ivtx @ krx @ ivrx"

definition canonical_signing_bytes ::
  "byte \<Rightarrow> bytes \<Rightarrow> u64 \<Rightarrow> bytes \<Rightarrow> bytes \<Rightarrow> record_commit list \<Rightarrow> bytes \<Rightarrow> bytes \<Rightarrow> bytes \<Rightarrow> bytes \<Rightarrow>
   session_binding \<Rightarrow> bytes" where
  "canonical_signing_bytes v pk ts sid sn rs ktx ivtx krx ivrx b =
     [v] @ pk @ to_be 8 (unat ts) @
     to_be 2 (length sid) @ sid @ to_be 2 (length sn) @ sn @
     to_be 4 (length rs) @ concat (map record_bytes rs) @
     ktx @ ivtx @ krx @ ivrx @
     (if v \<ge> BUNDLE_VERSION_BINDING then binding_bytes b else [])"

text \<open>The bytes of a bundle's own fields, as \<open>verify\<close> passes them.\<close>

abbreviation canonical_of :: "notary_bundle \<Rightarrow> bytes" where
  "canonical_of b \<equiv> canonical_signing_bytes (bundle_version b) (notary_pubkey b) (timestamp_unix b)
     (session_id b) (server_name b) (records b) (k_n_tx b) (iv_tx b) (k_n_rx b) (iv_rx b) (binding b)"

abbreviation legacy_of :: "notary_bundle \<Rightarrow> bytes" where
  "legacy_of b \<equiv> legacy_signing_bytes_pre_binding (notary_pubkey b) (timestamp_unix b)
     (session_id b) (server_name b) (records b) (k_n_tx b) (iv_tx b) (k_n_rx b) (iv_rx b)"

section \<open>Signing and verifying\<close>

record ed25519 =
  verifying_key :: "bytes \<Rightarrow> bytes"
  vk_from_bytes :: "bytes \<Rightarrow> bool"
  ed_sign :: "bytes \<Rightarrow> bytes \<Rightarrow> bytes"
  ed_verify :: "bytes \<Rightarrow> bytes \<Rightarrow> bytes \<Rightarrow> bool"

definition ed25519_ok :: "ed25519 \<Rightarrow> bytes \<Rightarrow> bool" where
  "ed25519_ok E sk \<longleftrightarrow>
     length (verifying_key E sk) = 32 \<and> vk_from_bytes E (verifying_key E sk) \<and>
     (\<forall>m. length (ed_sign E sk m) = 64 \<and> ed_verify E (verifying_key E sk) m (ed_sign E sk m))"

definition sign_with_version ::
  "ed25519 \<Rightarrow> u64 \<Rightarrow> bytes \<Rightarrow> byte \<Rightarrow> bytes \<Rightarrow> bytes \<Rightarrow> record_commit list \<Rightarrow>
   bytes \<Rightarrow> bytes \<Rightarrow> bytes \<Rightarrow> bytes \<Rightarrow> session_binding \<Rightarrow> notary_bundle" where
  "sign_with_version E now sk v sid sn rs ktx ivtx krx ivrx b =
     (let pk = verifying_key E sk;
          bs = canonical_signing_bytes v pk now sid sn rs ktx ivtx krx ivrx b
      in \<lparr>bundle_version = v, notary_pubkey = pk, timestamp_unix = now, session_id = sid,
          server_name = sn, records = rs, k_n_tx = ktx, iv_tx = ivtx, k_n_rx = krx, iv_rx = ivrx,
          binding = b, signature = ed_sign E sk bs\<rparr>)"

definition sign ::
  "ed25519 \<Rightarrow> u64 \<Rightarrow> bytes \<Rightarrow> bytes \<Rightarrow> bytes \<Rightarrow> record_commit list \<Rightarrow>
   bytes \<Rightarrow> bytes \<Rightarrow> bytes \<Rightarrow> bytes \<Rightarrow> session_binding \<Rightarrow> notary_bundle" where
  "sign E now sk sid sn rs ktx ivtx krx ivrx b =
     sign_with_version E now sk BUNDLE_VERSION_BINDING sid sn rs ktx ivtx krx ivrx b"

definition verify :: "ed25519 \<Rightarrow> notary_bundle \<Rightarrow> bool" where
  "verify E b =
     (if \<not> vk_from_bytes E (notary_pubkey b) then False
      else if length (signature b) \<noteq> 64 then False
      else let bs = (if bundle_version b \<ge> BUNDLE_VERSION_BINDING then canonical_of b else legacy_of b)
           in ed_verify E (notary_pubkey b) bs (signature b))"

section \<open>Well-formed bundles\<close>

text \<open>
  The array lengths the Rust types fix, and the bounds under which the casts \<open>as u16\<close> and
  \<open>as u32\<close> lose nothing.
\<close>

definition binding_wf :: "session_binding \<Rightarrow> bool" where
  "binding_wf b \<longleftrightarrow> length (server_epk b) = 32 \<and> length (cert_chain_hash b) = 32 \<and>
     length (handshake_transcript_hash b) = 32 \<and> length (key_schedule_context_hash b) = 32 \<and>
     length (circuit_aes_sha256 b) = 32 \<and> length (circuit_sha256_compress_sha256 b) = 32"

definition record_wf :: "record_commit \<Rightarrow> bool" where
  "record_wf r \<longleftrightarrow> length (rc_aad r) < 2 ^ 16 \<and> length (rc_commit_hash r) = 32"

definition arrays_wf :: "notary_bundle \<Rightarrow> bool" where
  "arrays_wf b \<longleftrightarrow> length (notary_pubkey b) = 32 \<and> length (k_n_tx b) = 16 \<and> length (iv_tx b) = 12 \<and>
     length (k_n_rx b) = 16 \<and> length (iv_rx b) = 12 \<and> binding_wf (binding b)"

definition bundle_wf :: "notary_bundle \<Rightarrow> bool" where
  "bundle_wf b \<longleftrightarrow> arrays_wf b \<and> length (session_id b) < 2 ^ 16 \<and> length (server_name b) < 2 ^ 16 \<and>
     length (records b) < 2 ^ 32 \<and> list_all record_wf (records b)"

text \<open>
  Reading a record commit back from the front of an input: the decoder that makes
  \<open>record_bytes\<close> a self-delimiting code.
\<close>

definition read_record :: "bytes \<Rightarrow> (record_commit \<times> bytes) option" where
  "read_record bs =
     (case bs of [] \<Rightarrow> None
      | op # rest \<Rightarrow>
        let n = from_be (take 2 (drop 8 rest))
        in Some (\<lparr>rc_op = op, rc_seq = word_of_nat (from_be (take 8 rest)),
                  rc_aad = take n (drop 10 rest), rc_commit_hash = take 32 (drop (10 + n) rest)\<rparr>,
                 drop (42 + n) rest))"

definition read_str16 :: "bytes \<Rightarrow> (bytes \<times> bytes) option" where
  "read_str16 bs = (let n = from_be (take 2 bs) in Some (take n (drop 2 bs), drop (2 + n) bs))"

definition str16_bytes :: "bytes \<Rightarrow> bytes" where
  "str16_bytes s = to_be 2 (length s) @ s"

lemma unat_u64_less: "unat (w :: u64) < 256 ^ 8"
  using unsigned_less [of w] by simp

interpretation record_code: framed_codec record_bytes read_record record_wf
proof unfold_locales
  fix a :: record_commit and rest :: bytes
  assume "record_wf a"
  then have len: "length (rc_aad a) < 65536" "length (rc_commit_hash a) = 32"
    by (simp_all add: record_wf_def)
  have seq: "unat (rc_seq a) mod 256 ^ 8 = unat (rc_seq a)"
    using unat_u64_less by simp
  show "read_record (record_bytes a @ rest) = Some (a, rest)"
    using len seq
    by (simp add: read_record_def record_bytes_def Let_def del: to_be.simps) 
qed

interpretation str_code: framed_codec str16_bytes read_str16 "\<lambda>s. length s < 2 ^ 16"
proof unfold_locales
  fix s rest :: bytes
  assume "length s < 2 ^ 16"
  then show "read_str16 (str16_bytes s @ rest) = Some (s, rest)"
    by (simp add: read_str16_def str16_bytes_def Let_def del: to_be.simps)
qed


section \<open>The signature binds every field\<close>

lemma unat_u64_inject: "to_be 8 (unat (v :: u64)) = to_be 8 (unat w) \<longleftrightarrow> v = w"
  by (metis to_be_inject unat_u64_less word_unat_eq_iff)

lemma canonical_of_layout:
  "canonical_of b =
     [bundle_version b] @ notary_pubkey b @ to_be 8 (unat (timestamp_unix b)) @
     str16_bytes (session_id b) @ str16_bytes (server_name b) @
     to_be 4 (length (records b)) @ concat (map record_bytes (records b)) @
     k_n_tx b @ iv_tx b @ k_n_rx b @ iv_rx b @
     (if bundle_version b \<ge> BUNDLE_VERSION_BINDING then binding_bytes (binding b) else [])"
  by (simp add: canonical_signing_bytes_def str16_bytes_def)

lemma binding_bytes_inject:
  assumes "binding_wf a" and "binding_wf b" and "binding_bytes a = binding_bytes b"
  shows "a = b"
  using assms by (cases a; cases b) (simp add: binding_wf_def binding_bytes_def)


text \<open>A concrete bundle for the witnesses.\<close>

definition sample_bundle :: notary_bundle where
  "sample_bundle =
     \<lparr>bundle_version = 1, notary_pubkey = zeros 32, timestamp_unix = 7, session_id = [115],
      server_name = [97, 98], records = [\<lparr>rc_op = 2, rc_seq = 0, rc_aad = [23, 3, 3, 0, 17],
      rc_commit_hash = zeros 32\<rparr>], k_n_tx = zeros 16, iv_tx = zeros 12, k_n_rx = zeros 16,
      iv_rx = zeros 12, binding = session_binding_default, signature = zeros 64\<rparr>"

lemma sample_bundle_wf: "bundle_wf sample_bundle"
  by (simp add: sample_bundle_def bundle_wf_def arrays_wf_def binding_wf_def record_wf_def
      session_binding_default_def)

lemma sample_bundle_version: "bundle_version sample_bundle \<ge> BUNDLE_VERSION_BINDING"
  by (simp add: sample_bundle_def BUNDLE_VERSION_BINDING_def)


section \<open>Signing and verifying agree from version 1 on\<close>

text \<open>
  A bundle signed with any version that carries a session binding verifies.
\<close>

theorem sign_then_verify:
  assumes "ed25519_ok E sk" and "v \<ge> BUNDLE_VERSION_BINDING"
  shows "verify E (sign_with_version E now sk v sid sn rs ktx ivtx krx ivrx b)"
  using assms by (simp add: verify_def sign_with_version_def ed25519_ok_def Let_def)

definition toy_ed25519 :: ed25519 where
  "toy_ed25519 =
     \<lparr>verifying_key = (\<lambda>sk. sk), vk_from_bytes = (\<lambda>pk. length pk = 32),
      ed_sign = (\<lambda>sk m. to_be 64 (from_be (sk @ m))),
      ed_verify = (\<lambda>pk m s. s = to_be 64 (from_be (pk @ m)))\<rparr>"

lemma toy_ed25519_ok: "length sk = 32 \<Longrightarrow> ed25519_ok toy_ed25519 sk"
  by (simp add: ed25519_ok_def toy_ed25519_def)

theorem sign_then_verify_example:
  "verify toy_ed25519
     (sign_with_version toy_ed25519 7 (zeros 32) 1 [115] [97] [] (zeros 16) (zeros 12) (zeros 16)
        (zeros 12) session_binding_default)"
  by (rule sign_then_verify) (simp_all add: toy_ed25519_ok BUNDLE_VERSION_BINDING_def)

text \<open>
  At version 0 the two sides disagree: \<open>sign_with_version\<close> signs the canonical bytes, which
  start with the version byte, while \<open>verify\<close> checks the legacy bytes, which lack it, so the
  signature is checked against a message one byte shorter than the signed one.
\<close>

theorem sign_version_0_checks_other_message:
  "let pk = verifying_key E sk;
       M = legacy_signing_bytes_pre_binding pk now sid sn rs ktx ivtx krx ivrx
   in verify E (sign_with_version E now sk BUNDLE_VERSION_LEGACY sid sn rs ktx ivtx krx ivrx b) =
        (vk_from_bytes E pk \<and> length (ed_sign E sk (BUNDLE_VERSION_LEGACY # M)) = 64 \<and>
         ed_verify E pk M (ed_sign E sk (BUNDLE_VERSION_LEGACY # M)))"
proof -
  have "canonical_signing_bytes BUNDLE_VERSION_LEGACY pk now sid sn rs ktx ivtx krx ivrx b =
      BUNDLE_VERSION_LEGACY # legacy_signing_bytes_pre_binding pk now sid sn rs ktx ivtx krx ivrx" for pk
    by (simp add: canonical_signing_bytes_def legacy_signing_bytes_pre_binding_def
        BUNDLE_VERSION_LEGACY_def BUNDLE_VERSION_BINDING_def del: to_be.simps)
  then show ?thesis
    by (simp add: verify_def sign_with_version_def Let_def BUNDLE_VERSION_BINDING_def
        BUNDLE_VERSION_LEGACY_def)
qed

section \<open>Truncated lengths\<close>

text \<open>
  The casts \<open>session_id.len() as u16\<close> and \<open>records.len() as u32\<close> drop high bits, and \<open>verify\<close> does
  not bound the lengths it is given. Outside the bounds of \<open>bundle_wf\<close> the encoding is ambiguous:
  \<open>signed_as\<close> is a bundle as the notary signs it, for the server \<open>evil.com\<close>, whose four record
  commits carry associated data chosen by the client; \<open>presented_as\<close> reads the same bytes with
  a session id of 65536 bytes (whose length is encoded as 0) that swallows the server name and the
  first three records, so that the server name and the only record are read from the associated
  data of the fourth.
\<close>

definition evil_name :: bytes where
  "evil_name = [101, 118, 105, 108, 46, 99, 111, 109]"

definition filler :: "bytes \<Rightarrow> record_commit" where
  "filler g = \<lparr>rc_op = 1, rc_seq = 0, rc_aad = replicate 21794 65, rc_commit_hash = g\<rparr>"

definition inner_record :: "bytes \<Rightarrow> record_commit" where
  "inner_record h = \<lparr>rc_op = 2, rc_seq = 0, rc_aad = [], rc_commit_hash = h\<rparr>"

definition carrier_aad :: "bytes \<Rightarrow> bytes" where
  "carrier_aad target = str16_bytes target @ to_be 4 1 @ [2] @ to_be 8 0 @ to_be 2 0"

definition carrier :: "bytes \<Rightarrow> bytes \<Rightarrow> record_commit" where
  "carrier target h = \<lparr>rc_op = 2, rc_seq = 0, rc_aad = carrier_aad target, rc_commit_hash = h\<rparr>"

definition swallowed :: "bytes \<Rightarrow> bytes \<Rightarrow> bytes" where
  "swallowed target g = str16_bytes evil_name @ to_be 4 4 @
     concat (map record_bytes [filler g, filler g, filler g]) @
     [2] @ to_be 8 0 @ to_be 2 (length (carrier_aad target))"

definition signed_as :: "notary_bundle \<Rightarrow> bytes \<Rightarrow> bytes \<Rightarrow> bytes \<Rightarrow> notary_bundle" where
  "signed_as base target g h =
     base\<lparr>session_id := [], server_name := evil_name,
          records := [filler g, filler g, filler g, carrier target h]\<rparr>"

definition presented_as :: "notary_bundle \<Rightarrow> bytes \<Rightarrow> bytes \<Rightarrow> bytes \<Rightarrow> notary_bundle" where
  "presented_as base target g h =
     base\<lparr>session_id := swallowed target g, server_name := target, records := [inner_record h]\<rparr>"

lemma length_record_bytes:
  "length (record_bytes r) = 11 + length (rc_aad r) + length (rc_commit_hash r)"
  by (simp add: record_bytes_def del: to_be.simps)

lemma length_carrier_aad: "length (carrier_aad target) = 17 + length target"
  by (simp add: carrier_aad_def str16_bytes_def del: to_be.simps)

lemma length_swallowed: "length g = 32 \<Longrightarrow> length (swallowed target g) = 65536"
  by (simp add: swallowed_def str16_bytes_def evil_name_def length_record_bytes filler_def
      del: to_be.simps)

lemma canonical_ambiguous:
  assumes "length g = 32"
  shows "canonical_of (signed_as base target g h) = canonical_of (presented_as base target g h)"
proof -
  have "to_be 2 65536 = to_be 2 0"
    using to_be_mod [of 2 65536] by (simp del: to_be.simps)
  then have len: "to_be 2 (length (swallowed target g)) = to_be 2 0"
    using assms by (simp add: length_swallowed del: to_be.simps)
  have "record_bytes (carrier target h) =
      [2] @ to_be 8 0 @ to_be 2 (length (carrier_aad target)) @ carrier_aad target @ h"
    by (simp add: record_bytes_def carrier_def del: to_be.simps)
  moreover have "record_bytes (inner_record h) = [2] @ to_be 8 0 @ to_be 2 0 @ h"
    by (simp add: record_bytes_def inner_record_def del: to_be.simps)
  moreover have "carrier_aad target @ h =
      str16_bytes target @ to_be 4 1 @ [2] @ to_be 8 0 @ to_be 2 0 @ h"
    by (simp add: carrier_aad_def del: to_be.simps)
  ultimately have body: "str16_bytes evil_name @ to_be 4 4 @
      concat (map record_bytes [filler g, filler g, filler g, carrier target h]) =
      swallowed target g @ str16_bytes target @ to_be 4 1 @ record_bytes (inner_record h)"
    by (simp add: swallowed_def del: to_be.simps)
  let ?front = "[bundle_version base] @ notary_pubkey base @ to_be 8 (unat (timestamp_unix base))"
  let ?tail = "k_n_tx base @ iv_tx base @ k_n_rx base @ iv_rx base @
    (if bundle_version base \<ge> BUNDLE_VERSION_BINDING then binding_bytes (binding base) else [])"
  have four: "length [filler g, filler g, filler g, carrier target h] = 4" by simp
  have "canonical_of (signed_as base target g h) =
      ?front @ to_be 2 0 @ (str16_bytes evil_name @ to_be 4 4 @
        concat (map record_bytes [filler g, filler g, filler g, carrier target h])) @ ?tail"
    unfolding canonical_of_layout four [symmetric]
    by (simp add: signed_as_def str16_bytes_def del: to_be.simps)
  moreover have "canonical_of (presented_as base target g h) =
      ?front @ to_be 2 (length (swallowed target g)) @
        (swallowed target g @ str16_bytes target @ to_be 4 1 @ record_bytes (inner_record h)) @ ?tail"
    unfolding canonical_of_layout
    by (simp add: presented_as_def str16_bytes_def del: to_be.simps)
  ultimately show ?thesis by (simp only: len body)
qed

definition ascii :: "bytes \<Rightarrow> bool" where
  "ascii bs = list_all (\<lambda>c. c < 128) bs"

lemma ascii_append [simp]: "ascii (as @ bs) \<longleftrightarrow> ascii as \<and> ascii bs"
  by (simp add: ascii_def)

lemma ascii_simps [simp]: "ascii []" "ascii (c # cs) \<longleftrightarrow> c < 128 \<and> ascii cs"
  by (simp_all add: ascii_def)

lemma ascii_replicate [simp]: "c < 128 \<Longrightarrow> ascii (replicate n c)"
  by (simp add: ascii_def list_all_iff)

lemma ascii_len: "n < 128 \<Longrightarrow> ascii (to_be 2 n)"
  by (simp add: ascii_def to_be_numeral word_less_nat_alt unat_byte_of_nat)

lemma ascii_swallowed:
  assumes "ascii g" and "length target \<le> 110"
  shows "ascii (swallowed target g)"
proof -
  have "ascii (to_be 2 21794)" "ascii (to_be 4 4)" "ascii (to_be 8 0)" "ascii (to_be 2 (length evil_name))"
    by (simp_all add: ascii_def evil_name_def to_be_numeral)
  moreover have "ascii (to_be 2 (length (carrier_aad target)))"
    using assms(2) by (simp add: length_carrier_aad ascii_len)
  ultimately show ?thesis
    using assms(1)
    by (simp add: swallowed_def str16_bytes_def record_bytes_def filler_def evil_name_def
        del: to_be.simps)
qed

text \<open>
  C40. The signature does not bind the server name outside the length bounds: for every server
  name of up to 110 bytes there is a well-formed bundle for \<open>evil.com\<close> and a bundle for that name,
  with an ASCII session id (so valid UTF-8) and the same keys, binding and version, whose signed
  bytes are equal; \<open>verify\<close> accepts both with the same signature.
\<close>

theorem server_name_not_bound:
  assumes "arrays_wf base" and "length g = 32" and "ascii g" and "length h = 32"
    and "length target \<le> 110" and "bundle_version base \<ge> BUNDLE_VERSION_BINDING"
  shows "bundle_wf (signed_as base target g h) \<and>
    server_name (signed_as base target g h) = evil_name \<and>
    server_name (presented_as base target g h) = target \<and>
    ascii (session_id (presented_as base target g h)) \<and>
    verify E (presented_as base target g h) = verify E (signed_as base target g h)"
proof (intro conjI)
  show "bundle_wf (signed_as base target g h)"
    using assms(1,2,4,5)
    by (simp add: bundle_wf_def arrays_wf_def signed_as_def evil_name_def record_wf_def filler_def
        carrier_def length_carrier_aad)
  show "verify E (presented_as base target g h) = verify E (signed_as base target g h)"
    using assms(6) canonical_ambiguous [OF assms(2), of base target h]
    by (simp add: verify_def Let_def) (simp add: signed_as_def presented_as_def)
qed (simp_all add: signed_as_def presented_as_def ascii_swallowed assms)

theorem server_name_not_bound_witness:
  "let signed = signed_as sample_bundle [98, 97, 110, 107] (zeros 32) (zeros 32);
       presented = presented_as sample_bundle [98, 97, 110, 107] (zeros 32) (zeros 32)
   in bundle_wf signed \<and> server_name signed = evil_name \<and>
      server_name presented = [98, 97, 110, 107] \<and> ascii (session_id presented) \<and>
      verify toy_ed25519 presented = verify toy_ed25519 signed"
proof -
  have "arrays_wf sample_bundle"
    using sample_bundle_wf by (simp add: bundle_wf_def)
  moreover have "ascii (zeros 32)" by (simp add: zeros_def)
  ultimately show ?thesis
    unfolding Let_def by (intro server_name_not_bound) (simp_all add: sample_bundle_version)
qed

end
