(* ===== verification/Tls_Records.thy ===== *)
theory Tls_Records
  imports Prelude
begin

text \<open>
  The TLS record layer and handshake parsers of the SP1 guest (\<open>guest/src/main.rs\<close>, from
  \<open>parse_records\<close> to \<open>parse_key_share_server\<close>).

  The loops keep the source's byte position: \<open>parse_records_from bs pos\<close> is the \<open>while\<close> loop entered
  at \<open>pos\<close>, and what it pushes is the head of its result. Positions are \<open>nat\<close>: they are bounded by
  the length of a buffer in memory plus 2^24, so \<open>usize\<close> does not overflow. An assertion that
  fails and an index or slice out of range are panics (\<open>Inl fault\<close>); a returned \<open>Err\<close> is the \<open>Inl\<close> of
  the inner sum. Where the code has checked a bound before it indexes, the model uses \<open>!\<close>, \<open>take\<close> and
  \<open>drop\<close>; where it has not, \<open>idx\<close> and \<open>slice\<close>.

  The lemmas show that the record and the handshake parser accept exactly the concatenations
  of encoded messages and return them, that re-encoding a parsed handshake message gives the
  wire bytes back (so the transcript hash covers what was sent), and what the Certificate and
  key-share parsers return on encoded messages.
\<close>

section \<open>Records\<close>

record raw_record =
  content_type :: byte
  legacy_version :: u16
  payload :: bytes

function parse_records_from :: "bytes \<Rightarrow> nat \<Rightarrow> fault + raw_record list" where
  "parse_records_from bs pos =
     (if pos + 5 \<le> length bs then
        let ct = bs ! pos;
            version = word_of_nat (from_be [bs ! (pos + 1), bs ! (pos + 2)]);
            len = from_be [bs ! (pos + 3), bs ! (pos + 4)]
        in if pos + 5 + len \<le> length bs
           then sbind (parse_records_from bs (pos + 5 + len))
                  (\<lambda>rs. Inr (\<lparr>content_type = ct, legacy_version = version,
                             payload = take len (drop (pos + 5) bs)\<rparr> # rs))
           else Inl (Assertion ''truncated TLS record'')
      else Inr [])"
  by pat_completeness auto
termination
  by (relation "measure (\<lambda>(bs, pos). length bs - pos)") auto

declare parse_records_from.simps [simp del]

definition parse_records :: "bytes \<Rightarrow> fault + raw_record list" where
  "parse_records bs = parse_records_from bs 0"

definition record_to_bytes :: "raw_record \<Rightarrow> bytes" where
  "record_to_bytes r =
     [content_type r] @ to_be 2 (unat (legacy_version r)) @ to_be 2 (length (payload r)) @ payload r"

section \<open>Handshake messages\<close>

record handshake_msg =
  msg_type :: byte
  body :: bytes

function parse_handshake_messages_from :: "bytes \<Rightarrow> nat \<Rightarrow> string + handshake_msg list" where
  "parse_handshake_messages_from data pos =
     (if pos < length data then
        if length data - pos < 4 then Inl ''truncated handshake header''
        else
          let mt = data ! pos;
              len = from_be [0, data ! (pos + 1), data ! (pos + 2), data ! (pos + 3)]
          in if length data - (pos + 4) < len then Inl ''truncated handshake body''
             else sbind (parse_handshake_messages_from data (pos + 4 + len))
                    (\<lambda>ms. Inr (\<lparr>msg_type = mt, body = take len (drop (pos + 4) data)\<rparr> # ms))
      else Inr [])"
  by pat_completeness auto
termination
  by (relation "measure (\<lambda>(data, pos). length data - pos)") auto

declare parse_handshake_messages_from.simps [simp del]

definition parse_handshake_messages :: "bytes \<Rightarrow> string + handshake_msg list" where
  "parse_handshake_messages data = parse_handshake_messages_from data 0"

text \<open>\<open>len >> 16 as u8\<close>, \<open>len >> 8 as u8\<close>, \<open>len as u8\<close>: the three low bytes of the length.\<close>

definition hs_header :: "handshake_msg \<Rightarrow> bytes" where
  "hs_header m =
     (let len = word_of_nat (length (body m)) :: u32
      in [msg_type m, ucast (drop_bit 16 len), ucast (drop_bit 8 len), ucast len])"

section \<open>The Certificate message\<close>

text \<open>
  \<open>body.len() - pos\<close> wraps around when the context length runs past the body; the wrapped
  difference is not below 3 and the next index panics, as in the model.
\<close>

function parse_cert_entries :: "bytes \<Rightarrow> nat \<Rightarrow> nat \<Rightarrow> fault + (string + bytes list)" where
  "parse_cert_entries bs list_end pos =
     (if pos < list_end then
        if list_end - pos < 3 then Inr (Inl ''truncated cert_data length'')
        else sbind (slice bs pos (pos + 3)) (\<lambda>l3.
          let cert_len = from_be (0 # l3); pos = pos + 3
          in if list_end - pos < cert_len then Inr (Inl ''truncated cert_data'')
             else sbind (slice bs pos (pos + cert_len)) (\<lambda>cert.
               let pos = pos + cert_len
               in if list_end - pos < 2 then Inr (Inl ''truncated cert extensions length'')
                  else sbind (slice bs pos (pos + 2)) (\<lambda>l2.
                    sbind (parse_cert_entries bs list_end (pos + 2 + from_be l2)) (\<lambda>r.
                      Inr (sbind r (\<lambda>certs. Inr (cert # certs)))))))
      else Inr (Inr []))"
  by pat_completeness auto
termination
  by (relation "measure (\<lambda>(bs, list_end, pos). list_end - pos)") auto

declare parse_cert_entries.simps [simp del]

definition parse_cert_message :: "bytes \<Rightarrow> fault + (string + bytes list)" where
  "parse_cert_message bs =
     (if length bs = 0 then Inr (Inl ''empty Certificate message'')
      else
        let pos = 1 + unat (bs ! 0)
        in if pos \<le> length bs \<and> length bs - pos < 3
           then Inr (Inl ''truncated certificate_list length'')
           else sbind (slice bs pos (pos + 3)) (\<lambda>l3.
             let list_len = from_be (0 # l3); pos = pos + 3
             in parse_cert_entries bs (pos + list_len) pos))"

section \<open>Key shares\<close>

function client_shares_from :: "bytes \<Rightarrow> nat \<Rightarrow> nat \<Rightarrow> bytes option" where
  "client_shares_from ext_data list_end epos =
     (if epos + 4 \<le> min list_end (length ext_data) then
        let group = from_be [ext_data ! epos, ext_data ! (epos + 1)];
            klen = from_be [ext_data ! (epos + 2), ext_data ! (epos + 3)];
            epos = epos + 4
        in if epos + klen > length ext_data then None
           else if group = 0x001d \<and> klen = 32 then Some (take 32 (drop epos ext_data))
           else client_shares_from ext_data list_end (epos + klen)
      else None)"
  by pat_completeness auto
termination
  by (relation "measure (\<lambda>(d, e, p). length d - p)") auto

declare client_shares_from.simps [simp del]

function key_share_client_from :: "bytes \<Rightarrow> nat \<Rightarrow> bytes option" where
  "key_share_client_from exts pos =
     (if pos + 4 \<le> length exts then
        let ext_type = from_be [exts ! pos, exts ! (pos + 1)];
            ext_len = from_be [exts ! (pos + 2), exts ! (pos + 3)];
            pos = pos + 4
        in if pos + ext_len > length exts then None
           else let ext_data = take ext_len (drop pos exts)
                in if ext_type = 0x0033 then
                     if length ext_data < 2 then None
                     else case client_shares_from ext_data
                                 (2 + from_be [ext_data ! 0, ext_data ! 1]) 2 of
                            Some key \<Rightarrow> Some key
                          | None \<Rightarrow> key_share_client_from exts (pos + ext_len)
                   else key_share_client_from exts (pos + ext_len)
      else None)"
  by pat_completeness auto
termination
  by (relation "measure (\<lambda>(d, p). length d - p)") auto

declare key_share_client_from.simps [simp del]

definition parse_key_share_client :: "bytes \<Rightarrow> bytes option" where
  "parse_key_share_client exts = key_share_client_from exts 0"

function key_share_server_from :: "bytes \<Rightarrow> nat \<Rightarrow> bytes option" where
  "key_share_server_from exts pos =
     (if pos + 4 \<le> length exts then
        let ext_type = from_be [exts ! pos, exts ! (pos + 1)];
            ext_len = from_be [exts ! (pos + 2), exts ! (pos + 3)];
            pos = pos + 4
        in if pos + ext_len > length exts then None
           else let ext_data = take ext_len (drop pos exts)
                in if ext_type = 0x0033 then
                     if length ext_data < 4 then None
                     else
                       let group = from_be [ext_data ! 0, ext_data ! 1];
                           klen = from_be [ext_data ! 2, ext_data ! 3]
                       in if group = 0x001d \<and> klen = 32 \<and> length ext_data \<ge> 4 + 32
                          then Some (take 32 (drop 4 ext_data))
                          else key_share_server_from exts (pos + ext_len)
                   else key_share_server_from exts (pos + ext_len)
      else None)"
  by pat_completeness auto
termination
  by (relation "measure (\<lambda>(d, p). length d - p)") auto

declare key_share_server_from.simps [simp del]

definition parse_key_share_server :: "bytes \<Rightarrow> bytes option" where
  "parse_key_share_server exts = key_share_server_from exts 0"

text \<open>The walk over the ClientHello body up to its extensions (\<open>None\<close> on a short body).\<close>

definition client_hello_extensions :: "bytes \<Rightarrow> bytes option" where
  "client_hello_extensions bs =
     (let pos = 2 + 32
      in if pos \<ge> length bs then None
         else let pos = pos + 1 + unat (bs ! pos)
         in if pos + 2 > length bs then None
         else let pos = pos + 2 + from_be [bs ! pos, bs ! (pos + 1)]
         in if pos \<ge> length bs then None
         else let pos = pos + 1 + unat (bs ! pos)
         in if pos + 2 > length bs then None
         else let ext_total = from_be [bs ! pos, bs ! (pos + 1)];
                  pos = pos + 2;
                  ext_end = pos + ext_total
         in Some (take (min ext_end (length bs) - pos) (drop pos bs)))"

definition parse_client_hello_key_share :: "bytes \<Rightarrow> fault + bytes option" where
  "parse_client_hello_key_share outbound =
     sbind (parse_records outbound) (\<lambda>rs.
       case find (\<lambda>r. content_type r = 22) rs of
         None \<Rightarrow> Inr None
       | Some r \<Rightarrow>
           (case parse_handshake_messages (payload r) of
              Inl _ \<Rightarrow> Inr None
            | Inr msgs \<Rightarrow>
                (case find (\<lambda>m. msg_type m = 1) msgs of
                   None \<Rightarrow> Inr None
                 | Some ch \<Rightarrow> Inr (Option.bind (client_hello_extensions (body ch)) parse_key_share_client))))"

text \<open>The walk over the ServerHello body: one cipher suite and one compression byte.\<close>

definition server_hello_extensions :: "bytes \<Rightarrow> bytes option" where
  "server_hello_extensions bs =
     (let pos = 2 + 32
      in if pos \<ge> length bs then None
         else let pos = pos + 1 + unat (bs ! pos) + 2 + 1
         in if pos + 2 > length bs then None
         else let ext_total = from_be [bs ! pos, bs ! (pos + 1)];
                  pos = pos + 2;
                  ext_end = pos + ext_total
         in Some (take (min ext_end (length bs) - pos) (drop pos bs)))"

definition parse_server_hello_key_share :: "bytes \<Rightarrow> fault + bytes option" where
  "parse_server_hello_key_share inbound =
     sbind (parse_records inbound) (\<lambda>rs.
       case find (\<lambda>r. content_type r = 22) rs of
         None \<Rightarrow> Inr None
       | Some r \<Rightarrow>
           (case parse_handshake_messages (payload r) of
              Inl _ \<Rightarrow> Inr None
            | Inr msgs \<Rightarrow>
                (case find (\<lambda>m. msg_type m = 2) msgs of
                   None \<Rightarrow> Inr None
                 | Some sh \<Rightarrow> Inr (Option.bind (server_hello_extensions (body sh)) parse_key_share_server))))"

section \<open>What the parsers accept\<close>

lemma length_record_to_bytes [simp]: "length (record_to_bytes r) = 5 + length (payload r)"
  by (simp add: record_to_bytes_def del: to_be.simps)

lemma parse_records_from_step:
  assumes "length (payload r) < 65536"
  shows "parse_records_from (p @ record_to_bytes r @ rest) (length p) =
    sbind (parse_records_from (p @ record_to_bytes r @ rest) (length p + 5 + length (payload r)))
      (\<lambda>rs. Inr (r # rs))"
proof (cases r)
  case (fields ct v pl)
  have "record_to_bytes r = ct # word_of_nat (unat v div 256) # ucast v #
      word_of_nat (length pl div 256) # word_of_nat (length pl) # pl"
    by (simp add: fields record_to_bytes_def to_be_numeral)
  then show ?thesis
    using assms by (subst parse_records_from.simps) (simp add: fields nth_append Let_def)
qed

lemma parse_records_from_encoded:
  assumes "list_all (\<lambda>r. length (payload r) < 65536) rs" and "length tail < 5"
  shows "parse_records_from (p @ concat (map record_to_bytes rs) @ tail) (length p) = Inr rs"
  using assms(1)
proof (induction rs arbitrary: p)
  case Nil
  then show ?case using assms(2) by (simp add: parse_records_from.simps)
next
  case (Cons r rs)
  have "parse_records_from ((p @ record_to_bytes r) @ concat (map record_to_bytes rs) @ tail)
      (length (p @ record_to_bytes r)) = Inr rs"
    using Cons by (intro Cons.IH) simp
  with Cons.prems show ?case
    by (simp add: parse_records_from_step add.assoc)
qed

lemma record_to_bytes_of_wire:
  "record_to_bytes \<lparr>content_type = a, legacy_version = word_of_nat (from_be [b, c]),
      payload = pl\<rparr> = a # b # c # to_be 2 (length pl) @ pl"
  by (simp add: record_to_bytes_def to_be_word16 del: to_be.simps)

lemma to_be_2_from_be: "to_be 2 (from_be [a, b]) = [a, b]"
  by (rule to_be_from_be_len) simp

lemma parse_records_from_sound:
  assumes "parse_records_from bs pos = Inr rs" and "pos \<le> length bs"
  shows "\<exists>tail. drop pos bs = concat (map record_to_bytes rs) @ tail \<and> length tail < 5 \<and>
    list_all (\<lambda>r. length (payload r) < 65536) rs"
  using assms
proof (induction bs pos arbitrary: rs rule: parse_records_from.induct)
  case (1 bs pos)
  show ?case
  proof (cases "pos + 5 \<le> length bs")
    case False
    with "1.prems" show ?thesis by (subst (asm) parse_records_from.simps) auto
  next
    case True
    let ?len = "from_be [bs ! (pos + 3), bs ! (pos + 4)]"
    let ?r = "\<lparr>content_type = bs ! pos, legacy_version = word_of_nat (from_be [bs ! (pos + 1), bs ! (pos + 2)]),
      payload = take ?len (drop (pos + 5) bs)\<rparr>"
    from "1.prems"(1) True obtain rs' where fits: "pos + 5 + ?len \<le> length bs"
      and rest: "parse_records_from bs (pos + 5 + ?len) = Inr rs'" and rs: "rs = ?r # rs'"
      by (subst (asm) parse_records_from.simps) (auto simp: Let_def fault_simps split: if_splits)
    from "1.IH" [OF True refl refl refl fits rest fits] obtain tail
      where tail: "drop (pos + 5 + ?len) bs = concat (map record_to_bytes rs') @ tail"
        and short: "length tail < 5" "list_all (\<lambda>r. length (payload r) < 65536) rs'"
      by blast
    have "drop (pos + 5) bs = take ?len (drop (pos + 5) bs) @ drop (pos + 5 + ?len) bs"
      by (simp only: drop_drop [symmetric] append_take_drop_id add.commute [of _ ?len])
    moreover have "length (take ?len (drop (pos + 5) bs)) = ?len"
      using fits by simp
    ultimately have "drop pos bs = record_to_bytes ?r @ concat (map record_to_bytes rs') @ tail"
      using drop_5_nths [OF True] tail
      by (simp add: record_to_bytes_of_wire to_be_2_from_be del: to_be.simps)
    then have "drop pos bs = concat (map record_to_bytes rs) @ tail"
      by (simp add: rs)
    moreover have "list_all (\<lambda>r. length (payload r) < 65536) rs"
      using short(2) fits from_be_bound2 [of "bs ! (pos + 3)" "bs ! (pos + 4)"] by (simp add: rs)
    ultimately show ?thesis using short(1) by blast
  qed
qed


text \<open>
  C23. The record parser accepts exactly a concatenation of encoded records, followed by less than
  a record header, and returns these records; on anything else it panics.
\<close>

theorem parse_records_iff:
  "parse_records bs = Inr rs \<longleftrightarrow>
     (\<exists>tail. bs = concat (map record_to_bytes rs) @ tail \<and> length tail < 5) \<and>
     list_all (\<lambda>r. length (payload r) < 65536) rs"
proof
  assume "parse_records bs = Inr rs"
  with parse_records_from_sound [of bs 0 rs]
  show "(\<exists>tail. bs = concat (map record_to_bytes rs) @ tail \<and> length tail < 5) \<and>
     list_all (\<lambda>r. length (payload r) < 65536) rs"
    by (auto simp: parse_records_def)
next
  assume "(\<exists>tail. bs = concat (map record_to_bytes rs) @ tail \<and> length tail < 5) \<and>
     list_all (\<lambda>r. length (payload r) < 65536) rs"
  then show "parse_records bs = Inr rs"
    using parse_records_from_encoded [of rs _ "[]"] by (auto simp: parse_records_def)
qed

definition hs_bytes :: "handshake_msg \<Rightarrow> bytes" where
  "hs_bytes m = hs_header m @ body m"

lemma hs_header_to_be:
  assumes "length (body m) < 16777216"
  shows "hs_header m = msg_type m # to_be 3 (length (body m))"
proof -
  let ?n = "length (body m)"
  have n: "unat (word_of_nat ?n :: u32) = ?n" using assms by (simp add: unat_of_nat)
  have "(ucast (drop_bit k (word_of_nat ?n :: u32)) :: byte) = word_of_nat (?n div 2 ^ k)" for k
  proof (rule unat_eqI_byte)
    have "unat (drop_bit k (word_of_nat ?n :: u32)) = ?n div 2 ^ k"
      using assms by (simp only: unsigned_drop_bit_eq n) (simp add: drop_bit_eq_div take_bit_eq_mod)
    then show "unat (ucast (drop_bit k (word_of_nat ?n :: u32)) :: byte) mod 256 =
        unat (word_of_nat (?n div 2 ^ k) :: byte) mod 256"
      by (simp add: unsigned_ucast_eq take_bit_eq_mod unat_of_nat)
  qed
  from this [of 16] this [of 8] this [of 0] show ?thesis
    by (simp add: hs_header_def to_be_numeral Let_def)
qed

lemma length_hs_bytes [simp]: "length (hs_bytes m) = 4 + length (body m)"
  by (simp add: hs_bytes_def hs_header_def Let_def)

lemma parse_handshake_from_step:
  assumes "length (body m) < 16777216"
  shows "parse_handshake_messages_from (p @ hs_bytes m @ rest) (length p) =
    sbind (parse_handshake_messages_from (p @ hs_bytes m @ rest) (length p + 4 + length (body m)))
      (\<lambda>ms. Inr (m # ms))"
proof (cases m)
  case (fields mt b)
  have "hs_bytes m = mt # word_of_nat (length b div 65536) # word_of_nat (length b div 256) #
      word_of_nat (length b) # b"
    using assms by (simp add: hs_bytes_def hs_header_to_be) (simp add: fields to_be_numeral)
  then show ?thesis
    using assms by (subst parse_handshake_messages_from.simps) (simp add: fields nth_append Let_def)
qed

lemma parse_handshake_from_encoded:
  assumes "list_all (\<lambda>m. length (body m) < 16777216) ms"
  shows "parse_handshake_messages_from (p @ concat (map hs_bytes ms)) (length p) = Inr ms"
  using assms
proof (induction ms arbitrary: p)
  case Nil
  then show ?case by (simp add: parse_handshake_messages_from.simps)
next
  case (Cons m ms)
  have "parse_handshake_messages_from ((p @ hs_bytes m) @ concat (map hs_bytes ms))
      (length (p @ hs_bytes m)) = Inr ms"
    using Cons by (intro Cons.IH) simp
  with Cons.prems show ?case
    by (simp add: parse_handshake_from_step add.assoc)
qed

lemma parse_handshake_from_sound:
  assumes "parse_handshake_messages_from data pos = Inr ms" and "pos \<le> length data"
  shows "drop pos data = concat (map hs_bytes ms) \<and> list_all (\<lambda>m. length (body m) < 16777216) ms"
  using assms
proof (induction data pos arbitrary: ms rule: parse_handshake_messages_from.induct)
  case (1 data pos)
  show ?case
  proof (cases "pos < length data")
    case False
    with "1.prems" show ?thesis by (subst (asm) parse_handshake_messages_from.simps) auto
  next
    case True
    let ?len = "from_be [0, data ! (pos + 1), data ! (pos + 2), data ! (pos + 3)]"
    let ?m = "\<lparr>msg_type = data ! pos, body = take ?len (drop (pos + 4) data)\<rparr>"
    from "1.prems"(1) True obtain ms' where hdr: "\<not> length data - pos < 4"
      and fits: "\<not> length data - (pos + 4) < ?len"
      and rest: "parse_handshake_messages_from data (pos + 4 + ?len) = Inr ms'" and ms: "ms = ?m # ms'"
      by (subst (asm) parse_handshake_messages_from.simps) (auto simp: Let_def fault_simps split: if_splits)
    have le: "pos + 4 + ?len \<le> length data" using hdr fits by simp
    from "1.IH" [OF True hdr refl refl fits rest le]
    have tail: "drop (pos + 4 + ?len) data = concat (map hs_bytes ms')"
      "list_all (\<lambda>m. length (body m) < 16777216) ms'" by simp_all
    have len: "length (body ?m) = ?len" using le by simp
    have small: "?len < 16777216"
      using from_be_bound3 [of "data ! (pos + 1)" "data ! (pos + 2)" "data ! (pos + 3)"] by simp
    have "to_be 3 ?len = [data ! (pos + 1), data ! (pos + 2), data ! (pos + 3)]"
      using to_be_from_be_len [of "[data ! (pos + 1), data ! (pos + 2), data ! (pos + 3)]" 3] by simp
    then have "hs_header ?m = [data ! pos, data ! (pos + 1), data ! (pos + 2), data ! (pos + 3)]"
      using hs_header_to_be [of ?m] small len by simp
    moreover have "drop (pos + 4) data = take ?len (drop (pos + 4) data) @ drop (pos + 4 + ?len) data"
      by (simp only: drop_drop [symmetric] append_take_drop_id add.commute [of _ ?len])
    ultimately have "drop pos data = hs_bytes ?m @ concat (map hs_bytes ms')"
      using drop_4_nths [of pos data] le tail(1) by (simp add: hs_bytes_def)
    then show ?thesis using tail(2) small len by (simp add: ms)
  qed
qed

text \<open>
  C24. The handshake parser accepts exactly the concatenations of encoded messages, and the header
  \<open>hs_header\<close> rebuilds followed by the body is what stood on the wire, so that the transcript hash
  of the guest covers the bytes that were sent.
\<close>

theorem parse_handshake_iff:
  "parse_handshake_messages data = Inr ms \<longleftrightarrow>
     data = concat (map (\<lambda>m. hs_header m @ body m) ms) \<and>
     list_all (\<lambda>m. length (body m) < 16777216) ms"
proof -
  have *: "concat (map (\<lambda>m. hs_header m @ body m) ms) = concat (map hs_bytes ms)"
    by (rule arg_cong [where f = concat]) (simp add: hs_bytes_def)
  show ?thesis
    unfolding *
    using parse_handshake_from_sound [of data 0 ms] parse_handshake_from_encoded [of ms "[]"]
    by (auto simp: parse_handshake_messages_def)
qed

section \<open>Encoded messages\<close>

text \<open>
  What a peer sends: the layouts of RFC 8446, sections 4.1 to 4.4. A key-share entry has the
  layout of an extension (two bytes of type, two of length, the data).
\<close>

definition tlv16 :: "nat \<times> bytes \<Rightarrow> bytes" where
  "tlv16 e = to_be 2 (fst e) @ to_be 2 (length (snd e)) @ snd e"

definition tlv16_ok :: "nat \<times> bytes \<Rightarrow> bool" where
  "tlv16_ok e \<longleftrightarrow> fst e < 65536 \<and> length (snd e) < 65536"

definition cert_entry :: "bytes \<times> bytes \<Rightarrow> bytes" where
  "cert_entry e = to_be 3 (length (fst e)) @ fst e @ to_be 2 (length (snd e)) @ snd e"

definition cert_entry_ok :: "bytes \<times> bytes \<Rightarrow> bool" where
  "cert_entry_ok e \<longleftrightarrow> length (fst e) < 16777216 \<and> length (snd e) < 65536"

definition cert_message :: "bytes \<Rightarrow> (bytes \<times> bytes) list \<Rightarrow> bytes" where
  "cert_message ctx es =
     to_be 1 (length ctx) @ ctx @ to_be 3 (length (concat (map cert_entry es))) @ concat (map cert_entry es)"

definition client_hello_body :: "bytes \<Rightarrow> bytes \<Rightarrow> bytes \<Rightarrow> bytes \<Rightarrow> bytes \<Rightarrow> bytes" where
  "client_hello_body fixed sid suites compressions exts =
     fixed @ to_be 1 (length sid) @ sid @ to_be 2 (length suites) @ suites @
     to_be 1 (length compressions) @ compressions @ to_be 2 (length exts) @ exts"

definition server_hello_body :: "bytes \<Rightarrow> bytes \<Rightarrow> bytes \<Rightarrow> byte \<Rightarrow> bytes \<Rightarrow> bytes" where
  "server_hello_body fixed sid suite compression exts =
     fixed @ to_be 1 (length sid) @ sid @ suite @ [compression] @ to_be 2 (length exts) @ exts"

lemma length_tlv16 [simp]: "length (tlv16 e) = 4 + length (snd e)"
  by (simp add: tlv16_def del: to_be.simps)

lemma length_cert_entry [simp]: "length (cert_entry e) = 5 + length (fst e) + length (snd e)"
  by (simp add: cert_entry_def del: to_be.simps)

lemma tlv16_Cons:
  "tlv16 e = word_of_nat (fst e div 256) # word_of_nat (fst e) # word_of_nat (length (snd e) div 256) #
     word_of_nat (length (snd e)) # snd e"
  by (simp add: tlv16_def to_be_numeral)

lemma from_be_cons0 [simp]: "from_be (0 # bs) = from_be bs" by simp

lemma parse_cert_entries_step:
  assumes "cert_entry_ok e" and "length p + length (cert_entry e) \<le> list_end"
    and "list_end \<le> length p + length (cert_entry e) + length rest"
  shows "parse_cert_entries (p @ cert_entry e @ rest) list_end (length p) =
    sbind (parse_cert_entries (p @ cert_entry e @ rest) list_end (length p + length (cert_entry e)))
      (\<lambda>r. Inr (sbind r (\<lambda>certs. Inr (fst e # certs))))"
proof (cases e)
  case (Pair c x)
  have len: "length c mod 16777216 = length c" "length x mod 65536 = length x"
    using assms(1) by (simp_all add: Pair cert_entry_ok_def)
  have bounds: "length p < list_end" "\<not> list_end - length p < 3"
    "\<not> list_end - (length p + 3) < length c" "\<not> list_end - (length c + (length p + 3)) < 2"
    using assms(2) by (simp_all add: Pair)
  show ?thesis
    using assms
    by (subst parse_cert_entries.simps)
      (simp add: Pair cert_entry_def len bounds Let_def drop_append algebra_simps del: to_be.simps)
qed

lemma parse_cert_entries_encoded:
  assumes "list_all cert_entry_ok es"
  shows "parse_cert_entries (p @ concat (map cert_entry es)) (length p + length (concat (map cert_entry es)))
     (length p) = Inr (Inr (map fst es))"
  using assms
proof (induction es arbitrary: p)
  case Nil
  then show ?case by (simp add: parse_cert_entries.simps)
next
  case (Cons e es)
  have "parse_cert_entries ((p @ cert_entry e) @ concat (map cert_entry es))
     (length (p @ cert_entry e) + length (concat (map cert_entry es))) (length (p @ cert_entry e)) =
     Inr (Inr (map fst es))"
    using Cons by (intro Cons.IH) simp
  with Cons.prems show ?case
    by (simp add: parse_cert_entries_step add.assoc del: length_cert_entry length_concat)
qed

text \<open>
  The Certificate parser returns the certificates of every well-formed Certificate message, in
  order, whatever the request context and the extensions of the entries.
\<close>

theorem parse_cert_message_encoded:
  assumes "length ctx < 256" and "list_all cert_entry_ok es"
    and "length (concat (map cert_entry es)) < 16777216"
  shows "parse_cert_message (cert_message ctx es) = Inr (Inr (map fst es))"
proof -
  let ?l = "concat (map cert_entry es)"
  let ?p = "to_be 1 (length ctx) @ ctx @ to_be 3 (length ?l)"
  have "to_be 1 (length ctx) = [word_of_nat (length ctx)]" by simp
  moreover have "from_be (0 # to_be 3 (length ?l)) = length ?l"
    using assms(3) by (simp del: to_be.simps length_concat)
  moreover have "parse_cert_entries (?p @ ?l) (length ?p + length ?l) (length ?p) = Inr (Inr (map fst es))"
    by (rule parse_cert_entries_encoded [OF assms(2)])
  ultimately show ?thesis
    using assms(1)
    by (simp add: parse_cert_message_def cert_message_def Let_def unat_byte_of_nat add.commute
        del: length_concat to_be.simps)
qed

theorem parse_cert_message_encoded_example:
  "parse_cert_message (cert_message [] [([48, 0], []), ([48], [1])]) = Inr (Inr [[48, 0], [48]])"
  using parse_cert_message_encoded [of "[]" "[([48, 0], []), ([48], [1])]"]
  by (simp add: cert_entry_ok_def)

definition x25519_share :: "(nat \<times> bytes) list \<Rightarrow> bytes option" where
  "x25519_share shares = map_option snd (find (\<lambda>s. fst s = 0x001d \<and> length (snd s) = 32) shares)"

lemma tlv16_read:
  assumes "tlv16_ok e" and "xs = p @ tlv16 e @ rest"
  shows "from_be [xs ! length p, xs ! (length p + 1)] = fst e"
    and "from_be [xs ! (length p + 2), xs ! (length p + 3)] = length (snd e)"
    and "take (length (snd e)) (drop (length p + 4) xs) = snd e"
    and "length xs = length p + 4 + length (snd e) + length rest"
  using assms by (simp_all add: tlv16_ok_def tlv16_Cons nth_append)

lemmas tlv16_reads = tlv16_read tlv16_read(1,2) [simplified One_nat_def add_Suc_right add_0_right add_2_eq_Suc']

lemma client_shares_step:
  assumes "tlv16_ok s"
  shows "client_shares_from (p @ tlv16 s @ rest) (length p + length (tlv16 s @ rest)) (length p) =
    (if fst s = 0x001d \<and> length (snd s) = 32 then Some (snd s)
     else client_shares_from (p @ tlv16 s @ rest) (length p + length (tlv16 s @ rest)) (length p + length (tlv16 s)))"
proof -
  define xs where "xs = p @ tlv16 s @ rest"
  note r = tlv16_reads [OF assms xs_def]
  have "length (snd s) = 32 \<Longrightarrow> take 32 (drop (length p + 4) xs) = snd s" using r(3) by simp
  then show ?thesis
    by (subst client_shares_from.simps) (simp add: Let_def xs_def [symmetric] r add.assoc)
qed

lemma client_shares_encoded:
  assumes "list_all tlv16_ok shares"
  shows "client_shares_from (p @ concat (map tlv16 shares)) (length p + length (concat (map tlv16 shares)))
    (length p) = x25519_share shares"
  using assms
proof (induction shares arbitrary: p)
  case Nil
  then show ?case by (simp add: client_shares_from.simps x25519_share_def)
next
  case (Cons s shares)
  have "client_shares_from ((p @ tlv16 s) @ concat (map tlv16 shares))
      (length (p @ tlv16 s) + length (concat (map tlv16 shares))) (length (p @ tlv16 s)) = x25519_share shares"
    using Cons by (intro Cons.IH) simp
  with Cons.prems client_shares_step [of s p "concat (map tlv16 shares)"] show ?case
    by (simp add: x25519_share_def add.assoc del: length_concat)
qed

definition share_list :: "(nat \<times> bytes) list \<Rightarrow> bytes" where
  "share_list shares = to_be 2 (length (concat (map tlv16 shares))) @ concat (map tlv16 shares)"

lemma share_list_step:
  assumes "list_all tlv16_ok shares" and "length (concat (map tlv16 shares)) < 65536"
  shows "client_shares_from (share_list shares)
    (2 + from_be [share_list shares ! 0, share_list shares ! 1]) 2 = x25519_share shares"
proof -
  let ?l = "concat (map tlv16 shares)"
  have "from_be [share_list shares ! 0, share_list shares ! 1] = length ?l"
    using assms(2) by (simp add: share_list_def to_be_numeral del: length_concat)
  moreover have "client_shares_from (to_be 2 (length ?l) @ ?l) (length (to_be 2 (length ?l)) + length ?l)
      (length (to_be 2 (length ?l))) = x25519_share shares"
    by (rule client_shares_encoded [OF assms(1)])
  ultimately show ?thesis by (simp add: share_list_def del: length_concat to_be.simps)
qed

lemma key_share_client_skip:
  assumes "tlv16_ok e" and "fst e \<noteq> 0x0033"
  shows "key_share_client_from (p @ tlv16 e @ rest) (length p) =
    key_share_client_from (p @ tlv16 e @ rest) (length p + length (tlv16 e))"
proof -
  define xs where "xs = p @ tlv16 e @ rest"
  note r = tlv16_reads [OF assms(1) xs_def]
  show ?thesis
    using assms(2) by (subst key_share_client_from.simps) (simp add: Let_def xs_def [symmetric] r add.assoc)
qed

lemma key_share_client_hit:
  assumes "list_all tlv16_ok shares" and "length (share_list shares) < 65536"
    and "x25519_share shares = Some key"
  shows "key_share_client_from (p @ tlv16 (0x0033, share_list shares) @ rest) (length p) = Some key"
proof -
  have l: "length (concat (map tlv16 shares)) < 65536" and 2: "\<not> length (share_list shares) < 2"
    using assms(2) by (simp_all add: share_list_def del: length_concat to_be.simps)
  define xs where "xs = p @ tlv16 (0x0033, share_list shares) @ rest"
  have ok: "tlv16_ok (0x0033, share_list shares)" using assms(2) by (simp add: tlv16_ok_def)
  note r = tlv16_reads [OF ok xs_def, unfolded fst_conv snd_conv]
  from share_list_step [OF assms(1) l] 2 show ?thesis
    by (subst key_share_client_from.simps) (simp add: Let_def xs_def [symmetric] r assms(3))
qed

lemma key_share_client_encoded:
  assumes "list_all tlv16_ok es" and "list_all (\<lambda>e. fst e \<noteq> 0x0033) es"
    and "list_all tlv16_ok shares" and "length (share_list shares) < 65536"
    and "x25519_share shares = Some key"
  shows "key_share_client_from (p @ concat (map tlv16 es) @ tlv16 (0x0033, share_list shares) @ rest)
    (length p) = Some key"
  using assms(1,2)
proof (induction es arbitrary: p)
  case Nil
  then show ?case using key_share_client_hit [OF assms(3-5)] by simp
next
  case (Cons e es)
  have "key_share_client_from ((p @ tlv16 e) @ concat (map tlv16 es) @ tlv16 (0x0033, share_list shares) @ rest)
      (length (p @ tlv16 e)) = Some key"
    using Cons by (intro Cons.IH) simp_all
  with Cons.prems show ?case by (simp add: key_share_client_skip)
qed

lemma key_share_server_encoded:
  assumes "list_all tlv16_ok es" and "list_all (\<lambda>e. fst e \<noteq> 0x0033) es" and "length key = 32"
  shows "key_share_server_from (p @ concat (map tlv16 es) @ tlv16 (0x0033, tlv16 (0x001d, key)) @ rest)
    (length p) = Some key"
  using assms(1,2)
proof (induction es arbitrary: p)
  case Nil
  have e: "tlv16 (29, key) = 0 # 29 # 0 # 32 # key" and ok: "tlv16_ok (0x0033, tlv16 (29, key))"
    using assms(3) by (simp_all add: tlv16_Cons tlv16_ok_def)
  define xs where "xs = p @ tlv16 (0x0033, tlv16 (29, key)) @ rest"
  note r = tlv16_reads [OF ok xs_def, unfolded fst_conv snd_conv]
  have "take 36 (drop (length p + 4) xs) = 0 # 29 # 0 # 32 # key"
    using r(3) assms(3) by (simp add: e)
  then have "key_share_server_from xs (length p) = Some key"
    using assms(3) by (subst key_share_server_from.simps) (simp add: Let_def r e del: nth_take nth_drop)
  then show ?case by (simp add: xs_def)
next
  case (Cons e es)
  have "key_share_server_from ((p @ tlv16 e) @ concat (map tlv16 es) @ tlv16 (0x0033, tlv16 (0x001d, key)) @ rest)
      (length (p @ tlv16 e)) = Some key"
    using Cons by (intro Cons.IH) simp_all
  moreover have "key_share_server_from xs (length p) = key_share_server_from xs (length p + length (tlv16 e))"
    if "xs = p @ tlv16 e @ rs" for xs rs
  proof -
    have "tlv16_ok e" "fst e \<noteq> 0x0033" using Cons.prems by simp_all
    with tlv16_reads [OF this(1) that] show ?thesis
      by (subst key_share_server_from.simps) (simp add: Let_def add.assoc)
  qed
  ultimately show ?case by (simp del: length_tlv16)
qed

lemma client_hello_extensions_body:
  assumes "length fixed = 34" and "length sid < 256" and "length suites < 65536"
    and "length compressions < 256" and "length exts < 65536"
  shows "client_hello_extensions (client_hello_body fixed sid suites compressions exts) = Some exts"
proof -
  have "to_be 1 x = [word_of_nat x]" "to_be 2 x = [word_of_nat (x div 256), word_of_nat x]" for x
    by (simp_all add: to_be_numeral)
  with assms show ?thesis
    by (simp add: client_hello_extensions_def client_hello_body_def Let_def nth_append unat_byte_of_nat drop_Cons')
qed

lemma server_hello_extensions_body:
  assumes "length fixed = 34" and "length sid < 256" and "length suite = 2" and "length exts < 65536"
  shows "server_hello_extensions (server_hello_body fixed sid suite c exts) = Some exts"
proof -
  have "to_be 1 x = [word_of_nat x]" "to_be 2 x = [word_of_nat (x div 256), word_of_nat x]" for x
    by (simp_all add: to_be_numeral)
  with assms show ?thesis
    by (simp add: server_hello_extensions_def server_hello_body_def Let_def nth_append unat_byte_of_nat drop_Cons')
qed

text \<open>
  On an outbound stream whose first handshake record carries a ClientHello with a key-share
  extension, the parser returns the first X25519 share of 32 bytes in it, whatever other
  extensions, shares, messages and records surround it.
\<close>

theorem client_hello_key_share_found:
  assumes "parse_records outbound = Inr rs" and "find (\<lambda>r. content_type r = 22) rs = Some r"
    and "parse_handshake_messages (payload r) = Inr msgs" and "find (\<lambda>m. msg_type m = 1) msgs = Some ch"
    and "body ch = client_hello_body fixed sid suites compressions
           (concat (map tlv16 es) @ tlv16 (0x0033, share_list shares) @ rest)"
    and "length fixed = 34" and "length sid < 256" and "length suites < 65536"
    and "length compressions < 256"
    and "length (concat (map tlv16 es) @ tlv16 (0x0033, share_list shares) @ rest) < 65536"
    and "list_all tlv16_ok es" and "list_all (\<lambda>e. fst e \<noteq> 0x0033) es" and "list_all tlv16_ok shares"
    and "x25519_share shares = Some key"
  shows "parse_client_hello_key_share outbound = Inr (Some key)"
proof -
  have "length (share_list shares) < 65536" using assms(10) by simp
  from key_share_client_encoded [OF assms(11-13) this assms(14), of "[]" rest]
  have "parse_key_share_client (concat (map tlv16 es) @ tlv16 (0x0033, share_list shares) @ rest) = Some key"
    by (simp add: parse_key_share_client_def)
  then show ?thesis
    by (simp add: parse_client_hello_key_share_def assms(1-4) assms(5)
        client_hello_extensions_body [OF assms(6-10)] del: concat_map_singleton)
qed

text \<open>
  C26. On an inbound stream whose first handshake record carries a ServerHello with an X25519 key
  share, the parser returns that share.
\<close>

theorem server_hello_key_share_found:
  assumes "parse_records inbound = Inr rs" and "find (\<lambda>r. content_type r = 22) rs = Some r"
    and "parse_handshake_messages (payload r) = Inr msgs" and "find (\<lambda>m. msg_type m = 2) msgs = Some sh"
    and "body sh = server_hello_body fixed sid suite compression
           (concat (map tlv16 es) @ tlv16 (0x0033, tlv16 (0x001d, key)) @ rest)"
    and "length fixed = 34" and "length sid < 256" and "length suite = 2"
    and "length (concat (map tlv16 es) @ tlv16 (0x0033, tlv16 (0x001d, key)) @ rest) < 65536"
    and "list_all tlv16_ok es" and "list_all (\<lambda>e. fst e \<noteq> 0x0033) es" and "length key = 32"
  shows "parse_server_hello_key_share inbound = Inr (Some key)"
proof -
  from key_share_server_encoded [OF assms(10-12), of "[]" rest]
  have "parse_key_share_server (concat (map tlv16 es) @ tlv16 (0x0033, tlv16 (0x001d, key)) @ rest) = Some key"
    by (simp add: parse_key_share_server_def)
  then show ?thesis
    by (simp add: parse_server_hello_key_share_def assms(1-5)
        server_hello_extensions_body [OF assms(6-9)])
qed

text \<open>A ServerHello stream for the witnesses.\<close>

definition sample_server_hello :: "bytes \<Rightarrow> handshake_msg" where
  "sample_server_hello key =
     \<lparr>msg_type = 2, body = server_hello_body (zeros 34) [] [19, 1] 0 (tlv16 (0x0033, tlv16 (0x001d, key)))\<rparr>"

definition sample_client_hello :: "bytes \<Rightarrow> handshake_msg" where
  "sample_client_hello key =
     \<lparr>msg_type = 1, body = client_hello_body (zeros 34) [] [19, 1] [0]
        (tlv16 (0x0033, share_list [(0x0017, [4]), (0x001d, key)]))\<rparr>"

definition hello_record :: "handshake_msg \<Rightarrow> raw_record" where
  "hello_record m = \<lparr>content_type = 22, legacy_version = 0x0303, payload = hs_bytes m\<rparr>"

lemma parse_hello_record:
  assumes "length (body m) < 65530" and "list_all (\<lambda>r. length (payload r) < 65536) rs"
  shows "parse_records (record_to_bytes (hello_record m) @ concat (map record_to_bytes rs)) =
      Inr (hello_record m # rs)"
    and "parse_handshake_messages (payload (hello_record m)) = Inr [m]"
proof -
  show "parse_records (record_to_bytes (hello_record m) @ concat (map record_to_bytes rs)) =
      Inr (hello_record m # rs)"
    using parse_records_from_encoded [of "hello_record m # rs" "[]" "[]"] assms
    by (simp add: parse_records_def hello_record_def)
  show "parse_handshake_messages (payload (hello_record m)) = Inr [m]"
    using parse_handshake_from_encoded [of "[m]" "[]"] assms
    by (simp add: parse_handshake_messages_def hello_record_def)
qed

lemma length_sample_hellos:
  "length key = 32 \<Longrightarrow> length (body (sample_server_hello key)) = 80"
  "length key = 32 \<Longrightarrow> length (body (sample_client_hello key)) = 90"
  by (simp_all add: sample_server_hello_def sample_client_hello_def server_hello_body_def
      client_hello_body_def share_list_def del: to_be.simps)

theorem client_hello_key_share_found_example:
  "parse_client_hello_key_share (record_to_bytes (hello_record (sample_client_hello (zeros 32)))) =
     Inr (Some (zeros 32))"
proof -
  let ?m = "sample_client_hello (zeros 32)"
  have len: "length (body ?m) = 90" by (rule length_sample_hellos) simp
  have p: "parse_records (record_to_bytes (hello_record ?m)) = Inr [hello_record ?m]"
    using parse_hello_record(1) [of ?m "[]"] len by simp
  have q: "parse_handshake_messages (payload (hello_record ?m)) = Inr [?m]"
    using parse_hello_record(2) [of ?m "[]"] len by simp
  show ?thesis
    by (rule client_hello_key_share_found [where es = "[]" and rest = "[]" and fixed = "zeros 34"
          and sid = "[]" and suites = "[19, 1]" and compressions = "[0]"
          and shares = "[(0x0017, [4]), (0x001d, zeros 32)]" and ch = ?m, OF p _ q])
      (simp_all add: hello_record_def sample_client_hello_def share_list_def tlv16_ok_def x25519_share_def
        del: to_be.simps)
qed

theorem server_hello_key_share_found_witness:
  "parse_server_hello_key_share (record_to_bytes (hello_record (sample_server_hello (zeros 32)))) =
     Inr (Some (zeros 32))"
proof -
  let ?m = "sample_server_hello (zeros 32)"
  have len: "length (body ?m) = 80" by (rule length_sample_hellos) simp
  have p: "parse_records (record_to_bytes (hello_record ?m)) = Inr [hello_record ?m]"
    using parse_hello_record(1) [of ?m "[]"] len by simp
  have q: "parse_handshake_messages (payload (hello_record ?m)) = Inr [?m]"
    using parse_hello_record(2) [of ?m "[]"] len by simp
  show ?thesis
    by (rule server_hello_key_share_found [where es = "[]" and rest = "[]" and fixed = "zeros 34"
          and sid = "[]" and suite = "[19, 1]" and compression = 0 and sh = ?m, OF p _ q])
      (simp_all add: hello_record_def sample_server_hello_def del: to_be.simps)
qed

end
