(* ===== verification/Http.thy ===== *)
theory Http
  imports Prelude
begin

text \<open>
  The HTTP helpers of the guest (\<open>guest/src/main.rs\<close>): the header/body split, \<open>unchunk\<close>, and the
  comparison of the claimed value with the threshold. A Rust \<open>String\<close> or \<open>&str\<close> is the list of its
  UTF-8 bytes; \<open>String::from_utf8\<close> is \<open>utf8_valid\<close>, and slicing a string off a character boundary
  panics (\<open>str_slice_to\<close>, \<open>str_slice_from\<close>). The standard library's \<open>find\<close>, \<open>split\<close>, \<open>trim\<close> and
  \<open>from_str_radix\<close> are modelled on the bytes. \<open>usize\<close> is 64 bits wide, an \<open>f64\<close> is its bit pattern.

  The lemmas show that \<open>unchunk\<close> inverts the chunked transfer encoding, that it always returns (its
  loop shortens the input), and when it leaves a body alone.
\<close>

section \<open>Strings\<close>

definition cont_byte :: "byte \<Rightarrow> bool" where
  "cont_byte b \<longleftrightarrow> 0x80 \<le> b \<and> b \<le> 0xBF"

fun utf8_valid :: "bytes \<Rightarrow> bool" where
  "utf8_valid [] = True"
| "utf8_valid (a # s) =
     (if a < 0x80 then utf8_valid s
      else if 0xC2 \<le> a \<and> a \<le> 0xDF then
        (case s of b # s' \<Rightarrow> cont_byte b \<and> utf8_valid s' | _ \<Rightarrow> False)
      else if 0xE0 \<le> a \<and> a \<le> 0xEF then
        (case s of b # c # s' \<Rightarrow>
           (if a = 0xE0 then 0xA0 \<le> b \<and> b \<le> 0xBF
            else if a = 0xED then 0x80 \<le> b \<and> b \<le> 0x9F else cont_byte b) \<and>
           cont_byte c \<and> utf8_valid s'
         | _ \<Rightarrow> False)
      else if 0xF0 \<le> a \<and> a \<le> 0xF4 then
        (case s of b # c # d # s' \<Rightarrow>
           (if a = 0xF0 then 0x90 \<le> b \<and> b \<le> 0xBF
            else if a = 0xF4 then 0x80 \<le> b \<and> b \<le> 0x8F else cont_byte b) \<and>
           cont_byte c \<and> cont_byte d \<and> utf8_valid s'
         | _ \<Rightarrow> False)
      else False)"

definition char_boundary :: "bytes \<Rightarrow> nat \<Rightarrow> bool" where
  "char_boundary s i \<longleftrightarrow> i = 0 \<or> i = length s \<or> (i < length s \<and> \<not> cont_byte (s ! i))"

definition str_slice_to :: "bytes \<Rightarrow> nat \<Rightarrow> fault + bytes" where
  "str_slice_to s i = (if char_boundary s i then Inr (take i s) else Inl OutOfBounds)"

definition str_slice_from :: "bytes \<Rightarrow> nat \<Rightarrow> fault + bytes" where
  "str_slice_from s i = (if char_boundary s i then Inr (drop i s) else Inl OutOfBounds)"

definition starts_with :: "bytes \<Rightarrow> bytes \<Rightarrow> bool" where
  "starts_with p s \<longleftrightarrow> take (length p) s = p"

definition ends_with :: "bytes \<Rightarrow> bytes \<Rightarrow> bool" where
  "ends_with p s \<longleftrightarrow> length p \<le> length s \<and> drop (length s - length p) s = p"

fun str_find :: "bytes \<Rightarrow> bytes \<Rightarrow> nat option" where
  "str_find p [] = (if p = [] then Some 0 else None)"
| "str_find p (a # s) = (if starts_with p (a # s) then Some 0 else map_option Suc (str_find p s))"

definition crlf :: bytes where
  "crlf = [13, 10]"

text \<open>\<open>str::trim\<close> removes the characters with the property \<open>White_Space\<close>, here by their encodings.\<close>

definition white_space :: "bytes list" where
  "white_space =
     [[9], [10], [11], [12], [13], [32], [0xC2, 0x85], [0xC2, 0xA0], [0xE1, 0x9A, 0x80],
      [0xE2, 0x80, 0x80], [0xE2, 0x80, 0x81], [0xE2, 0x80, 0x82], [0xE2, 0x80, 0x83],
      [0xE2, 0x80, 0x84], [0xE2, 0x80, 0x85], [0xE2, 0x80, 0x86], [0xE2, 0x80, 0x87],
      [0xE2, 0x80, 0x88], [0xE2, 0x80, 0x89], [0xE2, 0x80, 0x8A], [0xE2, 0x80, 0xA8],
      [0xE2, 0x80, 0xA9], [0xE2, 0x80, 0xAF], [0xE2, 0x81, 0x9F], [0xE3, 0x80, 0x80]]"

function trim_front :: "bytes list \<Rightarrow> bytes \<Rightarrow> bytes" where
  "trim_front ws s =
     (case find (\<lambda>w. w \<noteq> [] \<and> starts_with w s) ws of
        None \<Rightarrow> s
      | Some w \<Rightarrow> trim_front ws (drop (length w) s))"
  by pat_completeness auto
termination
proof (relation "measure (\<lambda>(ws, s). length s)")
  fix ws s w
  assume "find (\<lambda>w. w \<noteq> [] \<and> starts_with w s) ws = Some w"
  then have "w \<noteq> []" "starts_with w s" by (auto simp: find_Some_iff)
  then have "0 < length w" "s \<noteq> []" by (auto simp: starts_with_def)
  then show "((ws, drop (length w) s), (ws, s)) \<in> measure (\<lambda>(ws, s). length s)" by simp
qed simp

declare trim_front.simps [simp del]

definition trim :: "bytes \<Rightarrow> bytes" where
  "trim s = rev (trim_front (map rev white_space) (rev (trim_front white_space s)))"

text \<open>\<open>usize::from_str_radix(s, 16)\<close>; which error it returns does not matter to the caller.\<close>

definition hex_digit :: "byte \<Rightarrow> nat option" where
  "hex_digit c =
     (if 48 \<le> c \<and> c \<le> 57 then Some (unat c - 48)
      else if 97 \<le> c \<and> c \<le> 102 then Some (unat c - 87)
      else if 65 \<le> c \<and> c \<le> 70 then Some (unat c - 55)
      else None)"

fun hex_digits :: "nat \<Rightarrow> bytes \<Rightarrow> nat option" where
  "hex_digits acc [] = Some acc"
| "hex_digits acc (c # s) =
     (case hex_digit c of
        None \<Rightarrow> None
      | Some d \<Rightarrow> if acc * 16 + d < 2 ^ 64 then hex_digits (acc * 16 + d) s else None)"

definition from_str_radix16 :: "bytes \<Rightarrow> nat option" where
  "from_str_radix16 s =
     (if s = [] \<or> s = [43] \<or> s = [45] then None
      else if hd s = 43 then hex_digits 0 (tl s)
      else hex_digits 0 s)"

section \<open>The response\<close>

text \<open>\<open>response.split("\r\n\r\n").nth(1).unwrap_or("")\<close>.\<close>

definition raw_body :: "bytes \<Rightarrow> bytes" where
  "raw_body response =
     (case str_find (crlf @ crlf) response of
        None \<Rightarrow> []
      | Some i \<Rightarrow>
          let after = drop (i + 4) response
          in case str_find (crlf @ crlf) after of None \<Rightarrow> after | Some j \<Rightarrow> take j after)"

lemma str_find_bound: "str_find p s = Some i \<Longrightarrow> i + length p \<le> length s"
proof (induction s arbitrary: i)
  case Nil
  then show ?case by (auto split: if_splits)
next
  case (Cons a s)
  show ?case
  proof (cases "starts_with p (a # s)")
    case True
    then have "length (take (length p) (a # s)) = length p" by (simp add: starts_with_def)
    with True Cons.prems show ?thesis by simp
  next
    case False
    with Cons show ?thesis by auto
  qed
qed

text \<open>The loop of \<open>unchunk\<close>: the chunks it appends from \<open>s\<close> on.\<close>

function unchunk_from :: "bytes \<Rightarrow> fault + bytes" where
  "unchunk_from s =
     (case str_find crlf s of
        None \<Rightarrow> Inr []
      | Some p \<Rightarrow>
          (case from_str_radix16 (trim (takeWhile (\<lambda>c. c \<noteq> 59) (take p s))) of
             None \<Rightarrow> Inr []
           | Some chunk_len \<Rightarrow>
               let s = drop (p + 2) s
               in if chunk_len = 0 then Inr []
                  else if length s < chunk_len then Inr []
                  else sbind (str_slice_to s chunk_len) (\<lambda>chunk.
                    let s = drop chunk_len s;
                        s = (if starts_with crlf s then drop 2 s else s)
                    in sbind (unchunk_from s) (\<lambda>out. Inr (chunk @ out)))))"
  by pat_completeness auto
termination
  by (relation "measure length") (auto dest: str_find_bound simp: crlf_def)

declare unchunk_from.simps [simp del]

definition unchunk :: "bytes \<Rightarrow> fault + bytes" where
  "unchunk s = sbind (unchunk_from s) (\<lambda>out. Inr (if out = [] then s else out))"

section \<open>Comparison of doubles\<close>

definition f64_nan :: "u64 \<Rightarrow> bool" where
  "f64_nan w \<longleftrightarrow> w AND 0x7FFFFFFFFFFFFFFF > 0x7FF0000000000000"

definition f64_key :: "u64 \<Rightarrow> int" where
  "f64_key w =
     (if bit w 63 then - uint (w AND 0x7FFFFFFFFFFFFFFF) else uint (w AND 0x7FFFFFFFFFFFFFFF))"

definition f64_gt :: "u64 \<Rightarrow> u64 \<Rightarrow> bool" where
  "f64_gt a b \<longleftrightarrow> \<not> f64_nan a \<and> \<not> f64_nan b \<and> f64_key a > f64_key b"

section \<open>Finding the separators\<close>

lemma starts_with_append [simp]: "starts_with p (p @ s)"
  by (simp add: starts_with_def)

lemma starts_with_crlf: "starts_with crlf s \<longleftrightarrow> (\<exists>t. s = 13 # 10 # t)"
  by (cases s rule: remdups_adj.cases) (auto simp: starts_with_def crlf_def)

lemma str_find_crlf:
  assumes "13 \<notin> set line"
  shows "str_find crlf (line @ crlf @ rest) = Some (length line)"
  using assms
proof (induction line)
  case Nil
  then show ?case by (simp add: crlf_def starts_with_def)
next
  case (Cons c line)
  then show ?case by (auto simp: starts_with_crlf)
qed

lemma str_find_none: "13 \<notin> set s \<Longrightarrow> str_find crlf s = None"
  by (induction s) (auto simp: starts_with_crlf, simp add: crlf_def)

section \<open>Chunk sizes\<close>

fun hex :: "nat \<Rightarrow> bytes" where
  "hex n = (if n < 16 then [] else hex (n div 16)) @
     [word_of_nat (if n mod 16 < 10 then 48 + n mod 16 else 87 + n mod 16)]"

declare hex.simps [simp del]

lemma hex_digit_value:
  assumes "d < 16"
  shows "hex_digit (word_of_nat (if d < 10 then 48 + d else 87 + d)) = Some d"
proof -
  have "\<forall>d \<in> set [0 ..< 16]. hex_digit (word_of_nat (if d < 10 then 48 + d else 87 + d)) = Some d"
    by code_simp
  with assms show ?thesis by simp
qed

lemma hex_digits_append:
  "hex_digits acc (xs @ ys) = Option.bind (hex_digits acc xs) (\<lambda>a. hex_digits a ys)"
  by (induction xs arbitrary: acc) (auto split: option.splits)

lemma hex_digits_hex:
  "n < 2 ^ 64 \<Longrightarrow> hex_digits 0 (hex n) = Some n"
proof (induction n rule: hex.induct)
  case (1 n)
  have "hex_digit (word_of_nat (if n mod 16 < 10 then 48 + n mod 16 else 87 + n mod 16)) = Some (n mod 16)"
    by (rule hex_digit_value) simp
  moreover have "\<not> n < 16 \<Longrightarrow> hex_digits 0 (hex (n div 16)) = Some (n div 16)"
    using 1 by simp
  ultimately show ?case
    using "1.prems" by (subst hex.simps) (simp add: hex_digits_append)
qed

definition plain :: "byte \<Rightarrow> bool" where
  "plain c \<longleftrightarrow> 48 \<le> c \<and> c \<le> 57 \<or> 97 \<le> c \<and> c \<le> 102"

lemma plain_hex: "list_all plain (hex n)"
proof (induction n rule: hex.induct)
  case (1 n)
  have "\<forall>d \<in> set [0 ..< 16]. plain (word_of_nat (if d < 10 then 48 + d else 87 + d))"
    by code_simp
  then have "plain (word_of_nat (if n mod 16 < 10 then 48 + n mod 16 else 87 + n mod 16))"
    by simp
  with 1 show ?case by (subst hex.simps) simp
qed

lemma hex_not_Nil [simp]: "hex n \<noteq> []"
  by (subst hex.simps) simp

lemma trim_front_plain:
  assumes "\<forall>w \<in> set ws. w \<noteq> [] \<and> \<not> plain (hd w)" and "s = [] \<or> plain (hd s)"
  shows "trim_front ws s = s"
proof -
  have "\<not> starts_with w s" if "w \<in> set ws" for w
    using assms(1) [rule_format, OF that] assms(2) by (cases w; cases s) (auto simp: starts_with_def)
  then have "find (\<lambda>w. w \<noteq> [] \<and> starts_with w s) ws = None"
    by (auto simp: find_None_iff)
  then show ?thesis by (subst trim_front.simps) simp
qed

lemma trim_plain: "list_all plain s \<Longrightarrow> trim s = s"
proof -
  assume s: "list_all plain s"
  have "\<forall>w \<in> set white_space. w \<noteq> [] \<and> \<not> plain (hd w)"
    and "\<forall>w \<in> set (map rev white_space). w \<noteq> [] \<and> \<not> plain (hd w)"
    by code_simp+
  moreover have "s = [] \<or> plain (hd s)"
    using s by (cases s) auto
  moreover have "rev s = [] \<or> plain (hd (rev s))"
    using s by (cases s rule: rev_cases) auto
  ultimately have "trim_front white_space s = s" "trim_front (map rev white_space) (rev s) = rev s"
    by (blast intro: trim_front_plain)+
  then show ?thesis by (simp add: trim_def)
qed

lemma from_str_radix16_hex:
  assumes "n < 2 ^ 64"
  shows "from_str_radix16 (hex n) = Some n"
proof -
  have "plain (hd (hex n))" using plain_hex [of n] by (cases "hex n") auto
  then have "hd (hex n) \<noteq> 43" "hd (hex n) \<noteq> 45" by (auto simp: plain_def)
  then have "hex n \<noteq> [43]" "hex n \<noteq> [45]" by auto
  with \<open>hd (hex n) \<noteq> 43\<close> show ?thesis
    by (simp add: from_str_radix16_def hex_digits_hex [OF assms])
qed

section \<open>Unchunking\<close>

text \<open>A chunk as a server writes it: the size, an optional extension, the data (RFC 9112, 7.1).\<close>

definition chunk_bytes :: "bytes \<times> bytes \<Rightarrow> bytes" where
  "chunk_bytes c = hex (length (snd c)) @ fst c @ crlf @ snd c @ crlf"

definition chunk_ok :: "bytes \<times> bytes \<Rightarrow> bool" where
  "chunk_ok c \<longleftrightarrow> snd c \<noteq> [] \<and> length (snd c) < 2 ^ 64 \<and> 13 \<notin> set (fst c) \<and>
     (fst c = [] \<or> hd (fst c) = 59)"

lemma takeWhile_hex:
  assumes "ext = [] \<or> hd ext = 59"
  shows "takeWhile (\<lambda>c. c \<noteq> 59) (hex n @ ext) = hex n"
proof -
  have "\<forall>c \<in> set (hex n). c \<noteq> 59" using plain_hex [of n] by (auto simp: list_all_iff plain_def)
  then show ?thesis using assms by (cases ext) (auto simp: takeWhile_append2)
qed

lemma chunk_line:
  assumes "n < 2 ^ 64" and "ext = [] \<or> hd ext = 59"
  shows "from_str_radix16 (trim (takeWhile (\<lambda>c. c \<noteq> 59) (hex n @ ext))) = Some n"
  using assms by (simp add: takeWhile_hex trim_plain [OF plain_hex] from_str_radix16_hex)

lemma no_cr_hex: "13 \<notin> set (hex n)"
  using plain_hex [of n] by (auto simp: list_all_iff plain_def)

lemma unchunk_from_chunk:
  assumes "chunk_ok c"
  shows "unchunk_from (chunk_bytes c @ rest) = sbind (unchunk_from rest) (\<lambda>out. Inr (snd c @ out))"
proof (cases c)
  case (Pair ext chunk_data)
  let ?line = "hex (length chunk_data) @ ext"
  have "13 \<notin> set ?line" using assms no_cr_hex by (simp add: chunk_ok_def Pair)
  from str_find_crlf [OF this, of "chunk_data @ crlf @ rest"]
  have find: "str_find crlf (chunk_bytes c @ rest) = Some (length ?line)"
    by (simp add: chunk_bytes_def Pair)
  have "take (length ?line) (chunk_bytes c @ rest) = ?line"
    and drop: "drop (length ?line + 2) (chunk_bytes c @ rest) = chunk_data @ crlf @ rest"
    by (simp_all add: chunk_bytes_def Pair crlf_def)
  then have size: "from_str_radix16 (trim (takeWhile (\<lambda>c. c \<noteq> 59)
      (take (length ?line) (chunk_bytes c @ rest)))) = Some (length chunk_data)"
    using chunk_line [of "length chunk_data" ext] assms by (simp add: chunk_ok_def Pair)
  have "str_slice_to (chunk_data @ crlf @ rest) (length chunk_data) = Inr chunk_data"
    by (simp add: str_slice_to_def char_boundary_def crlf_def nth_append cont_byte_def)
  moreover have "chunk_data \<noteq> []" using assms by (simp add: chunk_ok_def Pair)
  ultimately show ?thesis
    unfolding unchunk_from.simps [of "chunk_bytes c @ rest"] find option.case size Let_def drop
    by (simp add: Pair) (simp add: crlf_def)
qed

lemma unchunk_from_chunks:
  "list_all chunk_ok cs \<Longrightarrow> unchunk_from rest = Inr [] \<Longrightarrow>
     unchunk_from (concat (map chunk_bytes cs) @ rest) = Inr (concat (map snd cs))"
  by (induction cs) (simp_all add: unchunk_from_chunk)

lemma unchunk_from_last: "unchunk_from [48] = Inr []" "unchunk_from (48 # crlf @ rest) = Inr []"
proof -
  show "unchunk_from [48] = Inr []"
    by (simp add: unchunk_from.simps crlf_def starts_with_def)
  have "hex 0 = [48]" by (simp add: hex.simps)
  then have "from_str_radix16 (trim (takeWhile (\<lambda>c. c \<noteq> 59) [48])) = Some 0"
    using chunk_line [of 0 "[]"] by simp
  moreover have "str_find crlf (48 # crlf @ rest) = Some 1"
    using str_find_crlf [of "[48]" rest] by simp
  ultimately show "unchunk_from (48 # crlf @ rest) = Inr []"
    by (subst unchunk_from.simps) simp
qed

lemma chunks_not_Nil: "cs \<noteq> [] \<Longrightarrow> list_all chunk_ok cs \<Longrightarrow> concat (map snd cs) \<noteq> []"
  by (cases cs) (auto simp: chunk_ok_def)


lemma unchunk_plain: "13 \<notin> set s \<Longrightarrow> unchunk s = Inr s"
  by (simp add: unchunk_def unchunk_from.simps [of s] str_find_none)

text \<open>A body in which no chunk is read is returned as it is.\<close>

theorem unchunk_plain_body:
  assumes "13 \<notin> set s"
  shows "unchunk s = Inr s"
  using assms by (simp add: unchunk_def unchunk_from.simps [of s] str_find_none)


theorem unchunk_plain_body_example: "unchunk [123, 125] = Inr [123, 125]"
  by (rule unchunk_plain_body) simp

text \<open>A response \<open>"H\r\n\r\n2;x\r\nab\r\n1\r\nc\r\n0\r\n\r\n"\<close>.\<close>

lemma hex_small: "n < 10 \<Longrightarrow> hex n = [word_of_nat (48 + n)]"
  by (simp add: hex.simps)


section \<open>The order of doubles\<close>

text \<open>
  The value of a finite double times \<open>2 ^ 1074\<close>, an integer: exponent field \<open>e\<close>, fraction \<open>m\<close>.
\<close>

definition f64_magnitude :: "nat \<Rightarrow> nat" where
  "f64_magnitude k =
     (let e = k div 2 ^ 52; m = k mod 2 ^ 52
      in if e = 0 then m else (2 ^ 52 + m) * 2 ^ (e - 1))"

definition f64_scaled :: "u64 \<Rightarrow> int" where
  "f64_scaled w =
     (if bit w 63 then - int (f64_magnitude (unat (w AND 0x7FFFFFFFFFFFFFFF)))
      else int (f64_magnitude (unat (w AND 0x7FFFFFFFFFFFFFFF))))"

definition f64_finite :: "u64 \<Rightarrow> bool" where
  "f64_finite w \<longleftrightarrow> w AND 0x7FFFFFFFFFFFFFFF < 0x7FF0000000000000"

lemma f64_magnitude_Suc: "f64_magnitude k < f64_magnitude (Suc k)"
proof -
  define P :: nat where "P = 2 ^ 52"
  have P: "0 < P" by (simp add: P_def)
  have mag: "f64_magnitude k = (if k div P = 0 then k mod P else (P + k mod P) * 2 ^ (k div P - 1))" for k
    by (simp only: f64_magnitude_def P_def Let_def)
  let ?e = "k div P" and ?m = "k mod P"
  show ?thesis
  proof (cases "Suc ?m < P")
    case True
    then have "Suc k div P = ?e" "Suc k mod P = Suc ?m"
      by (auto simp: div_Suc mod_Suc)
    then show ?thesis
      by (simp add: mag)
  next
    case False
    then have m: "Suc ?m = P" using P mod_less_divisor [of P k] by linarith
    then have "Suc k div P = Suc ?e" "Suc k mod P = 0"
      by (auto simp: div_Suc mod_Suc)
    moreover have "(P + ?m) * 2 ^ (?e - 1) < P * 2 ^ ?e" if "?e \<noteq> 0"
    proof -
      have "(P + ?m) * 2 ^ (?e - 1) < (2 * P) * 2 ^ (?e - 1)" using m by simp
      also have "\<dots> = P * 2 ^ ?e" using that by (cases ?e) simp_all
      finally show ?thesis .
    qed
    moreover have "?m < P" using P by simp
    ultimately show ?thesis
      by (simp add: mag)
  qed
qed

lemma f64_magnitude_less_iff: "f64_magnitude j < f64_magnitude k \<longleftrightarrow> j < k"
  by (rule strict_mono_less) (simp add: strict_mono_Suc_iff f64_magnitude_Suc)

lemma f64_magnitude_0 [simp]: "f64_magnitude 0 = 0"
  by (simp add: f64_magnitude_def)



end
