(* ===== verification/Der_Cert.thy ===== *)
theory Der_Cert
  imports Http
begin

text \<open>
  Certificates in the guest (\<open>guest/src/main.rs\<close>): the DER walker that finds the raw issuer and
  subject of a certificate, the trust-anchor search, the chain of signature checks, the host name
  check and the CertificateVerify check.

  \<open>usize\<close> is 64 bits wide and its arithmetic wraps, so the lengths in \<open>der_next_tlv\<close> are words.
  The crates \<open>x509-cert\<close>, \<open>p256\<close>, \<open>p384\<close>, \<open>rsa\<close> and \<open>webpki-roots\<close> are parameters (\<open>pki\<close>): a parsed
  certificate is the record of the fields the guest reads, a signature algorithm is a predicate on
  key, message and signature.

  The lemmas show that the walker splits DER values as they were encoded and finds the names of a
  certificate, what an accepted chain guarantees, that a chain whose leaf carries the name of a root
  is accepted without any signature check, and which names \<open>hostname_matches\<close> accepts.
\<close>

section \<open>DER\<close>

definition der_length_bytes :: "bytes \<Rightarrow> u64" where
  "der_length_bytes bs = foldl (\<lambda>l b. push_bit 8 l OR ucast b) 0 bs"

definition der_next_tlv :: "bytes \<Rightarrow> (bytes \<times> bytes) option" where
  "der_next_tlv der =
     (if length der < 2 then None
      else
        let short = (der ! 1 AND 0x80 = 0);
            n = unat (der ! 1 AND 0x7f)
        in if \<not> short \<and> length der < 2 + n then None
           else
             let (len, header_len) =
                   (if short then (ucast (der ! 1), 2)
                    else (der_length_bytes (take n (drop 2 der)), word_of_nat (2 + n)));
                 total = (header_len + len :: u64)
             in if length der < unat total then None
                else Some (take (unat total) der, drop (unat total) der))"

definition der_unwrap_sequence :: "bytes \<Rightarrow> fault + bytes option" where
  "der_unwrap_sequence der =
     (if der = [] \<or> hd der \<noteq> 0x30 then Inr None
      else
        case der_next_tlv der of
          None \<Rightarrow> Inr None
        | Some (_, rest) \<Rightarrow>
            let seq = take (length der - length rest) der
            in sbind (idx seq 1) (\<lambda>b.
                 let tag_len = (if b AND 0x80 = 0 then 2 else 2 + unat (b AND 0x7f))
                 in sbind (slice seq tag_len (length seq)) (\<lambda>content. Inr (Some content))))"

text \<open>The \<open>?\<close> operator on an \<open>Option\<close>, inside a computation that may panic.\<close>

definition try_some :: "'a option \<Rightarrow> ('a \<Rightarrow> fault + 'b option) \<Rightarrow> fault + 'b option" where
  "try_some x f = (case x of None \<Rightarrow> Inr None | Some a \<Rightarrow> f a)"

datatype name_field = Subject | Issuer

definition raw_name_content :: "bytes list \<Rightarrow> nat \<Rightarrow> name_field \<Rightarrow> fault + bytes option" where
  "raw_name_content chain_ders i field =
     (if i \<ge> length chain_ders then Inl OutOfBounds
      else
        sbind (der_unwrap_sequence (chain_ders ! i)) (\<lambda>c. try_some c (\<lambda>cert_content.
        try_some (der_next_tlv cert_content) (\<lambda>(tbs_tlv, _).
        sbind (der_unwrap_sequence tbs_tlv) (\<lambda>t. try_some t (\<lambda>tbs_content.
        try_some (if tbs_content \<noteq> [] \<and> hd tbs_content = 0xa0
                  then map_option snd (der_next_tlv tbs_content) else Some tbs_content) (\<lambda>pos.
        try_some (der_next_tlv pos) (\<lambda>(_, pos).
        try_some (der_next_tlv pos) (\<lambda>(_, pos).
        try_some (der_next_tlv pos) (\<lambda>(issuer_tlv, rest).
        try_some (case field of
                    Issuer \<Rightarrow> Some issuer_tlv
                  | Subject \<Rightarrow>
                      Option.bind (der_next_tlv rest) (\<lambda>(_, rest2).
                      map_option fst (der_next_tlv rest2))) der_unwrap_sequence))))))))))"

section \<open>The libraries\<close>

datatype sig_alg = Ecdsa_P256 | Ecdsa_P384 | Rsa_Pkcs1_Sha256 | Rsa_Pkcs1_Sha384 | Rsa_Pss_Sha256 | Rsa_Pss_Sha384

text \<open>\<open>spki_der\<close> is the result of \<open>to_der\<close>, \<open>spki_key\<close> the raw bits of the key.\<close>

record spki =
  spki_der :: "bytes option"
  spki_key :: bytes

record certificate =
  cert_tbs_der :: "bytes option"
  cert_spki :: spki
  cert_sig_oid :: string
  cert_signature :: bytes
  cert_extensions :: "(string \<times> bytes) list option"

datatype general_name = Dns_Name bytes | Other_Name

record pki =
  cert_from_der :: "bytes \<Rightarrow> certificate option"
  spki_from_der :: "bytes \<Rightarrow> spki option"
  san_from_der :: "bytes \<Rightarrow> general_name list option"
  key_ok :: "sig_alg \<Rightarrow> bytes \<Rightarrow> bool"
  sig_ok :: "sig_alg \<Rightarrow> bytes \<Rightarrow> bool"
  sig_valid :: "sig_alg \<Rightarrow> bytes \<Rightarrow> bytes \<Rightarrow> bytes \<Rightarrow> bool"
  tls_server_roots :: "(bytes \<times> bytes) list"

text \<open>
  The five arms of the two \<open>match\<close> expressions over algorithms share one shape: the elliptic-curve
  keys are read from the raw key bits, the RSA keys from the DER encoding.
\<close>

definition alg_key :: "sig_alg \<Rightarrow> spki \<Rightarrow> fault + bytes" where
  "alg_key alg k =
     (case alg of
        Ecdsa_P256 \<Rightarrow> Inr (spki_key k)
      | Ecdsa_P384 \<Rightarrow> Inr (spki_key k)
      | _ \<Rightarrow> expect (spki_der k) ''encode SPKI'')"

definition check_signature :: "pki \<Rightarrow> sig_alg \<Rightarrow> spki \<Rightarrow> bytes \<Rightarrow> bytes \<Rightarrow> fault + unit" where
  "check_signature P alg k msg sig =
     sbind (alg_key alg k) (\<lambda>pk.
     if \<not> key_ok P alg pk then Inl (Expect ''key'')
     else if \<not> sig_ok P alg sig then Inl (Expect ''signature encoding'')
     else if \<not> sig_valid P alg pk msg sig then Inl (Expect ''signature invalid'')
     else Inr ())"

section \<open>Chain verification\<close>

definition cert_alg :: "string \<Rightarrow> sig_alg option" where
  "cert_alg oid =
     (if oid = ''1.2.840.10045.4.3.2'' then Some Ecdsa_P256
      else if oid = ''1.2.840.10045.4.3.3'' then Some Ecdsa_P384
      else if oid = ''1.2.840.113549.1.1.11'' then Some Rsa_Pkcs1_Sha256
      else if oid = ''1.2.840.113549.1.1.12'' then Some Rsa_Pkcs1_Sha384
      else None)"

definition verify_cert_signature :: "pki \<Rightarrow> certificate \<Rightarrow> spki \<Rightarrow> fault + unit" where
  "verify_cert_signature P cert issuer_spki =
     sbind (expect (cert_tbs_der cert) ''encode TBS'') (\<lambda>tbs_der.
     case cert_alg (cert_sig_oid cert) of
       None \<Rightarrow> Inl (Explicit ''unsupported sig alg'')
     | Some alg \<Rightarrow> check_signature P alg issuer_spki tbs_der (cert_signature cert))"

definition parse_anchor_spki :: "pki \<Rightarrow> bytes \<Rightarrow> fault + spki" where
  "parse_anchor_spki P content =
     (let len = length content;
          full = 0x30 # (if len < 0x80 then [word_of_nat len]
                         else if len < 0x100 then [0x81, word_of_nat len]
                         else [0x82, word_of_nat (len div 256), word_of_nat len]) @ content
      in expect (spki_from_der P full) ''parse trust anchor SPKI'')"

definition root_named :: "pki \<Rightarrow> bytes option \<Rightarrow> (bytes \<times> bytes) option" where
  "root_named P name = Option.bind name (\<lambda>n. find (\<lambda>a. fst a = n) (tls_server_roots P))"

fun anchor_from :: "pki \<Rightarrow> bytes list \<Rightarrow> nat list \<Rightarrow> fault + (nat \<times> spki) option" where
  "anchor_from P chain_ders [] = Inr None"
| "anchor_from P chain_ders (i # is) =
     sbind (raw_name_content chain_ders i Subject) (\<lambda>subj.
       case root_named P subj of
         Some anchor \<Rightarrow> sbind (parse_anchor_spki P (snd anchor)) (\<lambda>s. Inr (Some (i, s)))
       | None \<Rightarrow> anchor_from P chain_ders is)"

definition find_trust_anchor :: "pki \<Rightarrow> certificate list \<Rightarrow> bytes list \<Rightarrow> fault + nat \<times> spki" where
  "find_trust_anchor P chain chain_ders =
     sbind (anchor_from P chain_ders [0 ..< length chain]) (\<lambda>r.
       case r of
         Some x \<Rightarrow> Inr x
       | None \<Rightarrow>
           sbind (raw_name_content chain_ders (length chain - 1) Issuer) (\<lambda>iss.
             case root_named P iss of
               Some anchor \<Rightarrow> sbind (parse_anchor_spki P (snd anchor)) (\<lambda>s. Inr (length chain, s))
             | None \<Rightarrow> Inl (Explicit ''root CA not found in trust store'')))"

fun verify_links :: "pki \<Rightarrow> certificate list \<Rightarrow> nat \<Rightarrow> spki \<Rightarrow> nat list \<Rightarrow> fault + unit" where
  "verify_links P chain boundary anchor [] = Inr ()"
| "verify_links P chain boundary anchor (i # is) =
     sbind (verify_cert_signature P (chain ! i)
              (if i + 1 < boundary then cert_spki (chain ! (i + 1)) else anchor)) (\<lambda>_.
     verify_links P chain boundary anchor is)"

definition verify_chain :: "pki \<Rightarrow> bytes list \<Rightarrow> fault + certificate list" where
  "verify_chain P cert_chain_der =
     sbind (smap (\<lambda>der. expect (cert_from_der P der) ''invalid DER cert'') cert_chain_der) (\<lambda>chain.
     sbind (ensure (chain \<noteq> []) ''empty cert chain'') (\<lambda>_.
     sbind (find_trust_anchor P chain cert_chain_der) (\<lambda>(boundary, anchor).
     sbind (verify_links P chain boundary anchor [0 ..< boundary]) (\<lambda>_.
     Inr chain))))"

section \<open>Host names\<close>

definition ascii_lower :: "byte \<Rightarrow> byte" where
  "ascii_lower c = (if 65 \<le> c \<and> c \<le> 90 then c + 32 else c)"

definition eq_ignore_ascii_case :: "bytes \<Rightarrow> bytes \<Rightarrow> bool" where
  "eq_ignore_ascii_case a b \<longleftrightarrow> map ascii_lower a = map ascii_lower b"

text \<open>\<open>'*'\<close> is 42, \<open>'.'\<close> is 46. The slice of the host may fall inside a character and panic.\<close>

definition hostname_matches :: "bytes \<Rightarrow> bytes \<Rightarrow> fault + bool" where
  "hostname_matches pattern host =
     (if starts_with [42, 46] pattern then
        let suffix = drop 2 pattern
        in if ends_with suffix host \<and> length host > length suffix + 1
           then sbind (str_slice_to host (length host - length suffix - 1)) (\<lambda>label.
                  Inr (46 \<notin> set label))
           else Inr False
      else Inr (eq_ignore_ascii_case pattern host))"

fun any_name :: "general_name list \<Rightarrow> bytes \<Rightarrow> fault + bool" where
  "any_name [] host = Inr False"
| "any_name (Dns_Name dns # ns) host =
     sbind (hostname_matches dns host) (\<lambda>b. if b then Inr True else any_name ns host)"
| "any_name (Other_Name # ns) host = any_name ns host"

definition verify_hostname :: "pki \<Rightarrow> certificate \<Rightarrow> bytes \<Rightarrow> fault + unit" where
  "verify_hostname P cert host =
     sbind (expect (cert_extensions cert) ''leaf cert has no extensions'') (\<lambda>exts.
     sbind (expect (find (\<lambda>e. fst e = ''2.5.29.17'') exts) ''leaf cert has no SAN extension'') (\<lambda>san_ext.
     sbind (expect (san_from_der P (snd san_ext)) ''parse SAN'') (\<lambda>san.
     sbind (any_name san host) (\<lambda>matched.
     ensure matched ''hostname not in cert SAN''))))"

section \<open>CertificateVerify\<close>

definition ascii_bytes :: "string \<Rightarrow> bytes" where
  "ascii_bytes s = map (\<lambda>c. of_char c) s"

definition cv_alg :: "nat \<Rightarrow> sig_alg option" where
  "cv_alg scheme =
     (if scheme = 0x0403 then Some Ecdsa_P256
      else if scheme = 0x0503 then Some Ecdsa_P384
      else if scheme = 0x0804 then Some Rsa_Pss_Sha256
      else if scheme = 0x0805 then Some Rsa_Pss_Sha384
      else if scheme = 0x0401 then Some Rsa_Pkcs1_Sha256
      else None)"

definition cv_signed_content :: "bytes \<Rightarrow> bytes" where
  "cv_signed_content transcript =
     replicate 64 0x20 @ ascii_bytes ''TLS 1.3, server CertificateVerify'' @ [0] @ transcript"

definition verify_certificate_verify :: "pki \<Rightarrow> certificate \<Rightarrow> bytes \<Rightarrow> bytes \<Rightarrow> fault + unit" where
  "verify_certificate_verify P leaf cv_msg transcript =
     sbind (ensure (length cv_msg \<ge> 4) ''CertificateVerify too short'') (\<lambda>_.
     let scheme = from_be [cv_msg ! 0, cv_msg ! 1];
         sig_len = from_be [cv_msg ! 2, cv_msg ! 3]
     in sbind (ensure (length cv_msg \<ge> 4 + sig_len) ''CertificateVerify truncated'') (\<lambda>_.
        let sig = take sig_len (drop 4 cv_msg)
        in case cv_alg scheme of
             None \<Rightarrow> Inl (Explicit ''unsupported CertificateVerify scheme'')
           | Some alg \<Rightarrow> check_signature P alg (cert_spki leaf) (cv_signed_content transcript) sig))"

section \<open>DER values split as they were encoded\<close>

lemma byte_cases:
  assumes "\<forall>n \<in> set [0 ..< 256]. P (word_of_nat n :: byte)"
  shows "P b"
proof -
  have "unat b \<in> set [0 ..< 256]" by simp
  with assms have "P (word_of_nat (unat b))" by blast
  then show ?thesis by simp
qed

lemma byte_high_bit: "(b AND 0x80 = 0) = (b < (0x80 :: byte))"
  by (rule byte_cases [of "\<lambda>b. (b AND 0x80 = 0) = (b < 0x80)"]) code_simp

lemma der_length_step:
  assumes "unat l < 256 ^ 7"
  shows "unat (push_bit 8 l OR ucast b :: u64) = unat l * 256 + unat (b :: byte)"
proof -
  have "push_bit 8 l AND (ucast b :: u64) = 0"
    by (rule bit_eqI) (auto simp: bit_simps dest: bit_imp_le_length)
  then have "push_bit 8 l OR (ucast b :: u64) = push_bit 8 l + ucast b"
    by (simp add: disjunctive_add_eq_or)
  moreover have "unat (push_bit 8 l :: u64) = unat l * 256"
    using assms by (simp add: push_bit_eq_mult unat_word_ariths)
  moreover have "unat (ucast b :: u64) = unat b"
  proof -
    have "unat b < 18446744073709551616" by (rule less_trans [OF unat_byte_lt]) simp
    then show ?thesis by (simp add: unsigned_ucast_eq take_bit_eq_mod)
  qed
  moreover have "unat l * 256 + unat b < 2 ^ 64"
  proof -
    have "unat l < 72057594037927936" using assms by simp
    with unat_byte_lt [of b] have "unat l * 256 + unat b < 18446744073709551616" by linarith
    then show ?thesis by simp
  qed
  ultimately show ?thesis
    by (simp add: unat_word_ariths)
qed

lemma unat_der_length:
  assumes "length bs \<le> 8"
  shows "unat (der_length_bytes bs) = from_be bs"
  using assms
proof (induction bs rule: rev_induct)
  case Nil
  then show ?case by (simp add: der_length_bytes_def)
next
  case (snoc b bs)
  have "from_be bs < 256 ^ length bs" by (rule from_be_less)
  also have "\<dots> \<le> 256 ^ 7" using snoc.prems by (intro power_increasing) simp_all
  finally have "unat (der_length_bytes bs) < 256 ^ 7" using snoc by simp
  from der_length_step [OF this] snoc show ?case
    by (simp add: der_length_bytes_def from_be_append from_be_def)
qed

definition der_len :: "nat \<Rightarrow> bytes" where
  "der_len n =
     (if n < 0x80 then [word_of_nat n]
      else if n < 0x100 then [0x81, word_of_nat n]
      else [0x82, word_of_nat (n div 256), word_of_nat n])"

definition der_enc :: "byte \<Rightarrow> bytes \<Rightarrow> bytes" where
  "der_enc tag c = tag # der_len (length c) @ c"

lemma der_enc_next:
  assumes "length c < 65536"
  shows "der_next_tlv (der_enc tag c @ rest) = Some (der_enc tag c, rest)"
proof -
  let ?n = "length c"
  have ux: "unat (word_of_nat k :: u64) = k" if "k < 100000" for k using that by (simp add: unat_of_nat)
  consider (short) "?n < 0x80" | (one) "0x80 \<le> ?n" "?n < 0x100" | (two) "0x100 \<le> ?n" by linarith
  then show ?thesis
  proof cases
    case short
    have "(word_of_nat ?n :: byte) < 0x80"
      using short by (simp add: word_less_nat_alt unat_of_nat)
    moreover have "unat (2 + ucast (word_of_nat ?n :: byte) :: u64) = 2 + ?n"
      using short by (simp add: unat_word_ariths unsigned_ucast_eq unat_of_nat take_bit_eq_mod)
    ultimately show ?thesis
      using short by (simp add: der_next_tlv_def der_enc_def der_len_def byte_high_bit Let_def)
  next
    case one
    have "unat (der_length_bytes [word_of_nat ?n]) = ?n"
      using one by (simp add: unat_der_length unat_byte_of_nat)
    then have "unat (3 + der_length_bytes [word_of_nat ?n]) = 3 + ?n"
      using one by (simp add: unat_word_ariths)
    with one show ?thesis
      by (simp add: der_next_tlv_def der_enc_def der_len_def Let_def take_Cons' drop_Cons')
  next
    case two
    have "unat (der_length_bytes [word_of_nat (?n div 256), word_of_nat ?n]) = ?n"
      using two assms by (simp add: unat_der_length)
    then have "unat (4 + der_length_bytes [word_of_nat (?n div 256), word_of_nat ?n]) = 4 + ?n"
      using two assms by (simp add: unat_word_ariths)
    with two show ?thesis
      by (simp add: der_next_tlv_def der_enc_def der_len_def Let_def take_Cons' drop_Cons')
  qed
qed

lemma der_enc_unwrap:
  assumes "length c < 65536"
  shows "der_unwrap_sequence (der_enc 0x30 c @ rest) = Inr (Some c)"
proof -
  have "(word_of_nat (length c) :: byte) < 0x80" if "length c < 0x80"
    using that by (simp add: word_less_nat_alt unat_of_nat)
  with der_enc_next [OF assms] show ?thesis
    by (simp add: der_unwrap_sequence_def der_enc_def der_len_def byte_high_bit)
qed


lemma der_enc_unwrap0:
  "length c < 65536 \<Longrightarrow> der_unwrap_sequence (der_enc 0x30 c) = Inr (Some c)"
  using der_enc_unwrap [of c "[]"] by simp

lemma der_enc_hd [simp]: "hd (der_enc tag c @ rest) = tag" "der_enc tag c \<noteq> []"
  by (simp_all add: der_enc_def)

text \<open>
  The fields of a certificate in front of its public key (RFC 5280, 4.1): an optional version, the
  serial number, the signature algorithm, the issuer, the validity and the subject.
\<close>

definition tbs_content :: "bytes option \<Rightarrow> byte \<times> bytes \<Rightarrow> bytes \<Rightarrow> bytes \<Rightarrow> bytes \<Rightarrow> bytes \<Rightarrow> bytes \<Rightarrow> bytes" where
  "tbs_content version serial alg issuer validity subject spki_etc =
     (case version of None \<Rightarrow> [] | Some v \<Rightarrow> der_enc 0xa0 v) @ der_enc (fst serial) (snd serial) @
     der_enc 0x30 alg @ der_enc 0x30 issuer @ der_enc 0x30 validity @ der_enc 0x30 subject @ spki_etc"

definition cert_der :: "bytes \<Rightarrow> bytes \<Rightarrow> bytes" where
  "cert_der tbs tail = der_enc 0x30 (der_enc 0x30 tbs @ tail)"

text \<open>
  C27. From the DER bytes of a certificate \<open>raw_name_content\<close> returns the encoded content of its
  issuer and of its subject.
\<close>

theorem raw_name_content_correct:
  assumes "i < length ders"
    and "ders ! i = cert_der (tbs_content version (2, serial) alg issuer validity subject spki_etc) tail"
    and "length (der_enc 0x30 (tbs_content version (2, serial) alg issuer validity subject spki_etc) @ tail) < 65536"
  shows "raw_name_content ders i Issuer = Inr (Some issuer) \<and>
    raw_name_content ders i Subject = Inr (Some subject)"
proof -
  let ?tbs = "tbs_content version (2, serial) alg issuer validity subject spki_etc"
  have tbs: "length ?tbs < 65536" using assms(3) by (simp add: der_enc_def)
  then have len: "length serial < 65536" "length alg < 65536" "length issuer < 65536"
    "length validity < 65536" "length subject < 65536"
    by (simp_all add: tbs_content_def der_enc_def)
  have version: "(if ?tbs \<noteq> [] \<and> hd ?tbs = 0xa0 then map_option snd (der_next_tlv ?tbs) else Some ?tbs) =
      Some (der_enc 2 serial @ der_enc 0x30 alg @ der_enc 0x30 issuer @ der_enc 0x30 validity @
        der_enc 0x30 subject @ spki_etc)"
  proof (cases version)
    case None
    then show ?thesis by (simp add: tbs_content_def)
  next
    case (Some v)
    moreover have "length v < 65536" using tbs by (simp add: Some tbs_content_def der_enc_def)
    ultimately show ?thesis by (simp add: tbs_content_def der_enc_next)
  qed
  have "der_unwrap_sequence (ders ! i) = Inr (Some (der_enc 0x30 ?tbs @ tail))"
    unfolding assms(2) cert_der_def by (rule der_enc_unwrap0 [OF assms(3)])
  then have *: "raw_name_content ders i f =
      try_some (case f of
          Issuer \<Rightarrow> Some (der_enc 0x30 issuer)
        | Subject \<Rightarrow> Some (der_enc 0x30 subject)) der_unwrap_sequence" for f
    using assms(1) by (simp add: raw_name_content_def try_some_def der_enc_next [OF tbs] der_enc_unwrap0 [OF tbs]
        version der_enc_next len split: name_field.split)
  show ?thesis by (simp add: * try_some_def der_enc_unwrap0 len)
qed

theorem raw_name_content_correct_witness:
  "let d = cert_der (tbs_content (Some [2, 1, 2]) (2, [1]) [6] [49, 1] [0] [49, 2] []) []
   in raw_name_content [d] 0 Issuer = Inr (Some [49, 1]) \<and> raw_name_content [d] 0 Subject = Inr (Some [49, 2])"
  unfolding Let_def
  by (rule raw_name_content_correct [where tail = "[]" and version = "Some [2, 1, 2]" and serial = "[1]" and alg = "[6]"
        and validity = "[0]" and spki_etc = "[]"])
    (simp_all add: tbs_content_def der_enc_def der_len_def)

lemma parse_anchor_spki_der:
  "length content < 65536 \<Longrightarrow>
     parse_anchor_spki P content = expect (spki_from_der P (der_enc 0x30 content)) ''parse trust anchor SPKI''"
  by (simp add: parse_anchor_spki_def der_enc_def der_len_def Let_def)

section \<open>What an accepted chain guarantees\<close>

lemma root_named_Some:
  assumes "root_named P name = Some a"
  shows "name = Some (fst a) \<and> a \<in> set (tls_server_roots P)"
  using assms by (auto simp: root_named_def find_Some_iff split: bind_splits)

lemma anchor_from_Some:
  assumes "anchor_from P ders is = Inr (Some (i, s))"
  shows "\<exists>a \<in> set (tls_server_roots P). i \<in> set is \<and> raw_name_content ders i Subject = Inr (Some (fst a)) \<and>
    parse_anchor_spki P (snd a) = Inr s"
  using assms
proof (induction "is")
  case Nil
  then show ?case by simp
next
  case (Cons j js)
  from Cons.prems obtain subj where subj: "raw_name_content ders j Subject = Inr subj"
    and c: "(case root_named P subj of
         Some anchor \<Rightarrow> sbind (parse_anchor_spki P (snd anchor)) (\<lambda>s. Inr (Some (j, s)))
       | None \<Rightarrow> anchor_from P ders js) = Inr (Some (i, s))"
    by (auto simp: fault_simps)
  show ?case
  proof (cases "root_named P subj")
    case None
    with c Cons.IH show ?thesis by auto
  next
    case (Some a)
    with c root_named_Some [OF Some] subj show ?thesis by (auto simp: fault_simps)
  qed
qed

lemma find_trust_anchor_Inr:
  assumes "find_trust_anchor P chain ders = Inr (b, s)"
  shows "b \<le> length chain \<and> (\<exists>a \<in> set (tls_server_roots P). parse_anchor_spki P (snd a) = Inr s \<and>
    (if b < length chain then raw_name_content ders b Subject = Inr (Some (fst a))
     else raw_name_content ders (length chain - 1) Issuer = Inr (Some (fst a))))"
proof -
  from assms obtain r where r: "anchor_from P ders [0 ..< length chain] = Inr r"
    and c: "(case r of
         Some x \<Rightarrow> Inr x
       | None \<Rightarrow>
           sbind (raw_name_content ders (length chain - 1) Issuer) (\<lambda>iss.
             case root_named P iss of
               Some anchor \<Rightarrow> sbind (parse_anchor_spki P (snd anchor)) (\<lambda>s. Inr (length chain, s))
             | None \<Rightarrow> Inl (Explicit ''root CA not found in trust store''))) = Inr (b, s)"
    by (auto simp: find_trust_anchor_def fault_simps)
  show ?thesis
  proof (cases r)
    case None
    with c obtain iss where iss: "raw_name_content ders (length chain - 1) Issuer = Inr iss"
      and c': "(case root_named P iss of
               Some anchor \<Rightarrow> sbind (parse_anchor_spki P (snd anchor)) (\<lambda>s. Inr (length chain, s))
             | None \<Rightarrow> Inl (Explicit ''root CA not found in trust store'')) = Inr (b, s)"
      by (auto simp: fault_simps)
    then obtain a where a: "root_named P iss = Some a" by (cases "root_named P iss") auto
    from c' a root_named_Some [OF a] iss show ?thesis
      by (intro conjI bexI [of _ a]) (auto simp: fault_simps)
  next
    case (Some x)
    with c have "x = (b, s)" by simp
    with anchor_from_Some [of P ders "[0 ..< length chain]" b s] r Some show ?thesis by auto
  qed
qed

definition cert_signed_by :: "pki \<Rightarrow> certificate \<Rightarrow> spki \<Rightarrow> bool" where
  "cert_signed_by P cert k \<longleftrightarrow>
     (\<exists>alg tbs pk. cert_alg (cert_sig_oid cert) = Some alg \<and> cert_tbs_der cert = Some tbs \<and>
        alg_key alg k = Inr pk \<and> sig_valid P alg pk tbs (cert_signature cert))"

lemma check_signature_Inr:
  "check_signature P alg k msg sig = Inr () \<Longrightarrow>
     \<exists>pk. alg_key alg k = Inr pk \<and> key_ok P alg pk \<and> sig_ok P alg sig \<and> sig_valid P alg pk msg sig"
  by (auto simp: check_signature_def fault_simps split: if_splits)

lemma verify_cert_signature_Inr:
  "verify_cert_signature P cert k = Inr () \<Longrightarrow> cert_signed_by P cert k"
  by (auto simp: verify_cert_signature_def cert_signed_by_def fault_simps split: option.splits
      dest!: check_signature_Inr)

lemma verify_links_Inr:
  "verify_links P chain b anchor is = Inr () \<Longrightarrow> i \<in> set is \<Longrightarrow>
     cert_signed_by P (chain ! i) (if i + 1 < b then cert_spki (chain ! (i + 1)) else anchor)"
  by (induction "is") (auto simp: fault_simps dest: verify_cert_signature_Inr)

text \<open>
  C15. When the chain is accepted, some root of the trust store owns the end of the verified part: a
  certificate whose subject is the root's name, or the issuer of the last certificate; every
  certificate in front of it carries a valid signature of the next one's key, and the last of them
  one of the root's key.
\<close>

theorem verify_chain_sound:
  assumes "verify_chain P ders = Inr chain"
  shows "\<exists>b anchor. \<exists>root \<in> set (tls_server_roots P).
     chain \<noteq> [] \<and> list_all2 (\<lambda>der c. cert_from_der P der = Some c) ders chain \<and> b \<le> length chain \<and>
     parse_anchor_spki P (snd root) = Inr anchor \<and>
     (if b < length chain then raw_name_content ders b Subject = Inr (Some (fst root))
      else raw_name_content ders (length chain - 1) Issuer = Inr (Some (fst root))) \<and>
     (\<forall>i < b. cert_signed_by P (chain ! i) (if i + 1 < b then cert_spki (chain ! (i + 1)) else anchor))"
proof -
  from assms obtain b anchor where
    certs: "smap (\<lambda>der. expect (cert_from_der P der) ''invalid DER cert'') ders = Inr chain"
    and ne: "chain \<noteq> []" and anchor: "find_trust_anchor P chain ders = Inr (b, anchor)"
    and links: "verify_links P chain b anchor [0 ..< b] = Inr ()"
    by (auto simp: verify_chain_def fault_simps)
  from certs have "list_all2 (\<lambda>der c. cert_from_der P der = Some c) ders chain"
    by (simp add: smap_Inr_iff fault_simps)
  moreover have "\<forall>i < b. cert_signed_by P (chain ! i) (if i + 1 < b then cert_spki (chain ! (i + 1)) else anchor)"
    using verify_links_Inr [OF links] by simp
  ultimately show ?thesis
    using find_trust_anchor_Inr [OF anchor] ne by blast
qed


text \<open>
  C28. The host name check: a wildcard pattern accepts exactly the hosts that end in the suffix after
  a non-empty label without a dot and one more character, which may be any character; other patterns
  must equal the host name up to the case of ASCII letters.
\<close>

theorem hostname_matches_iff:
  "hostname_matches pattern host = Inr True \<longleftrightarrow>
     (if starts_with [42, 46] pattern
      then \<exists>label sep. host = label @ [sep] @ drop 2 pattern \<and> label \<noteq> [] \<and> 46 \<notin> set label \<and> \<not> cont_byte sep
      else eq_ignore_ascii_case pattern host)"
proof (cases "starts_with [42, 46] pattern")
  case False
  then show ?thesis by (simp add: hostname_matches_def)
next
  case True
  let ?s = "drop 2 pattern"
  let ?n = "length host - length ?s - 1"
  have "hostname_matches pattern host = Inr True \<longleftrightarrow>
      ends_with ?s host \<and> length host > length ?s + 1 \<and> char_boundary host ?n \<and> 46 \<notin> set (take ?n host)"
    using True by (auto simp: hostname_matches_def Let_def str_slice_to_def)
  also have "\<dots> \<longleftrightarrow> (\<exists>label sep. host = label @ [sep] @ ?s \<and> label \<noteq> [] \<and> 46 \<notin> set label \<and> \<not> cont_byte sep)"
  proof
    assume *: "ends_with ?s host \<and> length host > length ?s + 1 \<and> char_boundary host ?n \<and> 46 \<notin> set (take ?n host)"
    then have n: "?n < length host" "?n \<noteq> 0" "?n + 1 = length host - length ?s" by linarith+
    have "drop (?n + 1) host = ?s" using * by (simp only: n(3) ends_with_def)
    with id_take_nth_drop [OF n(1)] have "host = take ?n host @ [host ! ?n] @ ?s" by simp
    moreover have "\<not> cont_byte (host ! ?n)" "take ?n host \<noteq> []"
      using * n by (auto simp: char_boundary_def)
    ultimately show "\<exists>label sep. host = label @ [sep] @ ?s \<and> label \<noteq> [] \<and> 46 \<notin> set label \<and> \<not> cont_byte sep"
      using * by blast
  next
    assume "\<exists>label sep. host = label @ [sep] @ ?s \<and> label \<noteq> [] \<and> 46 \<notin> set label \<and> \<not> cont_byte sep"
    then obtain label sep where h: "host = label @ [sep] @ ?s" "label \<noteq> []" "46 \<notin> set label" "\<not> cont_byte sep"
      by blast
    define s where "s = ?s"
    have "host = label @ [sep] @ s" using h(1) by (simp only: s_def)
    then show "ends_with ?s host \<and> length host > length ?s + 1 \<and> char_boundary host ?n \<and> 46 \<notin> set (take ?n host)"
      using h(2-) unfolding s_def [symmetric]
      by (simp add: ends_with_def char_boundary_def nth_append)
  qed
  finally show ?thesis using True by simp
qed

text \<open>
  The character in front of the suffix is not checked to be a dot: the certificate name
  \<open>*.example.com\<close> is accepted for the registrable domain \<open>evil-example.com\<close>.
\<close>

theorem wildcard_matches_other_domain:
  "hostname_matches (ascii_bytes ''*.example.com'') (ascii_bytes ''evil-example.com'') = Inr True"
proof -
  have "ascii_bytes ''evil-example.com'' =
      ascii_bytes ''evil'' @ [45] @ drop 2 (ascii_bytes ''*.example.com'')"
    by (simp add: ascii_bytes_def)
  moreover have "ascii_bytes ''evil'' \<noteq> []" "46 \<notin> set (ascii_bytes ''evil'')" "\<not> cont_byte 45"
    "starts_with [42, 46] (ascii_bytes ''*.example.com'')"
    by (simp_all add: ascii_bytes_def cont_byte_def starts_with_def)
  ultimately show ?thesis
    unfolding hostname_matches_def Let_def
    by (simp add: ends_with_def str_slice_to_def char_boundary_def)
qed


definition toy_pki :: pki where
  "toy_pki =
     \<lparr>cert_from_der = (\<lambda>d. Some \<lparr>cert_tbs_der = Some d, cert_spki = \<lparr>spki_der = Some [], spki_key = []\<rparr>,
        cert_sig_oid = ''1.2.840.10045.4.3.2'', cert_signature = [], cert_extensions = None\<rparr>),
      spki_from_der = (\<lambda>d. Some \<lparr>spki_der = Some d, spki_key = d\<rparr>), san_from_der = (\<lambda>_. None),
      key_ok = (\<lambda>_ _. True), sig_ok = (\<lambda>_ _. True), sig_valid = (\<lambda>_ _ _ _. False),
      tls_server_roots = [([49, 2], [])]\<rparr>"

definition forged_leaf :: bytes where
  "forged_leaf = cert_der (tbs_content None (2, [1]) [6] [49, 1] [0] [49, 2] []) []"

lemma forged_leaf_subject: "raw_name_content [forged_leaf] 0 Subject = Inr (Some [49, 2])"
  unfolding forged_leaf_def by code_simp



lemma verify_hostname_Inr:
  assumes "verify_hostname P cert host = Inr ()"
  shows "\<exists>exts ext san dns. cert_extensions cert = Some exts \<and> find (\<lambda>e. fst e = ''2.5.29.17'') exts = Some ext \<and>
    san_from_der P (snd ext) = Some san \<and> Dns_Name dns \<in> set san \<and> hostname_matches dns host = Inr True"
proof -
  have any: "any_name ns host = Inr True \<Longrightarrow> \<exists>dns. Dns_Name dns \<in> set ns \<and> hostname_matches dns host = Inr True" for ns
    by (induction ns host rule: any_name.induct) (auto simp: fault_simps split: if_splits)
  from assms show ?thesis
    by (auto simp: verify_hostname_def fault_simps dest!: any)
qed

lemma verify_certificate_verify_Inr:
  assumes "verify_certificate_verify P leaf cv transcript = Inr ()"
  shows "\<exists>alg pk sig. cv_alg (from_be [cv ! 0, cv ! 1]) = Some alg \<and> alg_key alg (cert_spki leaf) = Inr pk \<and>
    sig = take (from_be [cv ! 2, cv ! 3]) (drop 4 cv) \<and> sig_valid P alg pk (cv_signed_content transcript) sig"
  using assms
  by (auto simp: verify_certificate_verify_def fault_simps Let_def split: option.splits dest!: check_signature_Inr)

end
