(* ===== verification/Kdf.thy ===== *)
theory Kdf
  imports Tls_Records Der_Cert
begin

text \<open>
  The single-party key schedule of the notary crate (\<open>notary/src/hkdf.rs\<close>, "Reference TLS 1.3 key
  schedule"): HKDF labels, extract, expand-label and the client traffic keys. The crates \<open>sha2\<close> and
  \<open>hmac\<close> are the fields of \<open>hash_env\<close>; \<open>hash_env_ok\<close> says they implement FIPS 180-4 and RFC 2104
  over the compression function. The two-party protocols of the theories \<open>Hkdf\<close> and \<open>Gcm\<close> are
  proved against these functions.

  The lemmas give the shape of an HMAC whose message fits one block: four compressions.
\<close>

section \<open>The hash functions\<close>

record hash_env =
  compress :: "bytes \<Rightarrow> bytes \<Rightarrow> bytes"
  sha256_of :: "bytes \<Rightarrow> bytes"
  hmac_of :: "bytes \<Rightarrow> bytes \<Rightarrow> bytes"

definition SHA256_INITIAL_IV_BYTES :: bytes where
  "SHA256_INITIAL_IV_BYTES =
     [0x6a, 0x09, 0xe6, 0x67, 0xbb, 0x67, 0xae, 0x85, 0x3c, 0x6e, 0xf3, 0x72, 0xa5, 0x4f, 0xf5, 0x3a,
      0x51, 0x0e, 0x52, 0x7f, 0x9b, 0x05, 0x68, 0x8c, 0x1f, 0x83, 0xd9, 0xab, 0x5b, 0xe0, 0xcd, 0x19]"

definition IPAD :: byte where "IPAD = 0x36"
definition OPAD :: byte where "OPAD = 0x5c"

text \<open>FIPS 180-4: padding to a multiple of 64 bytes, then one compression per block.\<close>

definition sha256_pad :: "bytes \<Rightarrow> bytes" where
  "sha256_pad m = m @ [0x80] @ zeros ((119 - length m mod 64) mod 64) @ to_be 8 (8 * length m)"

function md_blocks :: "(bytes \<Rightarrow> bytes \<Rightarrow> bytes) \<Rightarrow> bytes \<Rightarrow> bytes \<Rightarrow> bytes" where
  "md_blocks f h m = (if length m < 64 then h else md_blocks f (f h (take 64 m)) (drop 64 m))"
  by pat_completeness auto
termination
  by (relation "measure (\<lambda>(f, h, m). length m)") auto

declare md_blocks.simps [simp del]

definition sha256_md :: "(bytes \<Rightarrow> bytes \<Rightarrow> bytes) \<Rightarrow> bytes \<Rightarrow> bytes" where
  "sha256_md f m = md_blocks f SHA256_INITIAL_IV_BYTES (sha256_pad m)"

text \<open>RFC 2104 for a key of 32 bytes, which is extended with zeros to the block length.\<close>

definition hmac_md :: "(bytes \<Rightarrow> bytes) \<Rightarrow> bytes \<Rightarrow> bytes \<Rightarrow> bytes" where
  "hmac_md h k m =
     h (map (\<lambda>b. b XOR OPAD) (k @ zeros 32) @ h (map (\<lambda>b. b XOR IPAD) (k @ zeros 32) @ m))"

definition hash_env_ok :: "hash_env \<Rightarrow> bool" where
  "hash_env_ok H \<longleftrightarrow>
     (\<forall>h b. length (compress H h b) = 32) \<and> sha256_of H = sha256_md (compress H) \<and>
     (\<forall>k m. length k = 32 \<longrightarrow> hmac_of H k m = hmac_md (sha256_of H) k m)"

section \<open>Labels and the reference key schedule\<close>

text \<open>\<open>full_label.len() as u8\<close> and \<open>context.len() as u8\<close> truncate, as \<open>to_be 1\<close> does.\<close>

definition hkdf_expand_label_info :: "string \<Rightarrow> bytes \<Rightarrow> nat \<Rightarrow> bytes" where
  "hkdf_expand_label_info label context len =
     (let full_label = ascii_bytes (''tls13 '' @ label)
      in to_be 2 len @ to_be 1 (length full_label) @ full_label @
         to_be 1 (length context) @ context @ [0x01])"

definition reference_empty_hash :: "hash_env \<Rightarrow> bytes" where
  "reference_empty_hash H = sha256_of H []"

definition reference_hkdf_extract :: "hash_env \<Rightarrow> bytes \<Rightarrow> bytes \<Rightarrow> bytes" where
  "reference_hkdf_extract H salt ikm = hmac_of H salt ikm"

definition reference_hkdf_expand_label :: "hash_env \<Rightarrow> bytes \<Rightarrow> string \<Rightarrow> bytes \<Rightarrow> nat \<Rightarrow> bytes" where
  "reference_hkdf_expand_label H prk label context len =
     hmac_of H prk (hkdf_expand_label_info label context len)"

definition reference_tls13_client_traffic ::
  "hash_env \<Rightarrow> bytes \<Rightarrow> bytes \<Rightarrow> bytes \<Rightarrow> bytes \<times> bytes \<times> bytes \<times> bytes" where
  "reference_tls13_client_traffic H ikm transcript_after_sh transcript_after_sf =
     (let empty = reference_empty_hash H;
          early = reference_hkdf_extract H (zeros 32) (zeros 32);
          derived1 = reference_hkdf_expand_label H early ''derived'' empty 32;
          hs = reference_hkdf_extract H derived1 ikm;
          derived2 = reference_hkdf_expand_label H hs ''derived'' empty 32;
          master = reference_hkdf_extract H derived2 (zeros 32);
          client_app = reference_hkdf_expand_label H master ''c ap traffic'' transcript_after_sf 32;
          server_app = reference_hkdf_expand_label H master ''s ap traffic'' transcript_after_sf 32
      in (take 16 (reference_hkdf_expand_label H client_app ''key'' [] 16),
          take 12 (reference_hkdf_expand_label H client_app ''iv'' [] 12),
          take 16 (reference_hkdf_expand_label H server_app ''key'' [] 16),
          take 12 (reference_hkdf_expand_label H server_app ''iv'' [] 12)))"

definition xor32 :: "bytes \<Rightarrow> bytes \<Rightarrow> bytes" where
  "xor32 a b = bxor a b"

text \<open>An environment for every compression function; the second one is used for concrete instances.\<close>

definition md_hash_env :: "(bytes \<Rightarrow> bytes \<Rightarrow> bytes) \<Rightarrow> hash_env" where
  "md_hash_env f = \<lparr>compress = f, sha256_of = sha256_md f, hmac_of = hmac_md (sha256_md f)\<rparr>"

lemma md_hash_env_ok: "(\<And>h b. length (f h b) = 32) \<Longrightarrow> hash_env_ok (md_hash_env f)"
  by (simp add: hash_env_ok_def md_hash_env_def)

definition xor_hash :: hash_env where
  "xor_hash = md_hash_env (\<lambda>h b. take 32 (bxor h b @ zeros 32))"

lemma xor_hash_ok: "hash_env_ok xor_hash"
  unfolding xor_hash_def by (rule md_hash_env_ok) simp

section \<open>HMAC of a short message\<close>

lemma md_blocks_Nil: "length m < 64 \<Longrightarrow> md_blocks f h m = h"
  by (simp add: md_blocks.simps)

lemma md_blocks_block: "length b = 64 \<Longrightarrow> md_blocks f h (b @ m) = md_blocks f (f h b) m"
  by (simp add: md_blocks.simps [of f h "b @ m"])

lemma length_IV [simp]: "length SHA256_INITIAL_IV_BYTES = 32"
  by (simp add: SHA256_INITIAL_IV_BYTES_def)

text \<open>One block in front of a message of at most 55 bytes: two compressions.\<close>

lemma sha256_two_blocks:
  assumes "length p = 64" and "length m \<le> 55"
  shows "sha256_md f (p @ m) =
    f (f SHA256_INITIAL_IV_BYTES p) (m @ [0x80] @ zeros (55 - length m) @ to_be 8 (8 * (64 + length m)))"
proof -
  have "length (p @ m) mod 64 = length m" using assms by simp
  moreover have "(119 - length m) mod 64 = 55 - length m"
  proof -
    define d where "d = 55 - length m"
    have "119 - length m = d + 64" and "d < 64" using assms(2) by (simp_all add: d_def)
    then show ?thesis unfolding d_def [symmetric] by simp
  qed
  ultimately have pad: "sha256_pad (p @ m) =
      p @ (m @ [0x80] @ zeros (55 - length m) @ to_be 8 (8 * (64 + length m)))"
    using assms(1) by (simp add: sha256_pad_def del: to_be.simps)
  have "length (m @ [0x80] @ zeros (55 - length m) @ to_be 8 (8 * (64 + length m))) = 64"
    using assms(2) by (simp del: to_be.simps)
  then have "md_blocks f h (m @ [0x80] @ zeros (55 - length m) @ to_be 8 (8 * (64 + length m))) =
      f h (m @ [0x80] @ zeros (55 - length m) @ to_be 8 (8 * (64 + length m)))" for h
    using md_blocks_block [of "m @ [0x80] @ zeros (55 - length m) @ to_be 8 (8 * (64 + length m))" f h "[]"]
    by (simp add: md_blocks_Nil del: to_be.simps)
  then show ?thesis
    unfolding sha256_md_def pad md_blocks_block [OF assms(1)] .
qed

definition pad_key :: "byte \<Rightarrow> bytes \<Rightarrow> bytes" where
  "pad_key c k = map (\<lambda>b. b XOR c) (k @ zeros 32)"

definition short_block :: "bytes \<Rightarrow> bytes" where
  "short_block m = m @ [0x80] @ zeros (55 - length m) @ to_be 8 (8 * (64 + length m))"

text \<open>The four compressions the two-party protocol evaluates.\<close>

lemma hmac_four_compressions:
  assumes "hash_env_ok H" and "length k = 32" and "length m \<le> 55"
  shows "hmac_of H k m =
    compress H (compress H SHA256_INITIAL_IV_BYTES (pad_key OPAD k))
      (short_block (compress H (compress H SHA256_INITIAL_IV_BYTES (pad_key IPAD k)) (short_block m)))"
proof -
  let ?f = "compress H"
  have l: "length (pad_key c k) = 64" for c using assms(2) by (simp add: pad_key_def)
  have "hmac_of H k m = sha256_md ?f (pad_key OPAD k @ sha256_md ?f (pad_key IPAD k @ m))"
    using assms(1,2) by (simp add: hash_env_ok_def hmac_md_def pad_key_def)
  moreover have "sha256_md ?f (pad_key IPAD k @ m) = ?f (?f SHA256_INITIAL_IV_BYTES (pad_key IPAD k)) (short_block m)"
    unfolding short_block_def by (rule sha256_two_blocks [OF l assms(3)])
  moreover have "length (?f h b) = 32" for h b using assms(1) by (simp add: hash_env_ok_def)
  ultimately show ?thesis
    using sha256_two_blocks [OF l, of "?f (?f SHA256_INITIAL_IV_BYTES (pad_key IPAD k)) (short_block m)" ?f OPAD]
    unfolding short_block_def by simp
qed

lemma length_hmac:
  assumes "hash_env_ok H" and "length k = 32" and "length m \<le> 55"
  shows "length (hmac_of H k m) = 32"
  using assms by (simp add: hmac_four_compressions) (simp add: hash_env_ok_def)

lemma length_sha256_md:
  assumes "\<And>h b. length (f h b) = 32"
  shows "length (sha256_md f m) = 32"
proof -
  have "(\<And>h b. length (f h b) = 32) \<Longrightarrow> length h = 32 \<Longrightarrow> length (md_blocks f h x) = 32" for h x
    by (induction f h x rule: md_blocks.induct) (subst md_blocks.simps, simp)
  with assms show ?thesis by (simp add: sha256_md_def)
qed

lemma length_sha256_of: "hash_env_ok H \<Longrightarrow> length (sha256_of H m) = 32"
  by (simp add: hash_env_ok_def length_sha256_md)

lemma length_hmac_of: "hash_env_ok H \<Longrightarrow> length k = 32 \<Longrightarrow> length (hmac_of H k m) = 32"
  by (simp add: hash_env_ok_def hmac_md_def length_sha256_md)

end
