(* ===== verification/Guest.thy ===== *)
theory Guest
  imports Bundle Tls_Records Der_Cert Http
begin

text \<open>
  The SP1 guest program (\<open>guest/src/main.rs\<close>): \<open>main\<close>, the self-proving path, and
  \<open>run_notary_path\<close>. A run is a function of the witness: it panics (no proof exists) or commits a
  \<open>public_claim\<close>. The cryptographic crates and \<open>serde_json\<close> are the fields of \<open>guest_env\<close>; a parsed
  JSON value is of an arbitrary type.

  The lemmas show what a committed claim guarantees on each path, that honest transcripts are
  accepted, and which ones the program cannot accept.
\<close>

section \<open>The libraries\<close>

record 'j guest_env =
  sha256 :: "bytes \<Rightarrow> bytes"
  x25519_public :: "bytes \<Rightarrow> bytes"
  x25519_dh :: "bytes \<Rightarrow> bytes \<Rightarrow> bytes"
  hkdf_extract :: "bytes \<Rightarrow> bytes \<Rightarrow> bytes"
  hkdf_expand :: "bytes \<Rightarrow> bytes \<Rightarrow> nat \<Rightarrow> bytes option"
  hmac_sha256 :: "bytes \<Rightarrow> bytes \<Rightarrow> bytes"
  aes_gcm_open :: "bytes \<Rightarrow> bytes \<Rightarrow> bytes \<Rightarrow> bytes \<Rightarrow> bytes \<Rightarrow> bytes option"
  json_parse :: "bytes \<Rightarrow> 'j option"
  json_pointer :: "'j \<Rightarrow> bytes \<Rightarrow> 'j option"
  json_as_f64 :: "'j \<Rightarrow> f64 option"
  ed_env :: ed25519
  pki_env :: pki

section \<open>Key derivation and record decryption\<close>

definition expand_label :: "'j guest_env \<Rightarrow> bytes \<Rightarrow> string \<Rightarrow> bytes \<Rightarrow> nat \<Rightarrow> fault + bytes" where
  "expand_label E prk label context len =
     (let full_label = ascii_bytes (''tls13 '' @ label);
          info = to_be 2 len @ to_be 1 (length full_label) @ full_label @ to_be 1 (length context) @ context
      in expect (hkdf_expand E prk info len) ''HKDF-Expand-Label'')"

definition empty_hash :: "'j guest_env \<Rightarrow> bytes" where
  "empty_hash E = sha256 E []"

definition xor_nonce :: "bytes \<Rightarrow> u64 \<Rightarrow> bytes" where
  "xor_nonce iv seq = take 4 iv @ bxor (drop 4 iv) (to_be 8 (unat seq))"

definition record_aad :: "raw_record \<Rightarrow> bytes" where
  "record_aad r = [content_type r] @ to_be 2 (unat (legacy_version r)) @ to_be 2 (length (payload r))"

definition decrypt_record ::
  "'j guest_env \<Rightarrow> bytes \<Rightarrow> bytes \<Rightarrow> u64 \<Rightarrow> raw_record \<Rightarrow> string + bytes \<times> byte" where
  "decrypt_record E key iv seq r =
     (let nonce = xor_nonce iv seq; buf = payload r
      in if length buf < 16 then Inl ''record too short for GCM tag''
         else
           let tag_start = length buf - 16
           in case aes_gcm_open E key nonce (record_aad r) (take tag_start buf) (drop tag_start buf) of
                None \<Rightarrow> Inl ''AES-GCM authentication failed''
              | Some buf \<Rightarrow>
                  (if buf = [] then Inl ''empty decrypted record'' else Inr (butlast buf, last buf)))"

section \<open>The claim\<close>

text \<open>The end of both paths: the HTTP response, the JSON field and the threshold.\<close>

definition claim_from_plaintext :: "'j guest_env \<Rightarrow> tls_witness \<Rightarrow> bytes \<Rightarrow> fault + public_claim" where
  "claim_from_plaintext E w plaintext =
     sbind (ensure (utf8_valid plaintext) ''response is not UTF-8'') (\<lambda>_.
     sbind (unchunk (raw_body plaintext)) (\<lambda>json_body.
     sbind (expect (json_parse E json_body) ''body is not valid JSON'') (\<lambda>json.
     sbind (expect (json_pointer E json (json_field w)) ''field not found'') (\<lambda>v.
     sbind (expect (json_as_f64 E v) ''field is not a number'') (\<lambda>field_value.
     sbind (ensure (f64_gt field_value (threshold w)) ''value is not above the threshold'') (\<lambda>_.
     Inr \<lparr>pc_host = hostname w, pc_field = json_field w, pc_threshold = threshold w,
          pc_value = field_value\<rparr>))))))"

section \<open>The self-proving path\<close>

record hs_state =
  hs_messages :: "bytes list"
  hs_seq :: u64
  hs_chain :: "bytes list option"
  hs_cert_verify :: "bytes option"
  hs_finished :: "bytes option"
  hs_done :: bool
  hs_app :: "bytes list"

text \<open>One handshake message of a decrypted record: the \<open>match msg.msg_type\<close>.\<close>

definition hs_message_step :: "hs_state \<Rightarrow> handshake_msg \<Rightarrow> fault + hs_state" where
  "hs_message_step s m =
     (let raw = hs_header m @ body m; pushed = s\<lparr>hs_messages := hs_messages s @ [raw]\<rparr>
      in if msg_type m = 11 then
           sbind (parse_cert_message (body m)) (\<lambda>r.
             case r of
               Inl _ \<Rightarrow> Inl (Expect ''parse Certificate failed'')
             | Inr chain \<Rightarrow> Inr (pushed\<lparr>hs_chain := Some chain\<rparr>))
         else if msg_type m = 15 then Inr (pushed\<lparr>hs_cert_verify := Some (body m)\<rparr>)
         else if msg_type m = 20 then Inr (pushed\<lparr>hs_finished := Some (body m), hs_done := True\<rparr>)
         else Inr pushed)"

fun sfold :: "('s \<Rightarrow> 'a \<Rightarrow> 'e + 's) \<Rightarrow> 's \<Rightarrow> 'a list \<Rightarrow> 'e + 's" where
  "sfold f s [] = Inr s"
| "sfold f s (x # xs) = sbind (f s x) (\<lambda>s'. sfold f s' xs)"

definition hs_record_step :: "'j guest_env \<Rightarrow> bytes \<Rightarrow> bytes \<Rightarrow> hs_state \<Rightarrow> raw_record \<Rightarrow> fault + hs_state" where
  "hs_record_step E key iv s r =
     (if content_type r \<noteq> 23 then Inr s
      else if hs_done s then Inr (s\<lparr>hs_app := hs_app s @ [record_to_bytes r]\<rparr>)
      else
        case decrypt_record E key iv (hs_seq s) r of
          Inl _ \<Rightarrow> Inl (Expect ''HS record decrypt failed'')
        | Inr (plaintext, inner_ct) \<Rightarrow>
            (let s = s\<lparr>hs_seq := hs_seq s + 1\<rparr>
             in if inner_ct = 23 then
                  Inr (s\<lparr>hs_done := True, hs_app := hs_app s @ [record_to_bytes r]\<rparr>)
                else
                  case parse_handshake_messages plaintext of
                    Inl _ \<Rightarrow> Inl (Expect ''parse HS messages failed'')
                  | Inr msgs \<Rightarrow> sfold hs_message_step s msgs))"

text \<open>
  One application record: \<open>payload.len() - 16\<close> wraps around on a short payload, and the slice from
  there panics.
\<close>

definition app_record_step ::
  "'j guest_env \<Rightarrow> bytes \<Rightarrow> bytes \<Rightarrow> nat \<Rightarrow> bytes \<Rightarrow> fault + bytes" where
  "app_record_step E key iv seq rec_bytes =
     sbind (ensure (length rec_bytes \<ge> 5) ''record header'') (\<lambda>_.
     let ct = rec_bytes ! 0;
         version = take 2 (drop 1 rec_bytes);
         pl = drop 5 rec_bytes;
         nonce = xor_nonce iv (word_of_nat seq);
         aad = [ct] @ version @ to_be 2 (length pl)
     in if length pl < 16 then Inl OutOfBounds
        else
          let tag_start = length pl - 16
          in sbind (expect (aes_gcm_open E key nonce aad (take tag_start pl) (drop tag_start pl))
                      ''AES-GCM app record auth failed'') (\<lambda>buf.
             if buf = [] then Inl (Expect ''empty decrypted record'')
             else Inr (if last buf = 23 then butlast buf else [])))"

fun app_plaintext_from :: "'j guest_env \<Rightarrow> bytes \<Rightarrow> bytes \<Rightarrow> nat \<Rightarrow> bytes list \<Rightarrow> fault + bytes" where
  "app_plaintext_from E key iv seq [] = Inr []"
| "app_plaintext_from E key iv seq (r # rs) =
     sbind (app_record_step E key iv seq r) (\<lambda>p.
     sbind (app_plaintext_from E key iv (seq + 1) rs) (\<lambda>ps. Inr (p @ ps)))"

text \<open>Steps 1 to 3: the key shares and the key schedule up to the handshake secrets.\<close>

record guest_keys =
  gk_ch :: bytes
  gk_sh :: bytes
  gk_server_hs :: bytes
  gk_master :: bytes
  gk_in :: "raw_record list"

definition guest_key_schedule :: "'j guest_env \<Rightarrow> tls_witness \<Rightarrow> fault + guest_keys" where
  "guest_key_schedule E w =
     sbind (parse_client_hello_key_share (raw_outbound w)) (\<lambda>c.
     sbind (expect c ''epk_client not found in ClientHello key_share'') (\<lambda>epk_client_wire.
     sbind (ensure (x25519_public E (esk_client w) = epk_client_wire)
              ''epk_client in ClientHello does not match esk_client'') (\<lambda>_.
     sbind (parse_server_hello_key_share (raw_inbound w)) (\<lambda>s.
     sbind (expect s ''epk_server not found in ServerHello key_share'') (\<lambda>epk_server.
     let ecdh = x25519_dh E (esk_client w) epk_server
     in sbind (parse_records (raw_outbound w)) (\<lambda>out_records.
     sbind (parse_records (raw_inbound w)) (\<lambda>in_records.
     sbind (expect (find (\<lambda>r. content_type r = 22) out_records) ''ClientHello record not found'') (\<lambda>ch.
     sbind (expect (find (\<lambda>r. content_type r = 22) in_records) ''ServerHello record not found'') (\<lambda>sh.
     let transcript_after_sh = sha256 E (payload ch @ payload sh);
         early_secret = hkdf_extract E (zeros 32) (zeros 32)
     in sbind (expand_label E early_secret ''derived'' (empty_hash E) 32) (\<lambda>derived1.
     let hs_secret = hkdf_extract E derived1 ecdh
     in sbind (expand_label E hs_secret ''s hs traffic'' transcript_after_sh 32) (\<lambda>server_hs_secret.
     sbind (expand_label E hs_secret ''derived'' (empty_hash E) 32) (\<lambda>derived2.
     Inr \<lparr>gk_ch = payload ch, gk_sh = payload sh, gk_server_hs = server_hs_secret,
          gk_master = hkdf_extract E derived2 (zeros 32), gk_in = in_records\<rparr>))))))))))))"

text \<open>Step 4: the encrypted handshake.\<close>

definition guest_handshake :: "'j guest_env \<Rightarrow> guest_keys \<Rightarrow> fault + hs_state" where
  "guest_handshake E k =
     sbind (expand_label E (gk_server_hs k) ''key'' [] 16) (\<lambda>hs_key.
     sbind (expand_label E (gk_server_hs k) ''iv'' [] 12) (\<lambda>hs_iv.
     sfold (hs_record_step E hs_key hs_iv)
       \<lparr>hs_messages = [gk_ch k, gk_sh k], hs_seq = 0, hs_chain = None, hs_cert_verify = None,
        hs_finished = None, hs_done = False, hs_app = []\<rparr> (gk_in k)))"

text \<open>Steps 5 to 9: transcript hashes, Finished, certificates, host name, CertificateVerify.\<close>

definition guest_authenticate :: "'j guest_env \<Rightarrow> tls_witness \<Rightarrow> guest_keys \<Rightarrow> hs_state \<Rightarrow> fault + unit" where
  "guest_authenticate E w k s =
     sbind (ensure (length (hs_messages s) \<ge> 6) ''need at least 6 handshake messages'') (\<lambda>_.
     sbind (expect (hs_chain s) ''Certificate message not found'') (\<lambda>cert_chain_der.
     sbind (expect (hs_cert_verify s) ''CertificateVerify not found'') (\<lambda>cert_verify_msg.
     sbind (expect (hs_finished s) ''ServerFinished not found'') (\<lambda>server_finished_body.
     let transcript_before_cv = sha256 E (concat (take 4 (hs_messages s)));
         transcript_before_finished = sha256 E (concat (take 5 (hs_messages s)))
     in sbind (expand_label E (gk_server_hs k) ''finished'' [] 32) (\<lambda>finished_key.
     sbind (ensure (hmac_sha256 E finished_key transcript_before_finished = server_finished_body)
              ''Server Finished HMAC verification failed'') (\<lambda>_.
     sbind (verify_chain (pki_env E) cert_chain_der) (\<lambda>chain.
     sbind (verify_hostname (pki_env E) (chain ! 0) (hostname w)) (\<lambda>_.
     verify_certificate_verify (pki_env E) (chain ! 0) cert_verify_msg transcript_before_cv))))))))"

text \<open>Step 10: the application keys and records.\<close>

definition guest_app_plaintext :: "'j guest_env \<Rightarrow> guest_keys \<Rightarrow> hs_state \<Rightarrow> fault + bytes" where
  "guest_app_plaintext E k s =
     (let transcript_after_finished = sha256 E (concat (take 6 (hs_messages s)))
      in sbind (expand_label E (gk_master k) ''s ap traffic'' transcript_after_finished 32) (\<lambda>server_app_secret.
         sbind (expand_label E server_app_secret ''key'' [] 16) (\<lambda>app_key.
         sbind (expand_label E server_app_secret ''iv'' [] 12) (\<lambda>app_iv.
         app_plaintext_from E app_key app_iv 0 (hs_app s)))))"

definition run_self_prove :: "'j guest_env \<Rightarrow> tls_witness \<Rightarrow> fault + public_claim" where
  "run_self_prove E w =
     sbind (guest_key_schedule E w) (\<lambda>k.
     sbind (guest_handshake E k) (\<lambda>s.
     sbind (guest_authenticate E w k s) (\<lambda>_.
     sbind (guest_app_plaintext E k s) (\<lambda>plaintext.
     claim_from_plaintext E w plaintext))))"

section \<open>The notary path\<close>

definition strip_zeros :: "bytes \<Rightarrow> bytes" where
  "strip_zeros buf = rev (dropWhile (\<lambda>b. b = 0) (rev buf))"

text \<open>
  One record of the walk: what it appends to the plaintext. \<open>find\<close> takes the first commit of a
  decryption with the sequence number.
\<close>

definition notary_record_step ::
  "'j guest_env \<Rightarrow> notary_bundle \<Rightarrow> bytes \<Rightarrow> u64 \<Rightarrow> raw_record \<Rightarrow> fault + bytes" where
  "notary_record_step E b k_rx rx_seq r =
     sbind (expect (find (\<lambda>br. rc_op br = 0x02 \<and> rc_seq br = rx_seq) (records b))
              ''notary did not commit to this decrypt record (op=0x02)'') (\<lambda>bundle_rec.
     sbind (ensure (sha256 E (payload r) = rc_commit_hash bundle_rec) ''record does not match bundle commit'') (\<lambda>_.
     if length (payload r) < 16 then Inl OutOfBounds
     else
       let tag_start = length (payload r) - 16
       in sbind (expect (aes_gcm_open E k_rx (xor_nonce (iv_rx b) rx_seq) (record_aad r)
                   (take tag_start (payload r)) (drop tag_start (payload r))) ''notarized AES-GCM auth failed'') (\<lambda>buf.
          let buf = strip_zeros buf
          in if buf = [] then Inl (Explicit ''empty decrypted notarized record'')
             else Inr (if last buf = 23 then butlast buf else []))))"

fun notary_walk ::
  "'j guest_env \<Rightarrow> notary_bundle \<Rightarrow> bytes \<Rightarrow> u64 \<Rightarrow> raw_record list \<Rightarrow> fault + bytes" where
  "notary_walk E b k_rx rx_seq [] = Inr []"
| "notary_walk E b k_rx rx_seq (r # rs) =
     (if content_type r \<noteq> 23 then notary_walk E b k_rx rx_seq rs
      else sbind (notary_record_step E b k_rx rx_seq r) (\<lambda>p.
           sbind (notary_walk E b k_rx (rx_seq + 1) rs) (\<lambda>ps. Inr (p @ ps))))"

definition witness_hash :: "'j guest_env \<Rightarrow> tls_witness \<Rightarrow> bytes" where
  "witness_hash E w =
     sha256 E (to_be 8 (length (raw_outbound w)) @ raw_outbound w @
               to_be 8 (length (raw_inbound w)) @ raw_inbound w)"

definition check_binding :: "'j guest_env \<Rightarrow> tls_witness \<Rightarrow> notary_bundle \<Rightarrow> fault + unit" where
  "check_binding E w b =
     (if bundle_version b \<ge> BUNDLE_VERSION_BINDING then
        sbind (ensure (witness_hash E w = handshake_transcript_hash (binding b))
                 ''bundle handshake_transcript_hash != witness raw bytes'') (\<lambda>_.
        sbind (parse_server_hello_key_share (raw_inbound w)) (\<lambda>s.
        sbind (expect s ''epk_server in witness inbound'') (\<lambda>epk.
        ensure (epk = server_epk (binding b)) ''bundle server_epk != ServerHello key_share'')))
      else Inr ())"

definition run_notary_path :: "'j guest_env \<Rightarrow> tls_witness \<Rightarrow> fault + public_claim" where
  "run_notary_path E w =
     sbind (expect (notary w) ''run_notary_path called without notary attestation'') (\<lambda>att.
     let b = att_bundle att
     in sbind (ensure (verify (ed_env E) b) ''notary bundle signature did not verify'') (\<lambda>_.
     sbind (check_binding E w b) (\<lambda>_.
     sbind (ensure (server_name b = hostname w) ''bundle.server_name != witness.hostname'') (\<lambda>_.
     let k_rx = bxor (k_n_rx b) (k_c_rx att)
     in sbind (parse_records (raw_inbound w)) (\<lambda>rs.
     sbind (notary_walk E b k_rx 0 rs) (\<lambda>plaintext.
     claim_from_plaintext E w plaintext))))))"

definition guest_main :: "'j guest_env \<Rightarrow> tls_witness \<Rightarrow> fault + public_claim" where
  "guest_main E w = (if notary w \<noteq> None then run_notary_path E w else run_self_prove E w)"

section \<open>Lengths and nonces\<close>

lemma length_xor_nonce: "length iv = 12 \<Longrightarrow> length (xor_nonce iv seq) = 12"
  by (simp add: xor_nonce_def del: to_be.simps)

lemma xor_nonce_inject:
  assumes "length iv = 12" and "xor_nonce iv a = xor_nonce iv b"
  shows "a = b"
proof -
  have "bxor (drop 4 iv) (to_be 8 (unat a)) = bxor (drop 4 iv) (to_be 8 (unat b))"
    using assms by (simp add: xor_nonce_def del: to_be.simps)
  then have "bxor (drop 4 iv) (bxor (drop 4 iv) (to_be 8 (unat a))) =
      bxor (drop 4 iv) (bxor (drop 4 iv) (to_be 8 (unat b)))" by (rule arg_cong)
  then have "to_be 8 (unat a) = to_be 8 (unat b)"
    using assms(1) by (simp add: bxor_cancel_left del: to_be.simps)
  moreover have "unat a < 256 ^ 8" "unat b < 256 ^ 8"
    using unsigned_less [of a] unsigned_less [of b] by simp_all
  ultimately have "unat a = unat b" by (simp add: to_be_inject del: to_be.simps)
  then show ?thesis by (simp add: word_unat_eq_iff)
qed

section \<open>The encrypted handshake\<close>

lemma sfold_invariant:
  assumes "sfold f s xs = Inr s'" and "P s []"
    and "\<And>s ys x s'. P s ys \<Longrightarrow> f s x = Inr s' \<Longrightarrow> P s' (ys @ [x])"
  shows "P s' xs"
proof -
  have "P s ys \<Longrightarrow> sfold f s zs = Inr s' \<Longrightarrow> P s' (ys @ zs)" for s ys zs
  proof (induction zs arbitrary: s ys)
    case Nil
    then show ?case by simp
  next
    case (Cons z zs)
    then obtain s1 where "f s z = Inr s1" "sfold f s1 zs = Inr s'" by (auto simp: fault_simps)
    with Cons.IH [of s1 "ys @ [z]"] assms(3) [OF Cons.prems(1)] show ?case by simp
  qed
  from this [of s "[]" xs] assms show ?thesis by simp
qed

lemma hs_message_step_Inr:
  assumes "hs_message_step s m = Inr s'"
  shows "hs_messages s' = hs_messages s @ [hs_bytes m] \<and> hs_seq s' = hs_seq s \<and> hs_app s' = hs_app s"
  using assms
  by (auto simp: hs_message_step_def hs_bytes_def fault_simps Let_def split: if_splits)

lemma hs_messages_fold:
  assumes "sfold hs_message_step s ms = Inr s'"
  shows "hs_messages s' = hs_messages s @ map hs_bytes ms \<and> hs_seq s' = hs_seq s \<and> hs_app s' = hs_app s"
  using assms
proof (induction ms arbitrary: s)
  case Nil
  then show ?case by simp
next
  case (Cons m ms)
  then obtain s1 where "hs_message_step s m = Inr s1" "sfold hs_message_step s1 ms = Inr s'"
    by (auto simp: fault_simps)
  with Cons.IH [of s1] hs_message_step_Inr [of s m s1] show ?case by simp
qed

text \<open>What the loop has done after the encrypted records \<open>enc\<close>: the first \<open>n\<close> gave handshake bytes.\<close>

definition hs_progress ::
  "'j guest_env \<Rightarrow> bytes \<Rightarrow> bytes \<Rightarrow> bytes list \<Rightarrow> hs_state \<Rightarrow> raw_record list \<Rightarrow> bytes list \<Rightarrow> bool" where
  "hs_progress E key iv start s enc ps \<longleftrightarrow>
     length ps \<le> length enc \<and>
     (\<forall>i < length ps. \<exists>ct. ct \<noteq> 23 \<and> decrypt_record E key iv (word_of_nat i) (enc ! i) = Inr (ps ! i, ct)) \<and>
     concat (hs_messages s) = concat start @ concat ps \<and>
     hs_app s = map record_to_bytes (drop (length ps) enc) \<and>
     (\<not> hs_done s \<longrightarrow> length ps = length enc \<and> hs_seq s = word_of_nat (length enc))"

lemma hs_record_step_progress:
  assumes p: "hs_progress E key iv start s (filter (\<lambda>r. content_type r = 23) rs) ps"
    and step: "hs_record_step E key iv s r = Inr s'"
  shows "\<exists>ps'. hs_progress E key iv start s' (filter (\<lambda>r. content_type r = 23) (rs @ [r])) ps'"
proof -
  let ?enc = "filter (\<lambda>r. content_type r = 23) rs"
  consider (other) "content_type r \<noteq> 23" | (app) "content_type r = 23" "hs_done s"
    | (hs) "content_type r = 23" "\<not> hs_done s" by blast
  then show ?thesis
  proof cases
    case other
    with step p show ?thesis by (auto simp: hs_record_step_def)
  next
    case app
    with step have "s' = s\<lparr>hs_app := hs_app s @ [record_to_bytes r]\<rparr>" by (simp add: hs_record_step_def)
    with p app have "hs_progress E key iv start s' (?enc @ [r]) ps"
      by (auto simp: hs_progress_def nth_append)
    with app show ?thesis by auto
  next
    case hs
    with step obtain pt ct where d: "decrypt_record E key iv (hs_seq s) r = Inr (pt, ct)"
      by (auto simp: hs_record_step_def split: sum.splits)
    from hs p have len: "length ps = length ?enc" "hs_seq s = word_of_nat (length ?enc)"
      by (simp_all add: hs_progress_def)
    show ?thesis
    proof (cases "ct = 23")
      case True
      with step hs d have "s' = s\<lparr>hs_seq := hs_seq s + 1, hs_done := True, hs_app := hs_app s @ [record_to_bytes r]\<rparr>"
        by (simp add: hs_record_step_def Let_def)
      with p hs len have "hs_progress E key iv start s' (?enc @ [r]) ps"
        by (auto simp: hs_progress_def nth_append)
      with hs show ?thesis by auto
    next
      case False
      with step hs d obtain msgs where m: "parse_handshake_messages pt = Inr msgs"
        and f: "sfold hs_message_step (s\<lparr>hs_seq := hs_seq s + 1\<rparr>) msgs = Inr s'"
        by (auto simp: hs_record_step_def Let_def split: sum.splits)
      have "pt = concat (map hs_bytes msgs)"
        using parse_handshake_from_sound [of pt 0 msgs] m by (simp add: parse_handshake_messages_def)
      with p hs len hs_messages_fold [OF f] d False have "hs_progress E key iv start s' (?enc @ [r]) (ps @ [pt])"
        by (auto simp: hs_progress_def nth_append less_Suc_eq add.commute)
      with hs show ?thesis by auto
    qed
  qed
qed

text \<open>
  C11. The transcript of the guest is the ClientHello and ServerHello payloads followed by exactly
  the decrypted bytes of the first encrypted records, in order and without gaps (the record number
  is the nonce); every later encrypted record is handed on, unchanged, as application data.
\<close>

theorem guest_handshake_transcript:
  assumes "guest_handshake E k = Inr s"
  shows "\<exists>key iv ps.
    expand_label E (gk_server_hs k) ''key'' [] 16 = Inr key \<and> expand_label E (gk_server_hs k) ''iv'' [] 12 = Inr iv \<and>
    length ps \<le> length (filter (\<lambda>r. content_type r = 23) (gk_in k)) \<and>
    (\<forall>i < length ps. \<exists>ct. ct \<noteq> 23 \<and>
       decrypt_record E key iv (word_of_nat i) (filter (\<lambda>r. content_type r = 23) (gk_in k) ! i) = Inr (ps ! i, ct)) \<and>
    concat (hs_messages s) = gk_ch k @ gk_sh k @ concat ps \<and>
    hs_app s = map record_to_bytes (drop (length ps) (filter (\<lambda>r. content_type r = 23) (gk_in k)))"
proof -
  let ?s0 = "\<lparr>hs_messages = [gk_ch k, gk_sh k], hs_seq = 0, hs_chain = None, hs_cert_verify = None,
        hs_finished = None, hs_done = False, hs_app = []\<rparr>"
  from assms obtain key iv where keys: "expand_label E (gk_server_hs k) ''key'' [] 16 = Inr key"
      "expand_label E (gk_server_hs k) ''iv'' [] 12 = Inr iv"
    and fold: "sfold (hs_record_step E key iv) ?s0 (gk_in k) = Inr s"
    by (auto simp: guest_handshake_def fault_simps)
  have "\<exists>ps. hs_progress E key iv [gk_ch k, gk_sh k] s (filter (\<lambda>r. content_type r = 23) (gk_in k)) ps"
  proof (rule sfold_invariant [OF fold, where
        P = "\<lambda>s rs. \<exists>ps. hs_progress E key iv [gk_ch k, gk_sh k] s (filter (\<lambda>r. content_type r = 23) rs) ps"])
    have "hs_progress E key iv [gk_ch k, gk_sh k] ?s0 [] []" by (simp add: hs_progress_def)
    then show "\<exists>ps. hs_progress E key iv [gk_ch k, gk_sh k] ?s0 (filter (\<lambda>r. content_type r = 23) []) ps"
      by auto
  qed (use hs_record_step_progress in blast)
  with keys show ?thesis by (auto simp: hs_progress_def)
qed

section \<open>What a claim guarantees\<close>

lemma claim_from_plaintext_Inr:
  assumes "claim_from_plaintext E w p = Inr c"
  shows "pc_host c = hostname w \<and> pc_field c = json_field w \<and> pc_threshold c = threshold w \<and>
    f64_gt (pc_value c) (threshold w) \<and> utf8_valid p \<and>
    (\<exists>b j v. unchunk (raw_body p) = Inr b \<and> json_parse E b = Some j \<and> json_pointer E j (json_field w) = Some v \<and>
       json_as_f64 E v = Some (pc_value c))"
  using assms by (auto simp: claim_from_plaintext_def fault_simps)

lemma notary_walk_Inr:
  assumes "notary_walk E b k n rs = Inr p"
  shows "\<forall>i < length (filter (\<lambda>r. content_type r = 23) rs).
    \<exists>q. notary_record_step E b k (n + word_of_nat i) (filter (\<lambda>r. content_type r = 23) rs ! i) = Inr q"
  using assms
proof (induction rs arbitrary: n p)
  case Nil
  then show ?case by simp
next
  case (Cons r rs)
  show ?case
  proof (cases "content_type r = 23")
    case False
    with Cons show ?thesis by auto
  next
    case True
    with Cons.prems obtain q ps where q: "notary_record_step E b k n r = Inr q"
      and ps: "notary_walk E b k (n + 1) rs = Inr ps" by (auto simp: fault_simps)
    show ?thesis
    proof (intro allI impI)
      fix i
      assume i: "i < length (filter (\<lambda>r. content_type r = 23) (r # rs))"
      show "\<exists>q. notary_record_step E b k (n + word_of_nat i) (filter (\<lambda>r. content_type r = 23) (r # rs) ! i) = Inr q"
      proof (cases i)
        case 0
        with q True show ?thesis by auto
      next
        case (Suc j)
        with Cons.IH [OF ps] i True show ?thesis by (auto simp: add.assoc)
      qed
    qed
  qed
qed

lemma notary_record_step_Inr:
  assumes "notary_record_step E b k n r = Inr q"
  shows "\<exists>br \<in> set (records b). rc_op br = 2 \<and> rc_seq br = n \<and> rc_commit_hash br = sha256 E (payload r)"
  using assms by (auto simp: notary_record_step_def fault_simps find_Some_iff)

text \<open>
  C1. A claim committed on the notary path: the bundle verifies, it names the claimed host, every
  application-data record of the inbound stream is committed in it as the decryption with its
  sequence number, a bundle with a binding is bound to this very witness and to the server's key
  share, and the value stands in the JSON body of the decrypted response, above the threshold.
\<close>

theorem notary_claim_sound:
  assumes "guest_main E w = Inr c" and "notary w = Some att"
  shows "verify (ed_env E) (att_bundle att) \<and> server_name (att_bundle att) = pc_host c \<and> pc_host c = hostname w \<and>
    (bundle_version (att_bundle att) \<ge> BUNDLE_VERSION_BINDING \<longrightarrow>
       handshake_transcript_hash (binding (att_bundle att)) = witness_hash E w \<and>
       parse_server_hello_key_share (raw_inbound w) = Inr (Some (server_epk (binding (att_bundle att))))) \<and>
    (\<exists>rs. parse_records (raw_inbound w) = Inr rs \<and>
       (\<forall>i < length (filter (\<lambda>r. content_type r = 23) rs). \<exists>br \<in> set (records (att_bundle att)).
          rc_op br = 2 \<and> rc_seq br = word_of_nat i \<and>
          rc_commit_hash br = sha256 E (payload (filter (\<lambda>r. content_type r = 23) rs ! i))) \<and>
       (\<exists>p b j v. notary_walk E (att_bundle att) (bxor (k_n_rx (att_bundle att)) (k_c_rx att)) 0 rs = Inr p \<and>
          unchunk (raw_body p) = Inr b \<and> json_parse E b = Some j \<and> json_pointer E j (pc_field c) = Some v \<and>
          json_as_f64 E v = Some (pc_value c) \<and> f64_gt (pc_value c) (pc_threshold c)))"
proof -
  from assms obtain rs p where v: "verify (ed_env E) (att_bundle att)"
    and b: "check_binding E w (att_bundle att) = Inr ()" and n: "server_name (att_bundle att) = hostname w"
    and rs: "parse_records (raw_inbound w) = Inr rs"
    and p: "notary_walk E (att_bundle att) (bxor (k_n_rx (att_bundle att)) (k_c_rx att)) 0 rs = Inr p"
    and c: "claim_from_plaintext E w p = Inr c"
    by (auto simp: guest_main_def run_notary_path_def fault_simps Let_def)
  have "bundle_version (att_bundle att) \<ge> BUNDLE_VERSION_BINDING \<longrightarrow>
       handshake_transcript_hash (binding (att_bundle att)) = witness_hash E w \<and>
       parse_server_hello_key_share (raw_inbound w) = Inr (Some (server_epk (binding (att_bundle att))))"
    using b by (auto simp: check_binding_def fault_simps)
  moreover have "\<forall>i < length (filter (\<lambda>r. content_type r = 23) rs). \<exists>br \<in> set (records (att_bundle att)).
          rc_op br = 2 \<and> rc_seq br = word_of_nat i \<and>
          rc_commit_hash br = sha256 E (payload (filter (\<lambda>r. content_type r = 23) rs ! i))"
    using notary_walk_Inr [OF p] notary_record_step_Inr by fastforce
  ultimately show ?thesis
    using v n rs p claim_from_plaintext_Inr [OF c] by auto
qed


text \<open>
  C2. A claim committed on the self-proving path: the witness holds the private key of the
  ClientHello's key share, the Finished message authenticates the handshake under the derived
  secret, some certificate chain was accepted whose leaf names the host and signed the transcript up
  to the Certificate, and the value stands above the threshold in the response that the application
  records decrypt to.
\<close>

theorem self_prove_claim_sound:
  assumes "guest_main E w = Inr c" and "notary w = None"
  shows "\<exists>k s ders chain cv fin fkey p.
    parse_client_hello_key_share (raw_outbound w) = Inr (Some (x25519_public E (esk_client w))) \<and>
    guest_key_schedule E w = Inr k \<and> guest_handshake E k = Inr s \<and>
    hs_chain s = Some ders \<and> hs_cert_verify s = Some cv \<and> hs_finished s = Some fin \<and>
    expand_label E (gk_server_hs k) ''finished'' [] 32 = Inr fkey \<and>
    fin = hmac_sha256 E fkey (sha256 E (concat (take 5 (hs_messages s)))) \<and>
    verify_chain (pki_env E) ders = Inr chain \<and>
    (\<exists>exts ext san dns. cert_extensions (chain ! 0) = Some exts \<and>
       find (\<lambda>e. fst e = ''2.5.29.17'') exts = Some ext \<and> san_from_der (pki_env E) (snd ext) = Some san \<and>
       Dns_Name dns \<in> set san \<and> hostname_matches dns (pc_host c) = Inr True) \<and>
    (\<exists>alg pk sig. cv_alg (from_be [cv ! 0, cv ! 1]) = Some alg \<and> alg_key alg (cert_spki (chain ! 0)) = Inr pk \<and>
       sig = take (from_be [cv ! 2, cv ! 3]) (drop 4 cv) \<and>
       sig_valid (pki_env E) alg pk (cv_signed_content (sha256 E (concat (take 4 (hs_messages s))))) sig) \<and>
    guest_app_plaintext E k s = Inr p \<and>
    (\<exists>b j v. unchunk (raw_body p) = Inr b \<and> json_parse E b = Some j \<and> json_pointer E j (pc_field c) = Some v \<and>
       json_as_f64 E v = Some (pc_value c) \<and> f64_gt (pc_value c) (pc_threshold c)) \<and>
    pc_host c = hostname w"
proof -
  from assms obtain k s p where k: "guest_key_schedule E w = Inr k" and s: "guest_handshake E k = Inr s"
    and a: "guest_authenticate E w k s = Inr ()" and p: "guest_app_plaintext E k s = Inr p"
    and c: "claim_from_plaintext E w p = Inr c"
    by (auto simp: guest_main_def run_self_prove_def fault_simps)
  from k have "parse_client_hello_key_share (raw_outbound w) = Inr (Some (x25519_public E (esk_client w)))"
    by (auto simp: guest_key_schedule_def fault_simps Let_def)
  moreover from a obtain ders cv fin fkey chain where h: "hs_chain s = Some ders" "hs_cert_verify s = Some cv"
      "hs_finished s = Some fin" "expand_label E (gk_server_hs k) ''finished'' [] 32 = Inr fkey"
      "fin = hmac_sha256 E fkey (sha256 E (concat (take 5 (hs_messages s))))"
      "verify_chain (pki_env E) ders = Inr chain" "verify_hostname (pki_env E) (chain ! 0) (hostname w) = Inr ()"
      "verify_certificate_verify (pki_env E) (chain ! 0) cv (sha256 E (concat (take 4 (hs_messages s)))) = Inr ()"
    by (auto simp: guest_authenticate_def fault_simps Let_def)
  ultimately show ?thesis
    using k s p verify_hostname_Inr [OF h(7)] verify_certificate_verify_Inr [OF h(8)]
      claim_from_plaintext_Inr [OF c] by auto
qed

section \<open>Honest application records\<close>

text \<open>
  \<open>seal\<close> is the encryption the peer uses, ciphertext and tag in one; a \<open>TLSInnerPlaintext\<close> is the
  content, its type and zero padding (RFC 8446, 5.2).
\<close>

definition gcm_pair :: "'j guest_env \<Rightarrow> (bytes \<Rightarrow> bytes \<Rightarrow> bytes \<Rightarrow> bytes \<Rightarrow> bytes) \<Rightarrow> bool" where
  "gcm_pair E seal \<longleftrightarrow>
     (\<forall>k n a pt. length (seal k n a pt) = length pt + 16 \<and>
        aes_gcm_open E k n a (take (length pt) (seal k n a pt)) (drop (length pt) (seal k n a pt)) = Some pt)"

definition inner_plaintext :: "bytes \<times> nat \<Rightarrow> bytes" where
  "inner_plaintext cp = fst cp @ [23] @ zeros (snd cp)"

definition sealed_record ::
  "(bytes \<Rightarrow> bytes \<Rightarrow> bytes \<Rightarrow> bytes \<Rightarrow> bytes) \<Rightarrow> bytes \<Rightarrow> bytes \<Rightarrow> u64 \<Rightarrow> bytes \<times> nat \<Rightarrow> raw_record" where
  "sealed_record seal k iv n cp =
     \<lparr>content_type = 23, legacy_version = 0x0303,
      payload = seal k (xor_nonce iv n) ([23, 3, 3] @ to_be 2 (length (inner_plaintext cp) + 16)) (inner_plaintext cp)\<rparr>"

fun sealed_records ::
  "(bytes \<Rightarrow> bytes \<Rightarrow> bytes \<Rightarrow> bytes \<Rightarrow> bytes) \<Rightarrow> bytes \<Rightarrow> bytes \<Rightarrow> u64 \<Rightarrow> (bytes \<times> nat) list \<Rightarrow> raw_record list" where
  "sealed_records seal k iv n [] = []"
| "sealed_records seal k iv n (cp # cps) = sealed_record seal k iv n cp # sealed_records seal k iv (n + 1) cps"

fun commits_of :: "(bytes \<Rightarrow> bytes) \<Rightarrow> u64 \<Rightarrow> raw_record list \<Rightarrow> record_commit list" where
  "commits_of h n [] = []"
| "commits_of h n (r # rs) =
     \<lparr>rc_op = 2, rc_seq = n, rc_aad = record_aad r, rc_commit_hash = h (payload r)\<rparr> # commits_of h (n + 1) rs"

lemma strip_zeros_inner: "strip_zeros (inner_plaintext cp) = fst cp @ [23]"
proof -
  have "dropWhile (\<lambda>b. b = 0) (zeros n @ 23 # xs) = 23 # xs" for n and xs :: bytes
    by (induction n) simp_all
  moreover have "rev (inner_plaintext cp) = zeros (snd cp) @ 23 # rev (fst cp)"
    by (simp add: inner_plaintext_def zeros_def)
  ultimately show ?thesis by (simp add: strip_zeros_def)
qed

lemma record_aad_sealed:
  assumes "gcm_pair E seal"
  shows "record_aad (sealed_record seal k iv n cp) = [23, 3, 3] @ to_be 2 (length (inner_plaintext cp) + 16)"
proof -
  have "to_be 2 (unat (0x0303 :: u16)) = [3, 3]" by (simp add: to_be_numeral)
  then show ?thesis using assms by (simp add: record_aad_def sealed_record_def gcm_pair_def del: to_be.simps)
qed

lemma open_sealed:
  assumes "gcm_pair E seal" and "r = sealed_record seal k iv n cp"
  shows "length (payload r) = length (inner_plaintext cp) + 16"
    and "aes_gcm_open E k (xor_nonce iv n) (record_aad r) (take (length (inner_plaintext cp)) (payload r))
         (drop (length (inner_plaintext cp)) (payload r)) = Some (inner_plaintext cp)"
  using assms(1) unfolding assms(2) by (simp_all add: record_aad_sealed) (simp_all add: gcm_pair_def sealed_record_def)

lemma notary_step_sealed:
  assumes "gcm_pair E seal" and "r = sealed_record seal k (iv_rx b) n cp"
    and "find (\<lambda>br. rc_op br = 2 \<and> rc_seq br = n) (records b) = Some br" and "rc_commit_hash br = sha256 E (payload r)"
  shows "notary_record_step E b k n r = Inr (fst cp)"
  using assms(3,4)
  by (simp add: notary_record_step_def Let_def open_sealed [OF assms(1,2)] strip_zeros_inner)

lemma find_commit:
  assumes "i < length rs" and "length rs < 2 ^ 64"
  shows "find (\<lambda>br. rc_op br = 2 \<and> rc_seq br = n + word_of_nat i) (commits_of h n rs) =
    Some \<lparr>rc_op = 2, rc_seq = n + word_of_nat i, rc_aad = record_aad (rs ! i), rc_commit_hash = h (payload (rs ! i))\<rparr>"
  using assms
proof (induction rs arbitrary: n i)
  case Nil
  then show ?case by simp
next
  case (Cons r rs)
  show ?case
  proof (cases i)
    case 0
    then show ?thesis by simp
  next
    case (Suc j)
    have "n \<noteq> n + word_of_nat (Suc j)"
    proof
      assume "n = n + word_of_nat (Suc j)"
      then have "word_of_nat (Suc j) = (0 :: u64)" by (metis add_cancel_right_right)
      then have "2 ^ 64 dvd Suc j" by (simp add: word_of_nat_eq_0_iff del: of_nat_Suc)
      then have "2 ^ 64 \<le> Suc j" by (rule dvd_imp_le) simp
      with Cons.prems Suc show False by simp
    qed
    moreover have "n + word_of_nat (Suc j) = (n + 1) + word_of_nat j" by simp
    ultimately show ?thesis
      using Cons.IH [of j "n + 1"] Cons.prems Suc by (simp add: add.assoc)
  qed
qed

lemma length_sealed_records [simp]: "length (sealed_records seal k iv n cps) = length cps"
  by (induction cps arbitrary: n) simp_all

lemma sealed_records_app: "r \<in> set (sealed_records seal k iv n cps) \<Longrightarrow> content_type r = 23"
  by (induction cps arbitrary: n) (auto simp: sealed_record_def)

lemma notary_walk_filter: "notary_walk E b k n rs = notary_walk E b k n (filter (\<lambda>r. content_type r = 23) rs)"
  by (induction rs arbitrary: n) simp_all

lemma notary_walk_sealed:
  assumes "gcm_pair E seal"
    and "\<forall>i < length cps. \<exists>br. find (\<lambda>br. rc_op br = 2 \<and> rc_seq br = n + word_of_nat i) (records b) = Some br \<and>
       rc_commit_hash br = sha256 E (payload (sealed_records seal k (iv_rx b) n cps ! i))"
  shows "notary_walk E b k n (sealed_records seal k (iv_rx b) n cps) = Inr (concat (map fst cps))"
  using assms(2)
proof (induction cps arbitrary: n)
  case Nil
  then show ?case by simp
next
  case (Cons cp cps)
  from Cons.prems [rule_format, of 0] have s: "notary_record_step E b k n (sealed_record seal k (iv_rx b) n cp) = Inr (fst cp)"
    by (auto intro: notary_step_sealed [OF assms(1) refl])
  have "\<forall>i < length cps. \<exists>br. find (\<lambda>br. rc_op br = 2 \<and> rc_seq br = (n + 1) + word_of_nat i) (records b) = Some br \<and>
       rc_commit_hash br = sha256 E (payload (sealed_records seal k (iv_rx b) (n + 1) cps ! i))"
  proof (intro allI impI)
    fix i assume "i < length cps"
    with Cons.prems [rule_format, of "Suc i"]
    show "\<exists>br. find (\<lambda>br. rc_op br = 2 \<and> rc_seq br = (n + 1) + word_of_nat i) (records b) = Some br \<and>
       rc_commit_hash br = sha256 E (payload (sealed_records seal k (iv_rx b) (n + 1) cps ! i))"
      by (simp add: add.assoc)
  qed
  from Cons.IH [OF this] s show ?case by (simp add: sealed_record_def)
qed

lemma committed_walk:
  assumes "gcm_pair E seal" and "records b = commits_of (sha256 E) 0 (sealed_records seal k (iv_rx b) 0 cps)"
    and "length cps < 2 ^ 64" and "filter (\<lambda>r. content_type r = 23) rs = sealed_records seal k (iv_rx b) 0 cps"
  shows "notary_walk E b k 0 rs = Inr (concat (map fst cps))"
proof -
  have "notary_walk E b k 0 (sealed_records seal k (iv_rx b) 0 cps) = Inr (concat (map fst cps))"
  proof (rule notary_walk_sealed [OF assms(1)], intro allI impI)
    fix i assume "i < length cps"
    then show "\<exists>br. find (\<lambda>br. rc_op br = 2 \<and> rc_seq br = 0 + word_of_nat i) (records b) = Some br \<and>
       rc_commit_hash br = sha256 E (payload (sealed_records seal k (iv_rx b) 0 cps ! i))"
      using find_commit [of i "sealed_records seal k (iv_rx b) 0 cps" 0 "sha256 E"] assms(2,3) by simp
  qed
  then show ?thesis unfolding notary_walk_filter [of E b k 0 rs] assms(4) .
qed

lemma notary_run:
  assumes "notary w = Some \<lparr>att_bundle = b, k_c_tx = kctx, k_c_rx = kcrx\<rparr>"
    and "verify (ed_env E) b" and "check_binding E w b = Inr ()" and "server_name b = hostname w"
    and "parse_records (raw_inbound w) = Inr rs" and "notary_walk E b (bxor (k_n_rx b) kcrx) 0 rs = Inr p"
  shows "guest_main E w = claim_from_plaintext E w p"
  using assms by (simp add: guest_main_def run_notary_path_def Let_def)

text \<open>
  C12. Completeness of the notary path, with nothing assumed of the notary's key: for every signing
  key, a bundle signed over the commits of a stream of sealed application records, with any zero
  padding, makes the guest end with the claim on exactly the concatenated contents. A prover who
  plays the notary with a key of its own can thus have any response attested.
\<close>

theorem notary_path_complete:
  assumes "gcm_pair E seal" and "ed25519_ok (ed_env E) sk" and "v \<ge> BUNDLE_VERSION_BINDING"
    and "parse_records (raw_inbound w) = Inr rs"
    and "filter (\<lambda>r. content_type r = 23) rs = sealed_records seal (bxor krx kcrx) ivrx 0 cps"
    and "length cps < 2 ^ 64"
    and "parse_server_hello_key_share (raw_inbound w) = Inr (Some (server_epk bd))"
    and "handshake_transcript_hash bd = witness_hash E w"
    and "notary w = Some \<lparr>att_bundle = sign_with_version (ed_env E) now sk v sid (hostname w)
           (commits_of (sha256 E) 0 (sealed_records seal (bxor krx kcrx) ivrx 0 cps)) ktx ivtx krx ivrx bd,
           k_c_tx = kctx, k_c_rx = kcrx\<rparr>"
  shows "guest_main E w = claim_from_plaintext E w (concat (map fst cps))"
proof (rule notary_run [OF assms(9)])
  show "notary_walk E (sign_with_version (ed_env E) now sk v sid (hostname w)
        (commits_of (sha256 E) 0 (sealed_records seal (bxor krx kcrx) ivrx 0 cps)) ktx ivtx krx ivrx bd)
        (bxor (k_n_rx (sign_with_version (ed_env E) now sk v sid (hostname w)
        (commits_of (sha256 E) 0 (sealed_records seal (bxor krx kcrx) ivrx 0 cps)) ktx ivtx krx ivrx bd)) kcrx) 0 rs =
      Inr (concat (map fst cps))"
    by (rule committed_walk [OF assms(1)]) (use assms(5,6) in \<open>simp_all add: sign_with_version_def Let_def\<close>)
  show "verify (ed_env E) (sign_with_version (ed_env E) now sk v sid (hostname w)
        (commits_of (sha256 E) 0 (sealed_records seal (bxor krx kcrx) ivrx 0 cps)) ktx ivtx krx ivrx bd)"
    using assms(2,3) by (simp add: verify_def sign_with_version_def ed25519_ok_def Let_def)
qed (use assms(4,7,8) in \<open>simp_all add: check_binding_def sign_with_version_def Let_def\<close>)

text \<open>
  C38. The two paths treat padding differently. On a sealed record with zero padding the
  notary path returns the content, while the self-proving path, which takes the last byte as the
  content type, drops the content silently.
\<close>

theorem padded_record_dropped:
  assumes "gcm_pair E seal" and "pad > 0" and "n < 2 ^ 64"
    and "r = sealed_record seal k (iv_rx b) (word_of_nat n) (content, pad)"
    and "find (\<lambda>br. rc_op br = 2 \<and> rc_seq br = word_of_nat n) (records b) =
           Some \<lparr>rc_op = 2, rc_seq = word_of_nat n, rc_aad = aad, rc_commit_hash = sha256 E (payload r)\<rparr>"
  shows "notary_record_step E b k (word_of_nat n) r = Inr content \<and>
    app_record_step E k (iv_rx b) n (record_to_bytes r) = Inr []"
proof -
  have "notary_record_step E b k (word_of_nat n) r = Inr content"
    using notary_step_sealed [OF assms(1,4,5)] by simp
  moreover have "length (record_to_bytes r) \<ge> 5 \<and> [record_to_bytes r ! 0] @ take 2 (drop 1 (record_to_bytes r)) @
      to_be 2 (length (drop 5 (record_to_bytes r))) = record_aad r \<and> drop 5 (record_to_bytes r) = payload r"
    by (simp add: record_to_bytes_def record_aad_def del: to_be.simps)
  moreover have "last (inner_plaintext (content, pad)) = 0" "inner_plaintext (content, pad) \<noteq> []"
    using assms(2) by (simp_all add: inner_plaintext_def zeros_def last_append)
  moreover have "(0 :: byte) \<noteq> 23" by simp
  ultimately show ?thesis
    by (simp add: app_record_step_def Let_def open_sealed [OF assms(1,4)] add.commute)
qed


text \<open>
  C13. A bundle fixes the traffic it attests: two witnesses accepted with it (and a binding) have the
  same outbound and inbound bytes, as long as SHA-256 does not collide on their encodings.
\<close>

theorem binding_fixes_traffic:
  assumes "check_binding E w1 b = Inr ()" and "check_binding E w2 b = Inr ()"
    and "bundle_version b \<ge> BUNDLE_VERSION_BINDING"
    and "length (raw_outbound w1) < 2 ^ 64" and "length (raw_outbound w2) < 2 ^ 64"
    and "inj_on (sha256 E) {to_be 8 (length (raw_outbound w)) @ raw_outbound w @
           to_be 8 (length (raw_inbound w)) @ raw_inbound w | w. w = w1 \<or> w = w2}"
  shows "raw_outbound w1 = raw_outbound w2 \<and> raw_inbound w1 = raw_inbound w2"
proof -
  have "witness_hash E w1 = witness_hash E w2"
    using assms(1-3) by (auto simp: check_binding_def fault_simps)
  then have e: "to_be 8 (length (raw_outbound w1)) @ raw_outbound w1 @ to_be 8 (length (raw_inbound w1)) @ raw_inbound w1 =
      to_be 8 (length (raw_outbound w2)) @ raw_outbound w2 @ to_be 8 (length (raw_inbound w2)) @ raw_inbound w2"
    unfolding witness_hash_def by (rule inj_onD [OF assms(6)]) blast+
  then have l: "to_be 8 (length (raw_outbound w1)) = to_be 8 (length (raw_outbound w2))"
    by (simp del: to_be.simps)
  then have "length (raw_outbound w1) = length (raw_outbound w2)"
    using to_be_inject [of "length (raw_outbound w1)" 8 "length (raw_outbound w2)"] assms(4,5) by simp
  with e l show ?thesis by (simp del: to_be.simps)
qed



section \<open>A concrete session\<close>

text \<open>
  Libraries under which every step can be run: the identity as hash, a seal that appends a zero tag,
  and JSON values that are the body's first byte.
\<close>

definition toy_guest :: "bytes guest_env" where
  "toy_guest =
     \<lparr>sha256 = (\<lambda>m. m), x25519_public = (\<lambda>_. zeros 32), x25519_dh = (\<lambda>_ _. zeros 32),
      hkdf_extract = (\<lambda>_ _. zeros 32), hkdf_expand = (\<lambda>_ _ n. Some (zeros n)), hmac_sha256 = (\<lambda>_ _. []),
      aes_gcm_open = (\<lambda>_ _ _ ct tag. if tag = zeros 16 then Some ct else None),
      json_parse = (\<lambda>b. Some b), json_pointer = (\<lambda>j f. Some j),
      json_as_f64 = (\<lambda>j. Some 0x4059000000000000), ed_env = toy_ed25519, pki_env = toy_pki\<rparr>"

definition toy_seal :: "bytes \<Rightarrow> bytes \<Rightarrow> bytes \<Rightarrow> bytes \<Rightarrow> bytes" where
  "toy_seal k n a pt = pt @ zeros 16"

lemma toy_gcm_pair: "gcm_pair toy_guest toy_seal"
  by (simp add: gcm_pair_def toy_guest_def toy_seal_def)

definition toy_response :: bytes where
  "toy_response = [72] @ crlf @ crlf @ [49]"

definition toy_records :: "raw_record list" where
  "toy_records = sealed_records toy_seal (bxor (zeros 16) (zeros 16)) (zeros 12) 0 [(toy_response, 2)]"

definition toy_inbound :: bytes where
  "toy_inbound = record_to_bytes (hello_record (sample_server_hello (zeros 32))) @
     concat (map record_to_bytes toy_records)"

definition toy_binding :: "bytes \<Rightarrow> session_binding" where
  "toy_binding h = session_binding_default\<lparr>handshake_transcript_hash := h\<rparr>"

definition toy_witness0 :: tls_witness where
  "toy_witness0 =
     \<lparr>esk_client = zeros 32, raw_inbound = toy_inbound, raw_outbound = [], hostname = [97], json_field = [],
      threshold = 0x4049000000000000, notary = None\<rparr>"

definition toy_bundle :: notary_bundle where
  "toy_bundle = sign_with_version toy_ed25519 7 (zeros 32) 1 [115] [97] (commits_of (sha256 toy_guest) 0 toy_records)
     (zeros 16) (zeros 12) (zeros 16) (zeros 12) (toy_binding (witness_hash toy_guest toy_witness0))"

definition toy_witness :: tls_witness where
  "toy_witness = toy_witness0\<lparr>notary := Some \<lparr>att_bundle = toy_bundle, k_c_tx = zeros 16, k_c_rx = zeros 16\<rparr>\<rparr>"

definition toy_claim :: public_claim where
  "toy_claim = \<lparr>pc_host = [97], pc_field = [], pc_threshold = 0x4049000000000000, pc_value = 0x4059000000000000\<rparr>"

lemma toy_parse:
  "parse_records toy_inbound = Inr (hello_record (sample_server_hello (zeros 32)) # toy_records)"
  unfolding toy_inbound_def
  by (rule parse_hello_record(1))
    (simp_all add: length_sample_hellos toy_records_def sealed_record_def toy_seal_def inner_plaintext_def
      toy_response_def crlf_def)

lemma toy_server_share: "parse_server_hello_key_share toy_inbound = Inr (Some (zeros 32))"
proof -
  have q: "parse_handshake_messages (payload (hello_record (sample_server_hello (zeros 32)))) =
      Inr [sample_server_hello (zeros 32)]"
    by (rule parse_hello_record(2) [of _ "[]"]) (simp_all add: length_sample_hellos)
  show ?thesis
    using key_share_server_encoded [of "[]" "zeros 32" "[]" "[]"]
    by (simp add: parse_server_hello_key_share_def toy_parse q)
      (simp add: hello_record_def sample_server_hello_def server_hello_extensions_body parse_key_share_server_def)
qed

lemma witness_hash_toy: "witness_hash toy_guest toy_witness = witness_hash toy_guest toy_witness0"
  by (simp add: witness_hash_def toy_witness_def)

lemma toy_claims: "claim_from_plaintext toy_guest toy_witness toy_response = Inr toy_claim"
proof -
  have "raw_body toy_response = [49]"
    by (simp add: raw_body_def toy_response_def crlf_def starts_with_def)
  moreover have "utf8_valid toy_response" by (simp add: toy_response_def crlf_def)
  moreover have "f64_gt 0x4059000000000000 0x4049000000000000" by code_simp
  moreover have "unchunk [49] = Inr [49]" by (rule unchunk_plain) simp
  ultimately show ?thesis
    by (simp add: claim_from_plaintext_def toy_guest_def toy_witness_def toy_witness0_def toy_claim_def)
qed

lemma toy_filter: "filter (\<lambda>r. content_type r = 23) (hello_record m # toy_records) = toy_records"
  by (simp add: hello_record_def toy_records_def sealed_record_def)

lemma toy_run: "guest_main toy_guest toy_witness = Inr toy_claim"
proof -
  have f: "iv_rx toy_bundle = zeros 12" "k_n_rx toy_bundle = zeros 16" "server_name toy_bundle = [97]"
    "records toy_bundle = commits_of (sha256 toy_guest) 0 toy_records" "bundle_version toy_bundle = 1"
    "binding toy_bundle = toy_binding (witness_hash toy_guest toy_witness0)"
    by (simp_all add: toy_bundle_def sign_with_version_def Let_def)
  have "guest_main toy_guest toy_witness = claim_from_plaintext toy_guest toy_witness toy_response"
  proof (rule notary_run)
    show "notary toy_witness = Some \<lparr>att_bundle = toy_bundle, k_c_tx = zeros 16, k_c_rx = zeros 16\<rparr>"
      by (simp add: toy_witness_def)
    show "parse_records (raw_inbound toy_witness) = Inr (hello_record (sample_server_hello (zeros 32)) # toy_records)"
      by (simp add: toy_witness_def toy_witness0_def toy_parse)
    show "verify (ed_env toy_guest) toy_bundle"
      by (simp add: toy_guest_def toy_bundle_def verify_def sign_with_version_def toy_ed25519_def
          BUNDLE_VERSION_BINDING_def Let_def del: to_be.simps)
    show "check_binding toy_guest toy_witness toy_bundle = Inr ()"
      unfolding check_binding_def witness_hash_toy
      using toy_server_share
      by (simp add: f toy_witness_def toy_witness0_def toy_binding_def session_binding_default_def)
    show "notary_walk toy_guest toy_bundle (bxor (k_n_rx toy_bundle) (zeros 16)) 0
        (hello_record (sample_server_hello (zeros 32)) # toy_records) = Inr toy_response"
      using committed_walk [OF toy_gcm_pair, of toy_bundle "bxor (zeros 16) (zeros 16)" "[(toy_response, 2)]"
          "hello_record (sample_server_hello (zeros 32)) # toy_records"] toy_filter
      by (simp add: f toy_records_def)
    show "server_name toy_bundle = hostname toy_witness"
      by (simp add: f toy_witness_def toy_witness0_def)
  qed
  then show ?thesis by (simp add: toy_claims)
qed

text \<open>A self-proving session: an ECDSA leaf certificate issued by a root, for the host \<open>a\<close>.\<close>

definition toy_leaf :: certificate where
  "toy_leaf =
     \<lparr>cert_tbs_der = Some [], cert_spki = \<lparr>spki_der = Some [], spki_key = []\<rparr>,
      cert_sig_oid = ''1.2.840.10045.4.3.2'', cert_signature = [],
      cert_extensions = Some [(''2.5.29.17'', [])]\<rparr>"

definition toy_guest2 :: "bytes guest_env" where
  "toy_guest2 = toy_guest\<lparr>sha256 := (\<lambda>_. zeros 32), pki_env := toy_pki\<lparr>cert_from_der := (\<lambda>_. Some toy_leaf),
     san_from_der := (\<lambda>_. Some [Dns_Name [97]]), sig_valid := (\<lambda>_ _ _ _. True),
     tls_server_roots := [([49, 1], [])]\<rparr>\<rparr>"

definition toy_hs :: "handshake_msg list" where
  "toy_hs = [\<lparr>msg_type = 8, body = []\<rparr>, \<lparr>msg_type = 11, body = cert_message [] [(forged_leaf, [])]\<rparr>,
     \<lparr>msg_type = 15, body = [4, 3, 0, 0]\<rparr>, \<lparr>msg_type = 20, body = []\<rparr>]"

definition toy_hs_record :: raw_record where
  "toy_hs_record = \<lparr>content_type = 23, legacy_version = 0x0303,
     payload = concat (map hs_bytes toy_hs) @ [22] @ zeros 16\<rparr>"

definition toy_app :: "raw_record list" where
  "toy_app = [\<lparr>content_type = 23, legacy_version = 0x0303, payload = toy_response @ [23] @ zeros 16\<rparr>]"

definition toy_in2 :: "raw_record list \<Rightarrow> bytes" where
  "toy_in2 apps = record_to_bytes (hello_record (sample_server_hello (zeros 32))) @
     concat (map record_to_bytes (toy_hs_record # apps))"

definition toy_self :: "raw_record list \<Rightarrow> tls_witness" where
  "toy_self apps = toy_witness0\<lparr>raw_inbound := toy_in2 apps,
     raw_outbound := record_to_bytes (hello_record (sample_client_hello (zeros 32)))\<rparr>"

lemma length_forged: "length forged_leaf = 21"
  by (simp add: forged_leaf_def cert_der_def tbs_content_def der_enc_def der_len_def)

lemma toy_cert_message: "parse_cert_message (cert_message [] [(forged_leaf, [])]) = Inr (Inr [forged_leaf])"
proof -
  have four: "Suc (Suc (Suc (Suc 0))) = 4" by simp
  have ok: "list_all cert_entry_ok [(forged_leaf, [])]" by (simp add: cert_entry_ok_def length_forged)
  have "cert_message [] [(forged_leaf, [])] = [0, 0, 0, 26] @ concat (map cert_entry [(forged_leaf, [])])"
    by (simp add: cert_message_def length_forged to_be_numeral)
  with parse_cert_entries_encoded [OF ok, of "[0, 0, 0, 26]"] show ?thesis
    by (simp add: parse_cert_message_def Let_def length_forged four)
qed

lemma toy_leaf_names:
  "raw_name_content [forged_leaf] 0 Issuer = Inr (Some [49, 1])"
  unfolding forged_leaf_def by code_simp

lemma parse_toy_hs: "parse_handshake_messages (concat (map hs_bytes toy_hs)) = Inr toy_hs"
  using parse_handshake_from_encoded [of toy_hs "[]"]
  by (simp add: parse_handshake_messages_def toy_hs_def cert_message_def length_forged del: to_be.simps)

definition toy_messages :: "bytes list" where
  "toy_messages = [hs_bytes (sample_client_hello (zeros 32)), hs_bytes (sample_server_hello (zeros 32))] @
     map hs_bytes toy_hs"

definition toy_state :: "raw_record list \<Rightarrow> hs_state" where
  "toy_state apps = \<lparr>hs_messages = toy_messages, hs_seq = 1, hs_chain = Some [forged_leaf],
     hs_cert_verify = Some [4, 3, 0, 0], hs_finished = Some [], hs_done = True,
     hs_app = map record_to_bytes apps\<rparr>"

definition toy_keys :: "raw_record list \<Rightarrow> guest_keys" where
  "toy_keys apps = \<lparr>gk_ch = hs_bytes (sample_client_hello (zeros 32)), gk_sh = hs_bytes (sample_server_hello (zeros 32)),
     gk_server_hs = zeros 32, gk_master = zeros 32,
     gk_in = hello_record (sample_server_hello (zeros 32)) # toy_hs_record # apps\<rparr>"

lemma expand_toy [simp]: "expand_label toy_guest2 prk l ctx n = Inr (zeros n)"
  by (simp add: expand_label_def toy_guest2_def toy_guest_def Let_def del: to_be.simps)

lemma decrypt_toy_hs:
  "decrypt_record toy_guest2 k iv n toy_hs_record = Inr (concat (map hs_bytes toy_hs), 22)"
  by (simp add: decrypt_record_def toy_hs_record_def toy_guest2_def toy_guest_def Let_def)

definition apps_ok :: "raw_record list \<Rightarrow> bool" where
  "apps_ok apps \<longleftrightarrow> list_all (\<lambda>r. content_type r = 23 \<and> length (payload r) < 65536) apps"

lemma toy_apps_ok: "apps_ok []" "apps_ok toy_app"
  by (simp_all add: apps_ok_def toy_app_def toy_response_def crlf_def)

lemma toy_handshake:
  assumes "apps_ok apps"
  shows "guest_handshake toy_guest2 (toy_keys apps) = Inr (toy_state apps)"
proof -
  have step: "hs_record_step toy_guest2 k iv (toy_state as) a = Inr (toy_state (as @ [a]))"
    if "content_type a = 23" for k iv as a
    using that by (simp add: hs_record_step_def toy_state_def)
  have "sfold (hs_record_step toy_guest2 k iv) (toy_state as) bs = Inr (toy_state (as @ bs))"
    if "apps_ok bs" for k iv as bs
    using that
    by (induction bs arbitrary: as) (simp_all add: apps_ok_def step)
  note apps = this [of apps _ _ "[]", OF assms]
  have "hs_record_step toy_guest2 k iv s (hello_record m) = Inr s" for k iv s m
    by (simp add: hs_record_step_def hello_record_def)
  moreover have "hs_record_step toy_guest2 k iv
      \<lparr>hs_messages = [gk_ch (toy_keys apps), gk_sh (toy_keys apps)], hs_seq = 0, hs_chain = None, hs_cert_verify = None,
        hs_finished = None, hs_done = False, hs_app = []\<rparr> toy_hs_record = Inr (toy_state [])" for k iv
    unfolding hs_record_step_def decrypt_toy_hs
    by (simp add: parse_toy_hs Let_def)
      (simp add: toy_hs_record_def toy_hs_def hs_message_step_def toy_cert_message Let_def toy_state_def
        toy_messages_def toy_keys_def hs_bytes_def)
  ultimately show ?thesis
    using apps by (simp add: guest_handshake_def) (simp add: toy_keys_def)
qed

lemma toy_parse2:
  assumes "apps_ok apps"
  shows "parse_records (toy_in2 apps) = Inr (gk_in (toy_keys apps))"
    and "parse_records (raw_outbound (toy_self apps)) = Inr [hello_record (sample_client_hello (zeros 32))]"
proof -
  show "parse_records (toy_in2 apps) = Inr (gk_in (toy_keys apps))"
    unfolding toy_in2_def toy_keys_def guest_keys.simps
    by (rule parse_hello_record(1))
      (use assms in \<open>auto simp: length_sample_hellos toy_hs_record_def toy_hs_def cert_message_def length_forged
        apps_ok_def list_all_iff\<close>)
  show "parse_records (raw_outbound (toy_self apps)) = Inr [hello_record (sample_client_hello (zeros 32))]"
    using parse_hello_record(1) [of "sample_client_hello (zeros 32)" "[]"]
    by (simp add: toy_self_def length_sample_hellos)
qed

lemma toy_shares:
  assumes "apps_ok apps"
  shows "parse_client_hello_key_share (raw_outbound (toy_self apps)) = Inr (Some (zeros 32))"
    and "parse_server_hello_key_share (toy_in2 apps) = Inr (Some (zeros 32))"
proof -
  have q: "parse_handshake_messages (payload (hello_record (sample_client_hello (zeros 32)))) =
      Inr [sample_client_hello (zeros 32)]"
     "parse_handshake_messages (payload (hello_record (sample_server_hello (zeros 32)))) =
      Inr [sample_server_hello (zeros 32)]"
    by (rule parse_hello_record(2) [of _ "[]"], simp_all add: length_sample_hellos)+
  have "length (share_list [(0x0017, [4]), (0x001d, zeros 32)]) < 65536"
    "x25519_share [(0x0017, [4]), (0x001d, zeros 32)] = Some (zeros 32)"
    by (simp_all add: share_list_def x25519_share_def del: to_be.simps)
  with key_share_client_encoded [of "[]" "[(0x0017, [4]), (0x001d, zeros 32)]" "zeros 32" "[]" "[]"]
  show "parse_client_hello_key_share (raw_outbound (toy_self apps)) = Inr (Some (zeros 32))"
    by (simp add: parse_client_hello_key_share_def toy_parse2 [OF assms] q)
      (simp add: hello_record_def sample_client_hello_def client_hello_extensions_body parse_key_share_client_def
        tlv16_ok_def share_list_def del: to_be.simps)
  show "parse_server_hello_key_share (toy_in2 apps) = Inr (Some (zeros 32))"
    using key_share_server_encoded [of "[]" "zeros 32" "[]" "[]"]
    by (simp add: parse_server_hello_key_share_def toy_parse2 [OF assms] toy_keys_def q)
      (simp add: hello_record_def sample_server_hello_def server_hello_extensions_body parse_key_share_server_def)
qed

lemma toy_schedule:
  assumes "apps_ok apps"
  shows "guest_key_schedule toy_guest2 (toy_self apps) = Inr (toy_keys apps)"
proof -
  have "x25519_public toy_guest2 sk = zeros 32" "hkdf_extract toy_guest2 a b = zeros 32" for sk a b
    by (simp_all add: toy_guest2_def toy_guest_def)
  moreover have "raw_inbound (toy_self apps) = toy_in2 apps" by (simp add: toy_self_def)
  ultimately show ?thesis
    by (simp add: guest_key_schedule_def toy_shares [OF assms] toy_parse2 [OF assms] Let_def)
      (simp add: toy_keys_def hello_record_def)
qed

lemma toy_chain: "verify_chain (pki_env toy_guest2) [forged_leaf] = Inr [toy_leaf]"
proof -
  have "pki_env toy_guest2 = toy_pki\<lparr>cert_from_der := (\<lambda>_. Some toy_leaf),
     san_from_der := (\<lambda>_. Some [Dns_Name [97]]), sig_valid := (\<lambda>_ _ _ _. True), tls_server_roots := [([49, 1], [])]\<rparr>"
    by (simp add: toy_guest2_def)
  then show ?thesis
    by (simp add: verify_chain_def find_trust_anchor_def forged_leaf_subject toy_leaf_names root_named_def
        parse_anchor_spki_def verify_cert_signature_def toy_leaf_def cert_alg_def check_signature_def alg_key_def
        toy_pki_def Let_def)
qed

lemma toy_authenticate: "guest_authenticate toy_guest2 (toy_self apps) (toy_keys apps) (toy_state apps) = Inr ()"
proof -
  have "hmac_sha256 toy_guest2 a b = []" "pki_env toy_guest2 = toy_pki\<lparr>cert_from_der := (\<lambda>_. Some toy_leaf),
     san_from_der := (\<lambda>_. Some [Dns_Name [97]]), sig_valid := (\<lambda>_ _ _ _. True), tls_server_roots := [([49, 1], [])]\<rparr>"
     for a b by (simp_all add: toy_guest2_def toy_guest_def)
  note env = this
  have host: "verify_hostname (pki_env toy_guest2) toy_leaf (hostname (toy_self apps)) = Inr ()"
    by (simp add: verify_hostname_def env toy_leaf_def toy_self_def toy_witness0_def hostname_matches_def
        starts_with_def eq_ignore_ascii_case_def)
  have cv: "verify_certificate_verify (pki_env toy_guest2) toy_leaf [4, 3, 0, 0] t = Inr ()" for t
  proof -
    have "from_be [4, 3] = 0x0403" by (simp add: from_be_def)
    then show ?thesis
      by (simp add: verify_certificate_verify_def env cv_alg_def toy_leaf_def check_signature_def alg_key_def
          toy_pki_def Let_def)
  qed
  have "length toy_messages = 6" by (simp add: toy_messages_def toy_hs_def)
  then show ?thesis
    by (simp add: guest_authenticate_def toy_state_def toy_chain host cv env(1) Let_def)
qed

lemma toy_app_plaintext: "guest_app_plaintext toy_guest2 (toy_keys toy_app) (toy_state toy_app) = Inr toy_response"
proof -
  have "to_be 2 (unat (0x0303 :: u16)) = [3, 3]" by (simp add: to_be_numeral)
  then have r: "record_to_bytes \<lparr>content_type = 23, legacy_version = 0x0303, payload = p\<rparr> =
      23 # 3 # 3 # to_be 2 (length p) @ p" for p
    by (simp add: record_to_bytes_def del: to_be.simps)
  have "app_record_step toy_guest2 k iv n (record_to_bytes \<lparr>content_type = 23, legacy_version = 0x0303,
      payload = toy_response @ [23] @ zeros 16\<rparr>) = Inr toy_response" for k iv n
    unfolding r by (simp add: app_record_step_def toy_guest2_def toy_guest_def Let_def del: to_be.simps)
  then show ?thesis
    by (simp add: guest_app_plaintext_def toy_state_def toy_app_def Let_def)
qed

lemma toy_self_run: "guest_main toy_guest2 (toy_self toy_app) = Inr toy_claim"
proof -
  have "claim_from_plaintext toy_guest2 (toy_self toy_app) toy_response = claim_from_plaintext toy_guest toy_witness toy_response"
    by (simp add: claim_from_plaintext_def toy_guest2_def toy_guest_def toy_self_def toy_witness_def)
  then have "claim_from_plaintext toy_guest2 (toy_self toy_app) toy_response = Inr toy_claim"
    by (simp add: toy_claims)
  then show ?thesis
    by (simp add: guest_main_def run_self_prove_def toy_schedule [OF toy_apps_ok(2)]
        toy_handshake [OF toy_apps_ok(2)] toy_authenticate toy_app_plaintext)
      (simp add: toy_self_def toy_witness0_def)
qed

section \<open>The properties at the concrete sessions\<close>

theorem guest_handshake_transcript_witness:
  "\<exists>ps. concat (hs_messages (toy_state toy_app)) = gk_ch (toy_keys toy_app) @ gk_sh (toy_keys toy_app) @ concat ps \<and>
     hs_app (toy_state toy_app) = map record_to_bytes (drop (length ps) (toy_hs_record # toy_app))"
proof -
  have "filter (\<lambda>r. content_type r = 23) (gk_in (toy_keys toy_app)) = toy_hs_record # toy_app"
    by (simp add: toy_keys_def hello_record_def toy_hs_record_def toy_app_def)
  then show ?thesis
    using guest_handshake_transcript [OF toy_handshake [OF toy_apps_ok(2)]] by auto
qed

theorem notary_claim_sound_witness:
  "verify (ed_env toy_guest) toy_bundle \<and> server_name toy_bundle = pc_host toy_claim"
proof -
  have "notary toy_witness = Some \<lparr>att_bundle = toy_bundle, k_c_tx = zeros 16, k_c_rx = zeros 16\<rparr>"
    by (simp add: toy_witness_def)
  from notary_claim_sound [OF toy_run this] show ?thesis by simp
qed

theorem self_prove_claim_sound_witness:
  "parse_client_hello_key_share (raw_outbound (toy_self toy_app)) = Inr (Some (zeros 32)) \<and> pc_host toy_claim = hostname (toy_self toy_app)"
proof -
  have "notary (toy_self toy_app) = None" by (simp add: toy_self_def toy_witness0_def)
  from self_prove_claim_sound [OF toy_self_run this] show ?thesis
    by (auto simp: toy_guest2_def toy_guest_def)
qed

theorem notary_path_complete_witness:
  "guest_main toy_guest toy_witness = claim_from_plaintext toy_guest toy_witness toy_response"
proof -
  have "guest_main toy_guest toy_witness = claim_from_plaintext toy_guest toy_witness (concat (map fst [(toy_response, 2 :: nat)]))"
  proof (rule notary_path_complete [OF toy_gcm_pair])
    show "ed25519_ok (ed_env toy_guest) (zeros 32)"
      by (simp add: toy_guest_def toy_ed25519_ok)
    show "parse_records (raw_inbound toy_witness) = Inr (hello_record (sample_server_hello (zeros 32)) # toy_records)"
      by (simp add: toy_witness_def toy_witness0_def toy_parse)
    show "filter (\<lambda>r. content_type r = 23) (hello_record (sample_server_hello (zeros 32)) # toy_records) =
        sealed_records toy_seal (bxor (zeros 16) (zeros 16)) (zeros 12) 0 [(toy_response, 2)]"
      by (simp only: toy_filter) (simp only: toy_records_def)
    show "notary toy_witness = Some \<lparr>att_bundle = sign_with_version (ed_env toy_guest) 7 (zeros 32) 1 [115] (hostname toy_witness)
           (commits_of (sha256 toy_guest) 0 (sealed_records toy_seal (bxor (zeros 16) (zeros 16)) (zeros 12) 0 [(toy_response, 2)]))
           (zeros 16) (zeros 12) (zeros 16) (zeros 12) (toy_binding (witness_hash toy_guest toy_witness0)),
           k_c_tx = zeros 16, k_c_rx = zeros 16\<rparr>"
      unfolding toy_records_def [symmetric]
      by (simp add: toy_witness_def toy_bundle_def) (simp add: toy_witness0_def toy_guest_def)
    show "handshake_transcript_hash (toy_binding (witness_hash toy_guest toy_witness0)) = witness_hash toy_guest toy_witness"
      by (simp add: toy_binding_def witness_hash_toy)
    show "parse_server_hello_key_share (raw_inbound toy_witness) =
        Inr (Some (server_epk (toy_binding (witness_hash toy_guest toy_witness0))))"
      by (simp add: toy_witness_def toy_witness0_def toy_server_share toy_binding_def session_binding_default_def)
  qed (simp_all add: BUNDLE_VERSION_BINDING_def)
  then show ?thesis by simp
qed

theorem padded_record_dropped_witness:
  "let r = sealed_record toy_seal (zeros 16) (zeros 12) 0 ([123, 125], 3);
       b = toy_bundle\<lparr>iv_rx := zeros 12, records := commits_of (sha256 toy_guest) 0 [r]\<rparr>
   in notary_record_step toy_guest b (zeros 16) 0 r = Inr [123, 125] \<and>
      app_record_step toy_guest (zeros 16) (zeros 12) 0 (record_to_bytes r) = Inr []"
proof -
  let ?r = "sealed_record toy_seal (zeros 16) (zeros 12) 0 ([123, 125], 3)"
  let ?b = "toy_bundle\<lparr>iv_rx := zeros 12, records := commits_of (sha256 toy_guest) 0 [?r]\<rparr>"
  have "notary_record_step toy_guest ?b (zeros 16) (word_of_nat 0) ?r = Inr [123, 125] \<and>
      app_record_step toy_guest (zeros 16) (iv_rx ?b) 0 (record_to_bytes ?r) = Inr []"
    by (rule padded_record_dropped [OF toy_gcm_pair, where pad = 3]) simp_all
  then show ?thesis by (simp add: Let_def)
qed

theorem binding_fixes_traffic_witness:
  "raw_inbound toy_witness = raw_inbound (toy_witness\<lparr>threshold := 0\<rparr>)"
proof -
  have b: "bundle_version toy_bundle = 1" "binding toy_bundle = toy_binding (witness_hash toy_guest toy_witness0)"
    by (simp_all add: toy_bundle_def sign_with_version_def Let_def)
  have c: "check_binding toy_guest w toy_bundle = Inr ()"
    if "raw_inbound w = raw_inbound toy_witness" "raw_outbound w = raw_outbound toy_witness" for w :: tls_witness
  proof -
    have "witness_hash toy_guest w = witness_hash toy_guest toy_witness0"
      unfolding witness_hash_toy [symmetric] by (simp add: witness_hash_def that)
    then show ?thesis
      using toy_server_share that
      by (simp add: check_binding_def b toy_binding_def session_binding_default_def toy_witness_def toy_witness0_def)
  qed
  have "inj_on (sha256 toy_guest) A" for A by (simp add: toy_guest_def)
  moreover have "raw_outbound toy_witness = []" by (simp add: toy_witness_def toy_witness0_def)
  ultimately show ?thesis
    using binding_fixes_traffic [OF c c, of toy_witness "toy_witness\<lparr>threshold := 0\<rparr>"]
    by (simp add: b BUNDLE_VERSION_BINDING_def)
qed


theorem verify_chain_sound_witness:
  "\<exists>root \<in> set (tls_server_roots (pki_env toy_guest2)). \<exists>anchor.
     parse_anchor_spki (pki_env toy_guest2) (snd root) = Inr anchor"
  using verify_chain_sound [OF toy_chain] by blast

end
