(* ===== verification/Transcript.thy ===== *)
theory Transcript
  imports Bundle Kdf Guest
begin

text \<open>
  The notary's view of a recorded handshake: \<open>notary/src/transcript.rs\<close> (parsers that return an
  \<open>Option\<close>, the transcript hashes after ServerHello, ServerFinished and ClientFinished, the
  certificate chain), \<open>parse_server_hello_key_share\<close> of \<open>notary/src/ecdh.rs\<close>, and
  \<open>notary/src/handshake.rs\<close> (the capture a client sends, and its verification).

  A \<open>break\<close> out of a loop and an early \<open>return None\<close> are the base cases of the recursions.
  \<open>decrypt_in_place\<close> of the crate \<open>aes-gcm\<close> takes the ciphertext with the tag behind it; the field
  \<open>gcm_open\<close> takes them apart, as the guest's \<open>decrypt_in_place_detached\<close> does.

  The lemmas show that the notary's record and message parsers agree with the guest's, that a capture
  is read back as written, what a verified capture guarantees, and when the two ServerHello parsers
  agree.
\<close>

record tls_env =
  hash :: hash_env
  gcm_open :: "bytes \<Rightarrow> bytes \<Rightarrow> bytes \<Rightarrow> bytes \<Rightarrow> bytes \<Rightarrow> bytes option"
  aes_circuit_hash :: bytes
  sha256_circuit_hash :: bytes

section \<open>Parsers\<close>

function records_opt_from :: "bytes \<Rightarrow> nat \<Rightarrow> raw_record list option" where
  "records_opt_from bs pos =
     (if pos + 5 \<le> length bs then
        let ct = bs ! pos;
            version = word_of_nat (from_be [bs ! (pos + 1), bs ! (pos + 2)]);
            len = from_be [bs ! (pos + 3), bs ! (pos + 4)];
            pos = pos + 5
        in if pos + len > length bs then None
           else map_option (Cons \<lparr>content_type = ct, legacy_version = version, payload = take len (drop pos bs)\<rparr>)
                  (records_opt_from bs (pos + len))
      else Some [])"
  by pat_completeness auto
termination
  by (relation "measure (\<lambda>(bs, pos). length bs - pos)") auto

declare records_opt_from.simps [simp del]

definition parse_records_opt :: "bytes \<Rightarrow> raw_record list option" where
  "parse_records_opt bs = records_opt_from bs 0"

function hs_messages_opt_from :: "bytes \<Rightarrow> nat \<Rightarrow> handshake_msg list option" where
  "hs_messages_opt_from pl p =
     (if p + 4 \<le> length pl then
        let ty = pl ! p;
            len = from_be [pl ! (p + 1), pl ! (p + 2), pl ! (p + 3)];
            p = p + 4
        in if p + len > length pl then None
           else map_option (Cons \<lparr>msg_type = ty, body = take len (drop p pl)\<rparr>)
                  (hs_messages_opt_from pl (p + len))
      else Some [])"
  by pat_completeness auto
termination
  by (relation "measure (\<lambda>(pl, p). length pl - p)") auto

declare hs_messages_opt_from.simps [simp del]

definition parse_handshake_messages_opt :: "bytes \<Rightarrow> handshake_msg list option" where
  "parse_handshake_messages_opt pl = hs_messages_opt_from pl 0"

definition hs_header_bytes :: "byte \<Rightarrow> bytes \<Rightarrow> bytes" where
  "hs_header_bytes ty b = ty # to_be 3 (length b)"

definition tls13_aad :: "nat \<Rightarrow> bytes" where
  "tls13_aad payload_len_after_enc = [0x17, 0x03, 0x03] @ to_be 2 payload_len_after_enc"

definition decrypt_hs_record :: "tls_env \<Rightarrow> bytes \<Rightarrow> bytes \<Rightarrow> u64 \<Rightarrow> raw_record \<Rightarrow> (bytes \<times> byte) option" where
  "decrypt_hs_record T key iv seq r =
     (if content_type r \<noteq> 0x17 then None
      else
        let nonce = xor_nonce iv seq; aad = tls13_aad (length (payload r)); buf = payload r
        in if length buf < 16 then None
           else Option.bind (gcm_open T key nonce aad (take (length buf - 16) buf) (drop (length buf - 16) buf))
                  (\<lambda>buf. if buf = [] then None else Some (butlast buf, last buf)))"

text \<open>The certificate list; every index and slice is in range after the checks.\<close>

function cert_entries_opt :: "bytes \<Rightarrow> nat \<Rightarrow> nat \<Rightarrow> bytes list option" where
  "cert_entries_opt bs list_end pos =
     (if pos < list_end then
        if list_end - pos < 3 then None
        else
          let cert_len = from_be [bs ! pos, bs ! (pos + 1), bs ! (pos + 2)]; pos = pos + 3
          in if list_end - pos < cert_len then None
             else
               let cert = take cert_len (drop pos bs); pos = pos + cert_len
               in if list_end - pos < 2 then None
                  else map_option (Cons cert)
                         (cert_entries_opt bs list_end (pos + 2 + from_be [bs ! pos, bs ! (pos + 1)]))
      else Some [])"
  by pat_completeness auto
termination
  by (relation "measure (\<lambda>(bs, list_end, pos). list_end - pos)") auto

declare cert_entries_opt.simps [simp del]

definition parse_cert_message_opt :: "bytes \<Rightarrow> bytes list option" where
  "parse_cert_message_opt bs =
     (if length bs = 0 then None
      else
        let pos = 1 + unat (bs ! 0)
        in if length bs < pos \<or> length bs - pos < 3 then None
           else
             let list_len = from_be [bs ! pos, bs ! (pos + 1), bs ! (pos + 2)];
                 pos = pos + 3;
                 list_end = pos + list_len
             in if list_end > length bs then None else cert_entries_opt bs list_end pos)"

section \<open>The ServerHello key share\<close>

function sh_ext_from :: "bytes \<Rightarrow> nat \<Rightarrow> nat \<Rightarrow> bytes option" where
  "sh_ext_from bs ext_end p =
     (if p + 4 \<le> ext_end then
        let ext_type = from_be [bs ! p, bs ! (p + 1)];
            ext_data_len = from_be [bs ! (p + 2), bs ! (p + 3)];
            p = p + 4
        in if p + ext_data_len > ext_end then None
           else if ext_type = 0x0033 \<and> ext_data_len \<ge> 2 + 32 \<and>
                   from_be [bs ! p, bs ! (p + 1)] = 0x001d \<and>
                   from_be [bs ! (p + 2), bs ! (p + 3)] = 32 \<and> p + 4 + 32 \<le> ext_end
                then Some (take 32 (drop (p + 4) bs))
                else sh_ext_from bs ext_end (p + ext_data_len)
      else None)"
  by pat_completeness auto
termination
  by (relation "measure (\<lambda>(bs, e, p). e - p)") auto

declare sh_ext_from.simps [simp del]

definition parse_sh_key_share :: "bytes \<Rightarrow> bytes option" where
  "parse_sh_key_share bs =
     (if length bs < 2 + 32 + 1 then None
      else
        let p = 34 + 1 + unat (bs ! 34)
        in if p + 2 > length bs then None
           else
             let p = p + 2
             in if p \<ge> length bs then None
                else
                  let p = p + 1 + unat (bs ! p)
                  in if p + 2 > length bs then None
                     else
                       let ext_end = p + 2 + from_be [bs ! p, bs ! (p + 1)]
                       in if ext_end > length bs then None else sh_ext_from bs ext_end (p + 2))"

function notary_key_share_from :: "bytes \<Rightarrow> nat \<Rightarrow> bytes option" where
  "notary_key_share_from inbound pos =
     (if pos + 5 \<le> length inbound then
        let ct = inbound ! pos;
            len = from_be [inbound ! (pos + 3), inbound ! (pos + 4)];
            pos = pos + 5
        in if pos + len > length inbound then None
           else
             let pl = take len (drop pos inbound);
                 pos = pos + len
             in if ct \<noteq> 22 \<or> length pl < 4 \<or> pl ! 0 \<noteq> 2 then notary_key_share_from inbound pos
                else case parse_sh_key_share (drop 4 pl) of
                       Some epk \<Rightarrow> Some epk
                     | None \<Rightarrow> notary_key_share_from inbound pos
      else None)"
  by pat_completeness auto
termination
  by (relation "measure (\<lambda>(inbound, pos). length inbound - pos)") auto

declare notary_key_share_from.simps [simp del]

definition notary_parse_server_hello_key_share :: "bytes \<Rightarrow> bytes option" where
  "notary_parse_server_hello_key_share inbound = notary_key_share_from inbound 0"

section \<open>Transcript hashes\<close>

definition transcript_after_server_hello :: "tls_env \<Rightarrow> bytes \<Rightarrow> bytes \<Rightarrow> bytes option" where
  "transcript_after_server_hello T outbound inbound =
     Option.bind (parse_records_opt outbound) (\<lambda>out.
     Option.bind (parse_records_opt inbound) (\<lambda>inp.
     Option.bind (find (\<lambda>r. content_type r = 22) out) (\<lambda>ch.
     Option.bind (find (\<lambda>r. content_type r = 22) inp) (\<lambda>sh.
     Some (sha256_of (hash T) (payload ch @ payload sh))))))"

definition reference_hs_secret :: "hash_env \<Rightarrow> bytes \<Rightarrow> bytes" where
  "reference_hs_secret H ikm =
     (let early = reference_hkdf_extract H (zeros 32) (zeros 32);
          derived1 = reference_hkdf_expand_label H early ''derived'' (reference_empty_hash H) 32
      in reference_hkdf_extract H derived1 ikm)"

definition reference_server_hs_keys :: "hash_env \<Rightarrow> bytes \<Rightarrow> bytes \<Rightarrow> bytes \<times> bytes" where
  "reference_server_hs_keys H ikm transcript_after_sh =
     (let server_hs = reference_hkdf_expand_label H (reference_hs_secret H ikm) ''s hs traffic'' transcript_after_sh 32
      in (take 16 (reference_hkdf_expand_label H server_hs ''key'' [] 16),
          take 12 (reference_hkdf_expand_label H server_hs ''iv'' [] 12)))"

definition reference_client_hs_keys :: "hash_env \<Rightarrow> bytes \<Rightarrow> bytes \<Rightarrow> bytes \<times> bytes" where
  "reference_client_hs_keys H ikm transcript_after_sh =
     (let client_hs = reference_hkdf_expand_label H (reference_hs_secret H ikm) ''c hs traffic'' transcript_after_sh 32
      in (take 16 (reference_hkdf_expand_label H client_hs ''key'' [] 16),
          take 12 (reference_hkdf_expand_label H client_hs ''iv'' [] 12)))"

text \<open>The messages to push, and whether a Finished was among them.\<close>

definition append_hs_messages :: "bytes list \<Rightarrow> bytes \<Rightarrow> byte \<Rightarrow> (bytes list \<times> bool) option" where
  "append_hs_messages messages pt inner_ct =
     (if inner_ct \<noteq> 22 then Some (messages, False)
      else map_option (\<lambda>ms. (messages @ map (\<lambda>m. hs_header_bytes (msg_type m) (body m) @ body m) ms,
                             \<exists>m \<in> set ms. msg_type m = 20))
             (parse_handshake_messages_opt pt))"

text \<open>
  The loop over the records of one direction. Once a Finished was seen the remaining records are
  skipped (server side) or not visited (client side).
\<close>

fun collect_hs ::
  "tls_env \<Rightarrow> bytes \<Rightarrow> bytes \<Rightarrow> u64 \<Rightarrow> bytes list \<Rightarrow> raw_record list \<Rightarrow> (bytes list \<times> bool) option" where
  "collect_hs T key iv seq messages [] = Some (messages, False)"
| "collect_hs T key iv seq messages (r # rs) =
     (if content_type r \<noteq> 0x17 then collect_hs T key iv seq messages rs
      else
        Option.bind (decrypt_hs_record T key iv seq r) (\<lambda>(pt, inner_ct).
        Option.bind (append_hs_messages messages pt inner_ct) (\<lambda>(messages, fin).
        if fin then Some (messages, True) else collect_hs T key iv (seq + 1) messages rs)))"

definition transcript_after_server_finished :: "tls_env \<Rightarrow> bytes \<Rightarrow> bytes \<Rightarrow> bytes \<Rightarrow> bytes option" where
  "transcript_after_server_finished T outbound inbound ikm =
     Option.bind (transcript_after_server_hello T outbound inbound) (\<lambda>after_sh.
     let (key, iv) = reference_server_hs_keys (hash T) ikm after_sh
     in Option.bind (parse_records_opt outbound) (\<lambda>out.
     Option.bind (parse_records_opt inbound) (\<lambda>inp.
     Option.bind (find (\<lambda>r. content_type r = 22) out) (\<lambda>ch.
     Option.bind (find (\<lambda>r. content_type r = 22) inp) (\<lambda>sh.
     Option.bind (collect_hs T key iv 0 [payload ch, payload sh] inp) (\<lambda>(messages, saw_server_finished).
     if \<not> saw_server_finished \<or> length messages < 6 then None
     else Some (sha256_of (hash T) (concat messages))))))))"

definition transcript_after_client_finished :: "tls_env \<Rightarrow> bytes \<Rightarrow> bytes \<Rightarrow> bytes \<Rightarrow> bytes option" where
  "transcript_after_client_finished T outbound inbound ikm =
     Option.bind (transcript_after_server_hello T outbound inbound) (\<lambda>after_sh.
     let (skey, siv) = reference_server_hs_keys (hash T) ikm after_sh;
         (ckey, civ) = reference_client_hs_keys (hash T) ikm after_sh
     in Option.bind (parse_records_opt outbound) (\<lambda>out.
     Option.bind (parse_records_opt inbound) (\<lambda>inp.
     Option.bind (find (\<lambda>r. content_type r = 22) out) (\<lambda>ch.
     Option.bind (find (\<lambda>r. content_type r = 22) inp) (\<lambda>sh.
     Option.bind (collect_hs T skey siv 0 [payload ch, payload sh] inp) (\<lambda>(messages, _).
     Option.bind (collect_hs T ckey civ 0 messages out) (\<lambda>(messages, saw_client_finished).
     if \<not> saw_client_finished \<or> length messages < 7 then None
     else Some (sha256_of (hash T) (concat messages)))))))))"

definition transcript_hashes_with_ikm :: "tls_env \<Rightarrow> bytes \<Rightarrow> bytes \<Rightarrow> bytes \<Rightarrow> (bytes \<times> bytes) option" where
  "transcript_hashes_with_ikm T outbound inbound ikm =
     Option.bind (transcript_after_server_hello T outbound inbound) (\<lambda>after_sh.
     Option.bind (transcript_after_server_finished T outbound inbound ikm) (\<lambda>after_sf.
     Some (after_sh, after_sf)))"

text \<open>The first Certificate message among the encrypted handshake records.\<close>

fun find_cert_chain :: "tls_env \<Rightarrow> bytes \<Rightarrow> bytes \<Rightarrow> u64 \<Rightarrow> raw_record list \<Rightarrow> bytes list option" where
  "find_cert_chain T key iv seq [] = None"
| "find_cert_chain T key iv seq (r # rs) =
     (if content_type r \<noteq> 0x17 then find_cert_chain T key iv seq rs
      else
        Option.bind (decrypt_hs_record T key iv seq r) (\<lambda>(pt, inner_ct).
        if inner_ct \<noteq> 22 then find_cert_chain T key iv (seq + 1) rs
        else Option.bind (parse_handshake_messages_opt pt) (\<lambda>ms.
          case find (\<lambda>m. msg_type m = 11) ms of
            Some m \<Rightarrow> parse_cert_message_opt (body m)
          | None \<Rightarrow> find_cert_chain T key iv (seq + 1) rs)))"

definition cert_chain_ders_from_handshake :: "tls_env \<Rightarrow> bytes \<Rightarrow> bytes \<Rightarrow> bytes \<Rightarrow> bytes list option" where
  "cert_chain_ders_from_handshake T outbound inbound ikm =
     Option.bind (transcript_after_server_hello T outbound inbound) (\<lambda>after_sh.
     let (key, iv) = reference_server_hs_keys (hash T) ikm after_sh
     in Option.bind (parse_records_opt inbound) (\<lambda>inp. find_cert_chain T key iv 0 inp))"

section \<open>Handshake captures\<close>

record handshake_capture =
  cap_server_epk :: bytes
  cap_cert_chain_hash :: bytes
  cap_outbound :: bytes
  cap_inbound :: bytes

definition handshake_transcript_hash_of :: "hash_env \<Rightarrow> bytes \<Rightarrow> bytes \<Rightarrow> bytes" where
  "handshake_transcript_hash_of H outbound inbound =
     sha256_of H (to_be 8 (length outbound) @ outbound @ to_be 8 (length inbound) @ inbound)"

definition key_schedule_context_hash_of :: "hash_env \<Rightarrow> bytes \<Rightarrow> bytes \<Rightarrow> bytes" where
  "key_schedule_context_hash_of H after_sh after_sf = sha256_of H (after_sh @ after_sf)"

definition cert_chain_hash_of :: "hash_env \<Rightarrow> bytes list \<Rightarrow> bytes" where
  "cert_chain_hash_of H certs = sha256_of H (concat (map (\<lambda>der. to_be 4 (length der) @ der) certs))"

definition MAX_HANDSHAKE_BYTES :: nat where
  "MAX_HANDSHAKE_BYTES = 256 * 1024"

text \<open>
  The bytes \<open>write_handshake_capture\<close> puts on the channel; \<open>len() as u32\<close> is compared with the bound,
  so a capture of 2^32 bytes would pass the check with a truncated length.
\<close>

definition write_handshake_capture :: "handshake_capture \<Rightarrow> string + bytes" where
  "write_handshake_capture cap =
     (if length (cap_outbound cap) mod 2 ^ 32 > MAX_HANDSHAKE_BYTES \<or>
         length (cap_inbound cap) mod 2 ^ 32 > MAX_HANDSHAKE_BYTES
      then Inl ''handshake capture exceeds limit''
      else Inr (cap_server_epk cap @ cap_cert_chain_hash cap @ to_be 4 (length (cap_outbound cap)) @ cap_outbound cap @
                to_be 4 (length (cap_inbound cap)) @ cap_inbound cap))"

text \<open>\<open>read_bytes\<close> takes its bytes from the front of the stream, and fails when they are not there.\<close>

definition read_bytes :: "nat \<Rightarrow> bytes \<Rightarrow> string + bytes \<times> bytes" where
  "read_bytes n s = (if length s < n then Inl ''unexpected end of stream'' else Inr (take n s, drop n s))"

definition read_handshake_capture :: "bytes \<Rightarrow> string + handshake_capture \<times> bytes" where
  "read_handshake_capture s =
     sbind (read_bytes 32 s) (\<lambda>(epk, s).
     sbind (read_bytes 32 s) (\<lambda>(cert_hash, s).
     sbind (read_bytes 4 s) (\<lambda>(out_len_buf, s).
     if from_be out_len_buf > MAX_HANDSHAKE_BYTES then Inl ''outbound handshake length exceeds limit''
     else
     sbind (read_bytes (from_be out_len_buf) s) (\<lambda>(outbound, s).
     sbind (read_bytes 4 s) (\<lambda>(in_len_buf, s).
     if from_be in_len_buf > MAX_HANDSHAKE_BYTES then Inl ''inbound handshake length exceeds limit''
     else
     sbind (read_bytes (from_be in_len_buf) s) (\<lambda>(inbound, s).
     Inr (\<lparr>cap_server_epk = epk, cap_cert_chain_hash = cert_hash, cap_outbound = outbound,
           cap_inbound = inbound\<rparr>, s)))))))"

definition GARBLING_FULL_AUTH :: byte where
  "GARBLING_FULL_AUTH = 3"

definition production_session_binding :: "tls_env \<Rightarrow> session_binding" where
  "production_session_binding T = session_binding_default\<lparr>circuit_aes_sha256 := aes_circuit_hash T,
     circuit_sha256_compress_sha256 := sha256_circuit_hash T, garbling_mode := GARBLING_FULL_AUTH\<rparr>"

record verified_handshake =
  vh_after_sh :: bytes
  vh_after_sf :: bytes
  vh_binding :: session_binding

definition verify_handshake_capture :: "tls_env \<Rightarrow> handshake_capture \<Rightarrow> bytes \<Rightarrow> string + verified_handshake" where
  "verify_handshake_capture T cap ikm =
     (case notary_parse_server_hello_key_share (cap_inbound cap) of
        None \<Rightarrow> Inl ''ServerHello key_share missing from inbound capture''
      | Some epk \<Rightarrow>
        if epk \<noteq> cap_server_epk cap then Inl ''server_epk mismatch''
        else
          case cert_chain_ders_from_handshake T (cap_outbound cap) (cap_inbound cap) ikm of
            None \<Rightarrow> Inl ''could not parse Certificate chain from handshake capture''
          | Some cert_ders \<Rightarrow>
            let cert_hash = cert_chain_hash_of (hash T) cert_ders
            in if cert_hash \<noteq> cap_cert_chain_hash cap then Inl ''cert_chain_hash mismatch''
               else
                 case transcript_hashes_with_ikm T (cap_outbound cap) (cap_inbound cap) ikm of
                   None \<Rightarrow> Inl ''transcript hash recomputation failed on notary''
                 | Some (after_sh, after_sf) \<Rightarrow>
                   Inr \<lparr>vh_after_sh = after_sh, vh_after_sf = after_sf,
                        vh_binding = (production_session_binding T)\<lparr>server_epk := cap_server_epk cap,
                          cert_chain_hash := cert_hash,
                          handshake_transcript_hash := handshake_transcript_hash_of (hash T) (cap_outbound cap) (cap_inbound cap),
                          key_schedule_context_hash := key_schedule_context_hash_of (hash T) after_sh after_sf\<rparr>\<rparr>)"

section \<open>Agreement with the guest's parsers\<close>

lemma records_opt_from_agrees:
  "records_opt_from bs pos = (case parse_records_from bs pos of Inr rs \<Rightarrow> Some rs | Inl _ \<Rightarrow> None)"
proof (induction bs pos rule: records_opt_from.induct)
  case (1 bs pos)
  then show ?case
    by (subst records_opt_from.simps, subst parse_records_from.simps) (auto simp: Let_def split: sum.splits)
qed

lemma parse_records_opt_eq:
  "parse_records_opt bs = (case parse_records bs of Inr rs \<Rightarrow> Some rs | Inl _ \<Rightarrow> None)"
  by (simp add: parse_records_opt_def parse_records_def records_opt_from_agrees)

text \<open>
  The notary's record parser is the guest's: it returns \<open>None\<close> exactly where the guest panics, and
  the same records otherwise, so the two read a recorded stream in the same way.
\<close>

theorem record_parsers_agree:
  "parse_records_opt bs = (case parse_records bs of Inr rs \<Rightarrow> Some rs | Inl _ \<Rightarrow> None)"
  by (rule parse_records_opt_eq)

lemma hs_messages_opt_of_guest:
  "parse_handshake_messages_from pl p = Inr ms \<Longrightarrow> hs_messages_opt_from pl p = Some ms"
proof (induction pl p arbitrary: ms rule: parse_handshake_messages_from.induct)
  case (1 pl p)
  show ?case
  proof (cases "p < length pl")
    case False
    with "1.prems" show ?thesis
      by (subst (asm) parse_handshake_messages_from.simps, subst hs_messages_opt_from.simps) auto
  next
    case True
    let ?len = "from_be [0, pl ! (p + 1), pl ! (p + 2), pl ! (p + 3)]"
    from "1.prems" True obtain ms' where hdr: "\<not> length pl - p < 4" and fits: "\<not> length pl - (p + 4) < ?len"
      and rest: "parse_handshake_messages_from pl (p + 4 + ?len) = Inr ms'"
      and ms: "ms = \<lparr>msg_type = pl ! p, body = take ?len (drop (p + 4) pl)\<rparr> # ms'"
      by (subst (asm) parse_handshake_messages_from.simps) (auto simp: Let_def fault_simps split: if_splits)
    from "1.IH" [OF True hdr refl refl fits rest] show ?thesis
      using hdr fits by (subst hs_messages_opt_from.simps) (simp add: ms Let_def)
  qed
qed

lemma hs_header_bytes_eq: "length (body m) < 16777216 \<Longrightarrow> hs_header_bytes (msg_type m) (body m) = hs_header m"
  by (simp add: hs_header_bytes_def hs_header_to_be)

text \<open>What the guest's parser accepts, the notary's appends to its transcript byte for byte.\<close>

lemma append_hs_messages_guest:
  assumes "parse_handshake_messages pt = Inr ms"
  shows "append_hs_messages messages pt 22 = Some (messages @ map hs_bytes ms, \<exists>m \<in> set ms. msg_type m = 20)"
proof -
  have "list_all (\<lambda>m. length (body m) < 16777216) ms"
    using parse_handshake_from_sound [of pt 0 ms] assms by (simp add: parse_handshake_messages_def)
  then have "map (\<lambda>m. hs_header_bytes (msg_type m) (body m) @ body m) ms = map hs_bytes ms"
    by (auto simp: list_all_iff hs_bytes_def hs_header_bytes_eq)
  moreover have "parse_handshake_messages_opt pt = Some ms"
    using hs_messages_opt_of_guest assms by (simp add: parse_handshake_messages_def parse_handshake_messages_opt_def)
  ultimately show ?thesis by (simp add: append_hs_messages_def)
qed

section \<open>Captures\<close>

lemma read_bytes_append: "length a = n \<Longrightarrow> read_bytes n (a @ s) = Inr (a, s)"
  by (simp add: read_bytes_def)

definition capture_wf :: "handshake_capture \<Rightarrow> bool" where
  "capture_wf cap \<longleftrightarrow> length (cap_server_epk cap) = 32 \<and> length (cap_cert_chain_hash cap) = 32 \<and>
     length (cap_outbound cap) < 2 ^ 32 \<and> length (cap_inbound cap) < 2 ^ 32"

text \<open>
  C25. A capture the writer accepts is read back by the notary, which leaves the rest of the stream.
\<close>

theorem handshake_capture_roundtrip:
  assumes "capture_wf cap" and "write_handshake_capture cap = Inr s"
  shows "read_handshake_capture (s @ rest) = Inr (cap, rest)"
proof -
  have small: "length (cap_outbound cap) \<le> MAX_HANDSHAKE_BYTES" "length (cap_inbound cap) \<le> MAX_HANDSHAKE_BYTES"
    and s: "s = cap_server_epk cap @ cap_cert_chain_hash cap @ to_be 4 (length (cap_outbound cap)) @ cap_outbound cap @
                to_be 4 (length (cap_inbound cap)) @ cap_inbound cap"
    using assms by (auto simp: write_handshake_capture_def capture_wf_def split: if_splits)
  have "length (cap_outbound cap) mod 4294967296 = length (cap_outbound cap)"
    "length (cap_inbound cap) mod 4294967296 = length (cap_inbound cap)"
    using assms(1) by (simp_all add: capture_wf_def)
  then show ?thesis
    using assms(1) small
    by (simp add: read_handshake_capture_def s read_bytes_append capture_wf_def del: to_be.simps)
qed

definition sample_capture :: handshake_capture where
  "sample_capture = \<lparr>cap_server_epk = zeros 32, cap_cert_chain_hash = zeros 32, cap_outbound = [1], cap_inbound = [2, 3]\<rparr>"

theorem handshake_capture_roundtrip_witness:
  "\<exists>s. write_handshake_capture sample_capture = Inr s \<and> read_handshake_capture (s @ [9]) = Inr (sample_capture, [9])"
proof -
  have "capture_wf sample_capture" by (simp add: capture_wf_def sample_capture_def)
  moreover have "\<exists>s. write_handshake_capture sample_capture = Inr s"
    by (simp add: write_handshake_capture_def sample_capture_def MAX_HANDSHAKE_BYTES_def)
  ultimately show ?thesis using handshake_capture_roundtrip by blast
qed

lemma verify_handshake_capture_Inr:
  assumes "verify_handshake_capture T cap ikm = Inr vh"
  shows "notary_parse_server_hello_key_share (cap_inbound cap) = Some (cap_server_epk cap) \<and>
    transcript_hashes_with_ikm T (cap_outbound cap) (cap_inbound cap) ikm = Some (vh_after_sh vh, vh_after_sf vh) \<and>
    (\<exists>ders. cert_chain_ders_from_handshake T (cap_outbound cap) (cap_inbound cap) ikm = Some ders \<and>
       cert_chain_hash (vh_binding vh) = cert_chain_hash_of (hash T) ders) \<and>
    server_epk (vh_binding vh) = cap_server_epk cap \<and>
    handshake_transcript_hash (vh_binding vh) = handshake_transcript_hash_of (hash T) (cap_outbound cap) (cap_inbound cap)"
  using assms
  by (auto simp: verify_handshake_capture_def Let_def split: option.splits if_splits)

section \<open>The two ServerHello parsers\<close>

lemma sh_ext_from_found:
  assumes "list_all tlv16_ok es" and "list_all (\<lambda>e. fst e \<noteq> 0x0033) es" and "length key = 32"
    and "bs = p @ concat (map tlv16 es) @ tlv16 (0x0033, tlv16 (0x001d, key)) @ rest @ tail"
  shows "sh_ext_from bs (length bs - length tail) (length p) = Some key"
  using assms(1,2,4)
proof (induction es arbitrary: p)
  case Nil
  let ?e = "(0x0033, tlv16 (0x001d, key)) :: nat \<times> bytes"
  have ok: "tlv16_ok ?e" using assms(3) by (simp add: tlv16_ok_def)
  have bs: "bs = p @ tlv16 ?e @ rest @ tail" using Nil by simp
  note r = tlv16_reads [OF ok bs, unfolded fst_conv snd_conv]
  have ok2: "tlv16_ok (0x001d, key)" using assms(3) by (simp add: tlv16_ok_def)
  have bs2: "bs = (p @ to_be 2 0x0033 @ to_be 2 36) @ tlv16 (0x001d, key) @ rest @ tail"
    using assms(3) by (simp add: bs tlv16_def del: to_be.simps)
  have "length (p @ to_be 2 0x0033 @ to_be 2 36) = length p + 4" by (simp del: to_be.simps)
  note r2 = tlv16_read [OF ok2 bs2, unfolded fst_conv snd_conv this]
  have t: "take 32 (drop (length p + 4 + 4) bs) = key" using r2(3) assms(3) by simp
  have g: "from_be [bs ! (length p + 4), bs ! (length p + 4 + 1)] = 29"
    "from_be [bs ! (length p + 4 + 2), bs ! (length p + 4 + 3)] = 32"
    using r2(1,2) assms(3) by simp_all
  have l: "length bs - length tail = length p + 40 + length rest" using bs assms(3) by simp
  show ?case
    unfolding l
    by (subst sh_ext_from.simps) (simp only: Let_def r(1,2) g t, simp add: assms(3))
next
  case (Cons e es)
  have "sh_ext_from bs (length bs - length tail) (length (p @ tlv16 e)) = Some key"
    using Cons by (intro Cons.IH) simp_all
  moreover have "tlv16_ok e" "fst e \<noteq> 0x0033" using Cons.prems by simp_all
  moreover have bs: "bs = p @ tlv16 e @ (concat (map tlv16 es) @ tlv16 (0x0033, tlv16 (0x001d, key)) @ rest @ tail)"
    using Cons.prems by simp
  note r = tlv16_reads [OF \<open>tlv16_ok e\<close> bs]
  have "length p + 4 + length (snd e) \<le> length bs - length tail" by (simp add: bs)
  ultimately show ?case
    by (subst sh_ext_from.simps) (simp add: Let_def r add.assoc)
qed

lemma parse_sh_key_share_body:
  assumes "length fixed = 34" and "length sid < 256" and "length suite = 2" and "length exts < 65536"
    and "exts = concat (map tlv16 es) @ tlv16 (0x0033, tlv16 (0x001d, key)) @ rest"
    and "list_all tlv16_ok es" and "list_all (\<lambda>e. fst e \<noteq> 0x0033) es" and "length key = 32"
  shows "parse_sh_key_share (server_hello_body fixed sid suite 0 exts @ tail) = Some key"
proof -
  let ?p = "fixed @ to_be 1 (length sid) @ sid @ suite @ [0] @ to_be 2 (length exts)"
  let ?bs = "server_hello_body fixed sid suite 0 exts @ tail"
  have bs: "?bs = ?p @ concat (map tlv16 es) @ tlv16 (0x0033, tlv16 (0x001d, key)) @ rest @ tail"
    by (simp add: server_hello_body_def assms(5) del: to_be.simps)
  from sh_ext_from_found [OF assms(6-8) bs]
  have e: "sh_ext_from ?bs (length ?bs - length tail) (length ?p) = Some key" .
  have len: "length ?p = 40 + length sid" "length ?bs = 40 + length sid + length exts + length tail"
    using assms(1,3) by (simp_all add: server_hello_body_def del: to_be.simps)
  have "to_be 1 x = [word_of_nat x]" "to_be 2 x = [word_of_nat (x div 256), word_of_nat x]" for x
    by (simp_all add: to_be_numeral)
  then have "?bs ! 34 = word_of_nat (length sid)" "?bs ! (37 + length sid) = 0"
    "?bs ! (38 + length sid) = word_of_nat (length exts div 256)" "?bs ! (39 + length sid) = word_of_nat (length exts)"
    using assms(1,3) by (simp_all add: server_hello_body_def nth_append)
  moreover have "sh_ext_from ?bs (40 + length sid + length exts) (40 + length sid) = Some key"
  proof -
    have "40 + length sid + length exts = length ?bs - length tail" by (simp only: len(2) diff_add_inverse2)
    with e show ?thesis by (simp only: len(1))
  qed
  moreover define bs where "bs = ?bs"
  ultimately show ?thesis
    using assms(2,4) len(2) unfolding bs_def [symmetric]
    by (simp add: parse_sh_key_share_def Let_def unat_byte_of_nat add.commute add.left_commute)
qed

lemma notary_key_share_first_record:
  assumes "content_type r = 22" and "length (payload r) < 65536" and "payload r ! 0 = 2" and "length (payload r) \<ge> 4"
    and "parse_sh_key_share (drop 4 (payload r)) = Some key"
  shows "notary_parse_server_hello_key_share (record_to_bytes r @ rest) = Some key"
proof (cases r)
  case (fields ct v pl)
  have "record_to_bytes r = ct # word_of_nat (unat v div 256) # ucast v #
      word_of_nat (length pl div 256) # word_of_nat (length pl) # pl"
    by (simp add: fields record_to_bytes_def to_be_numeral)
  then show ?thesis
    using assms unfolding notary_parse_server_hello_key_share_def
    by (subst notary_key_share_from.simps) (simp add: fields Let_def)
qed

lemma notary_hello_share:
  assumes "content_type r = 22" and "payload r = hs_bytes sh @ tail" and "length (payload r) < 65536"
    and "msg_type sh = 2"
    and "body sh = server_hello_body fixed sid suite 0 (concat (map tlv16 es) @ tlv16 (0x0033, tlv16 (0x001d, key)) @ rest)"
    and "length fixed = 34" and "length sid < 256" and "length suite = 2"
    and "length (concat (map tlv16 es) @ tlv16 (0x0033, tlv16 (0x001d, key)) @ rest) < 65536"
    and "list_all tlv16_ok es" and "list_all (\<lambda>e. fst e \<noteq> 0x0033) es" and "length key = 32"
  shows "notary_parse_server_hello_key_share (record_to_bytes r @ inbound) = Some key"
proof (rule notary_key_share_first_record [OF assms(1,3)])
  have h: "hs_bytes sh = hs_header sh @ body sh" "length (hs_header sh) = 4" "hs_header sh ! 0 = 2"
    using assms(4) by (simp_all add: hs_bytes_def hs_header_def Let_def)
  then show "payload r ! 0 = 2" "length (payload r) \<ge> 4" by (simp_all add: assms(2) nth_append)
  show "parse_sh_key_share (drop 4 (payload r)) = Some key"
    using parse_sh_key_share_body [OF assms(6-9) refl assms(10-12)] h by (simp add: assms(2,5))
qed

lemma sample_notary_share:
  "notary_parse_server_hello_key_share (record_to_bytes (hello_record (sample_server_hello (zeros 32))) @ rest) = Some (zeros 32)"
  by (rule notary_hello_share [where es = "[]" and rest = "[]" and tail = "[]" and fixed = "zeros 34"
        and sid = "[]" and suite = "[19, 1]" and sh = "sample_server_hello (zeros 32)"])
    (simp_all add: hello_record_def length_sample_hellos, simp_all add: sample_server_hello_def)

text \<open>
  On an inbound stream that starts with a record holding a ServerHello with compression method 0,
  the notary finds the X25519 key share. It reads the compression method, a single byte, as the length
  of a vector, so the method 0 matters; on such streams it returns what the guest's parser returns.
\<close>

theorem notary_server_hello_key_share_found:
  assumes "content_type r = 22" and "payload r = hs_bytes sh @ tail" and "length (payload r) < 65536"
    and "msg_type sh = 2"
    and "body sh = server_hello_body fixed sid suite 0 (concat (map tlv16 es) @ tlv16 (0x0033, tlv16 (0x001d, key)) @ rest)"
    and "length fixed = 34" and "length sid < 256" and "length suite = 2"
    and "length (concat (map tlv16 es) @ tlv16 (0x0033, tlv16 (0x001d, key)) @ rest) < 65536"
    and "list_all tlv16_ok es" and "list_all (\<lambda>e. fst e \<noteq> 0x0033) es" and "length key = 32"
  shows "notary_parse_server_hello_key_share (record_to_bytes r @ inbound) = Some key"
  using assms by (rule notary_hello_share)

theorem notary_server_hello_key_share_found_example:
  "notary_parse_server_hello_key_share (record_to_bytes (hello_record (sample_server_hello (zeros 32)))) = Some (zeros 32)"
proof -
  have "notary_parse_server_hello_key_share (record_to_bytes (hello_record (sample_server_hello (zeros 32))) @ []) = Some (zeros 32)"
    by (rule notary_server_hello_key_share_found [where es = "[]" and rest = "[]" and tail = "[]" and fixed = "zeros 34"
          and sid = "[]" and suite = "[19, 1]" and sh = "sample_server_hello (zeros 32)"])
      (simp_all add: hello_record_def length_sample_hellos, simp_all add: sample_server_hello_def)
  then show ?thesis by simp
qed

definition compressed_hello :: raw_record where
  "compressed_hello = hello_record \<lparr>msg_type = 2,
     body = server_hello_body (zeros 34) [] [19, 1] 200 (tlv16 (0x0033, tlv16 (0x001d, zeros 32)))\<rparr>"

text \<open>
  The two parsers disagree on a ServerHello whose compression byte is not 0: the guest, which skips
  one byte, finds the key share; the notary skips that many bytes more and finds none.
\<close>

theorem server_hello_parsers_disagree:
  "parse_server_hello_key_share (record_to_bytes compressed_hello) = Inr (Some (zeros 32)) \<and>
   notary_parse_server_hello_key_share (record_to_bytes compressed_hello) = None"
proof
  let ?m = "\<lparr>msg_type = 2, body = server_hello_body (zeros 34) [] [19, 1] 200 (tlv16 (0x0033, tlv16 (0x001d, zeros 32)))\<rparr>"
  have len: "length (body ?m) = 80" by (simp add: server_hello_body_def del: to_be.simps)
  have "parse_records (record_to_bytes (hello_record ?m)) = Inr [hello_record ?m]"
    using parse_hello_record(1) [of ?m "[]"] len by simp
  moreover have "parse_handshake_messages (payload (hello_record ?m)) = Inr [?m]"
    using parse_hello_record(2) [of ?m "[]"] len by simp
  ultimately show "parse_server_hello_key_share (record_to_bytes compressed_hello) = Inr (Some (zeros 32))"
    using key_share_server_encoded [of "[]" "zeros 32" "[]" "[]"]
    by (simp add: parse_server_hello_key_share_def compressed_hello_def)
      (simp add: hello_record_def server_hello_extensions_body parse_key_share_server_def)
  have "parse_sh_key_share (body ?m) = None"
    by (simp add: parse_sh_key_share_def Let_def server_hello_body_def nth_append del: to_be.simps)
      (simp add: to_be_numeral)
  then have none: "parse_sh_key_share (drop 4 (payload compressed_hello)) = None"
    by (simp add: compressed_hello_def hello_record_def hs_bytes_def hs_header_def Let_def)
  have pl: "length (payload compressed_hello) = 84"
    by (simp add: compressed_hello_def hello_record_def len [simplified])
  have rec: "record_to_bytes compressed_hello = 22 # 3 # 3 # 0 # 84 # payload compressed_hello"
    using pl by (simp add: record_to_bytes_def to_be_numeral) (simp add: compressed_hello_def hello_record_def)
  show "notary_parse_server_hello_key_share (record_to_bytes compressed_hello) = None"
    unfolding notary_parse_server_hello_key_share_def
    by (subst notary_key_share_from.simps) (simp add: rec none Let_def pl, simp add: notary_key_share_from.simps pl)
qed

end
