(* ===== verification/Agreement.thy ===== *)
theory Agreement
  imports Transcript
begin

text \<open>
  The guest and the notary crate implement parts of TLS 1.3 twice. This theory relates the two: the
  guest's key schedule (\<open>hkdf\<close> crate) is the notary's reference key schedule (HMAC over labels), their
  handshake transcripts have the same hash, and the binding the notary signs is the one the guest
  checks. The toy libraries at the end run both on one session.
\<close>

section \<open>The guest and the notary derive the same keys\<close>

text \<open>
  What the guest's crates \<open>sha2\<close>, \<open>hmac\<close> and \<open>hkdf\<close> document: the same hash and HMAC, extract is an
  HMAC, and expanding to at most 32 bytes is one HMAC, cut off (RFC 5869).
\<close>

definition guest_hashes_ok :: "'j guest_env \<Rightarrow> hash_env \<Rightarrow> bool" where
  "guest_hashes_ok E H \<longleftrightarrow> hash_env_ok H \<and> sha256 E = sha256_of H \<and> hkdf_extract E = hmac_of H \<and>
     (\<forall>prk info n. length prk = 32 \<and> n \<le> 32 \<longrightarrow> hkdf_expand E prk info n = Some (take n (hmac_of H prk (info @ [1]))))"

lemma expand_label_reference:
  assumes "guest_hashes_ok E H" and "length prk = 32" and "n \<le> 32"
  shows "expand_label E prk label ctx n = Inr (take n (reference_hkdf_expand_label H prk label ctx n))"
  using assms
  by (simp add: guest_hashes_ok_def expand_label_def reference_hkdf_expand_label_def hkdf_expand_label_info_def Let_def
      del: to_be.simps)

lemma expand_label_reference32:
  assumes "guest_hashes_ok E H" and "length prk = 32"
  shows "expand_label E prk label ctx 32 = Inr (reference_hkdf_expand_label H prk label ctx 32)"
  using expand_label_reference [OF assms, of 32] assms length_hmac_of [of H prk]
  by (simp add: reference_hkdf_expand_label_def guest_hashes_ok_def)

lemma guest_key_schedule_reference:
  assumes "guest_hashes_ok E H" and "guest_key_schedule E w = Inr k"
  shows "\<exists>epk. parse_server_hello_key_share (raw_inbound w) = Inr (Some epk) \<and>
    gk_server_hs k = reference_hkdf_expand_label H (reference_hs_secret H (x25519_dh E (esk_client w) epk))
      ''s hs traffic'' (sha256_of H (gk_ch k @ gk_sh k)) 32 \<and>
    gk_master k = reference_hkdf_extract H (reference_hkdf_expand_label H
      (reference_hs_secret H (x25519_dh E (esk_client w) epk)) ''derived'' (reference_empty_hash H) 32) (zeros 32)"
proof -
  have len: "length (hmac_of H s m) = 32" if "length s = 32" for s m
    using assms(1) that length_hmac_of by (simp add: guest_hashes_ok_def)
  have ex: "hkdf_extract E = hmac_of H" "sha256 E = sha256_of H" using assms(1) by (simp_all add: guest_hashes_ok_def)
  have l2: "length (reference_hkdf_expand_label H s l c n) = 32" if "length s = 32" for s l c n
    using len that by (simp add: reference_hkdf_expand_label_def)
  show ?thesis
    using assms(2)
    by (auto simp: guest_key_schedule_def fault_simps Let_def ex len l2 expand_label_reference32 [OF assms(1)]
        reference_hs_secret_def reference_hkdf_extract_def reference_empty_hash_def empty_hash_def)
qed

text \<open>
  C19. On the self-proving path the guest decrypts the application records with the server write key and
  IV of the notary crate's reference key schedule, for the X25519 secret of the session and the
  transcript through the first six messages.
\<close>

theorem guest_keys_are_reference:
  assumes "guest_hashes_ok E H" and "guest_key_schedule E w = Inr k" and "guest_handshake E k = Inr s"
  shows "\<exists>epk. parse_server_hello_key_share (raw_inbound w) = Inr (Some epk) \<and>
    (case reference_tls13_client_traffic H (x25519_dh E (esk_client w) epk) (sha256_of H (gk_ch k @ gk_sh k))
            (sha256_of H (concat (take 6 (hs_messages s)))) of
       (tx_key, tx_iv, rx_key, rx_iv) \<Rightarrow> guest_app_plaintext E k s = app_plaintext_from E rx_key rx_iv 0 (hs_app s))"
proof -
  from guest_key_schedule_reference [OF assms(1,2)] obtain epk where
    epk: "parse_server_hello_key_share (raw_inbound w) = Inr (Some epk)"
    and m: "gk_master k = reference_hkdf_extract H (reference_hkdf_expand_label H
      (reference_hs_secret H (x25519_dh E (esk_client w) epk)) ''derived'' (reference_empty_hash H) 32) (zeros 32)"
    by blast
  have ok: "hash_env_ok H" and sha: "sha256 E = sha256_of H" using assms(1) by (simp_all add: guest_hashes_ok_def)
  have l2: "length (reference_hkdf_expand_label H s l c n) = 32" if "length s = 32" for s l c n
    using length_hmac_of [OF ok that] by (simp add: reference_hkdf_expand_label_def)
  have l1: "length (reference_hkdf_extract H s i) = 32" if "length s = 32" for s i
    using length_hmac_of [OF ok that] by (simp add: reference_hkdf_extract_def)
  have "length (gk_master k) = 32"
    by (simp add: m l1 l2 reference_hs_secret_def Let_def)
  then have "guest_app_plaintext E k s =
      (let server_app = reference_hkdf_expand_label H (gk_master k) ''s ap traffic''
             (sha256_of H (concat (take 6 (hs_messages s)))) 32
       in app_plaintext_from E (take 16 (reference_hkdf_expand_label H server_app ''key'' [] 16))
            (take 12 (reference_hkdf_expand_label H server_app ''iv'' [] 12)) 0 (hs_app s))"
    by (simp add: guest_app_plaintext_def Let_def expand_label_reference32 [OF assms(1)]
        expand_label_reference [OF assms(1)] l2 sha)
  then show ?thesis
    using epk m by (simp add: reference_tls13_client_traffic_def reference_hs_secret_def Let_def)
qed

section \<open>The guest and the notary hash the same transcript\<close>

lemma decrypt_hs_record_guest:
  assumes "gcm_open T = aes_gcm_open E" and "content_type r = 23" and "legacy_version r = 0x0303"
    and "decrypt_record E key iv n r = Inr (pt, ct)"
  shows "decrypt_hs_record T key iv n r = Some (pt, ct)"
proof -
  have "to_be 2 (unat (0x0303 :: u16)) = [3, 3]" by (simp add: to_be_numeral)
  then have "record_aad r = tls13_aad (length (payload r))"
    by (simp add: record_aad_def tls13_aad_def assms(2,3) del: to_be.simps)
  with assms show ?thesis
    by (auto simp: decrypt_record_def decrypt_hs_record_def Let_def split: if_splits option.splits)
qed

lemma hs_messages_fold_done:
  assumes "sfold hs_message_step s ms = Inr s'"
  shows "hs_done s' \<longleftrightarrow> hs_done s \<or> (\<exists>m \<in> set ms. msg_type m = 20)"
  using assms
proof (induction ms arbitrary: s)
  case Nil
  then show ?case by simp
next
  case (Cons m ms)
  then obtain s1 where s1: "hs_message_step s m = Inr s1" "sfold hs_message_step s1 ms = Inr s'"
    by (auto simp: fault_simps)
  have "hs_done s1 \<longleftrightarrow> hs_done s \<or> msg_type m = 20"
    using s1(1) by (auto simp: hs_message_step_def fault_simps Let_def split: if_splits)
  with Cons.IH [OF s1(2)] show ?case by auto
qed

lemma hs_done_stays:
  assumes "sfold (hs_record_step E key iv) s rs = Inr s'" and "hs_done s"
  shows "hs_messages s' = hs_messages s \<and> hs_done s'"
  using assms
proof (induction rs arbitrary: s)
  case Nil
  then show ?case by simp
next
  case (Cons r rs)
  then obtain s1 where s1: "hs_record_step E key iv s r = Inr s1" "sfold (hs_record_step E key iv) s1 rs = Inr s'"
    by (auto simp: fault_simps)
  then have "hs_messages s1 = hs_messages s" "hs_done s1"
    using Cons.prems(2) by (auto simp: hs_record_step_def split: if_splits)
  with Cons.IH [OF s1(2)] show ?case by simp
qed

lemma collect_hs_agrees:
  assumes "gcm_open T = aes_gcm_open E"
    and "sfold (hs_record_step E key iv) s rs = Inr s'" and "\<not> hs_done s" and "hs_done s'"
    and "\<forall>r \<in> set rs. content_type r = 23 \<longrightarrow> legacy_version r = 0x0303"
    and "\<forall>r \<in> set rs. content_type r = 23 \<longrightarrow> (\<forall>n pt ct. decrypt_record E key iv n r = Inr (pt, ct) \<longrightarrow> ct = 22)"
  shows "collect_hs T key iv (hs_seq s) (hs_messages s) rs = Some (hs_messages s', True)"
  using assms(2-)
proof (induction rs arbitrary: s)
  case Nil
  then show ?case by simp
next
  case (Cons r rs)
  then obtain s1 where s1: "hs_record_step E key iv s r = Inr s1" "sfold (hs_record_step E key iv) s1 rs = Inr s'"
    by (auto simp: fault_simps)
  show ?case
  proof (cases "content_type r = 23")
    case False
    with s1 Cons show ?thesis by (auto simp: hs_record_step_def)
  next
    case True
    with s1(1) Cons.prems(2) obtain pt ct where d: "decrypt_record E key iv (hs_seq s) r = Inr (pt, ct)"
      by (auto simp: hs_record_step_def fault_simps)
    then have ct: "ct = 22" using Cons.prems(5) True by simp
    from s1(1) True Cons.prems(2) d ct obtain ms where ms: "parse_handshake_messages pt = Inr ms"
      and f: "sfold hs_message_step (s\<lparr>hs_seq := hs_seq s + 1\<rparr>) ms = Inr s1"
      by (auto simp: hs_record_step_def fault_simps Let_def)
    have dn: "decrypt_hs_record T key iv (hs_seq s) r = Some (pt, 22)"
      using decrypt_hs_record_guest [OF assms(1) True _ d] Cons.prems(4) True ct by simp
    have ap: "append_hs_messages (hs_messages s) pt 22 = Some (hs_messages s1, \<exists>m \<in> set ms. msg_type m = 20)"
      using append_hs_messages_guest [OF ms] hs_messages_fold [OF f] by simp
    have seq: "hs_seq s1 = hs_seq s + 1" using hs_messages_fold [OF f] by simp
    have dne: "hs_done s1 \<longleftrightarrow> (\<exists>m \<in> set ms. msg_type m = 20)"
      using hs_messages_fold_done [OF f] Cons.prems(2) by simp
    show ?thesis
    proof (cases "hs_done s1")
      case fin: True
      with hs_done_stays [OF s1(2)] dne show ?thesis by (simp add: True dn ap)
    next
      case False
      have "collect_hs T key iv (hs_seq s1) (hs_messages s1) rs = Some (hs_messages s', True)"
        using Cons.prems(4,5) by (intro Cons.IH [OF s1(2) False Cons.prems(3)]) simp_all
      then show ?thesis using False dne by (simp add: True dn ap seq)
    qed
  qed
qed

lemma notary_transcripts:
  assumes "guest_hashes_ok E (hash T)" and "gcm_open T = aes_gcm_open E"
    and "guest_key_schedule E w = Inr k" and "guest_handshake E k = Inr s" and "hs_done s"
    and "\<forall>r \<in> set (gk_in k). content_type r = 23 \<longrightarrow> legacy_version r = 0x0303"
    and "\<forall>r \<in> set (gk_in k). content_type r = 23 \<longrightarrow>
           (\<forall>key iv n pt ct. decrypt_record E key iv n r = Inr (pt, ct) \<longrightarrow> ct = 22)"
    and "parse_server_hello_key_share (raw_inbound w) = Inr (Some epk)"
  shows "transcript_after_server_hello T (raw_outbound w) (raw_inbound w) = Some (sha256 E (gk_ch k @ gk_sh k))"
    and "transcript_after_server_finished T (raw_outbound w) (raw_inbound w) (x25519_dh E (esk_client w) epk) =
      (if length (hs_messages s) < 6 then None else Some (sha256 E (concat (hs_messages s))))"
proof -
  let ?H = "hash T" and ?ikm = "x25519_dh E (esk_client w) epk"
  let ?s0 = "\<lparr>hs_messages = [gk_ch k, gk_sh k], hs_seq = 0, hs_chain = None, hs_cert_verify = None,
        hs_finished = None, hs_done = False, hs_app = []\<rparr>"
  have ok: "hash_env_ok ?H" and sha: "sha256 E = sha256_of ?H"
    using assms(1) by (simp_all add: guest_hashes_ok_def)
  from guest_key_schedule_reference [OF assms(1,3)] assms(8)
  have hs: "gk_server_hs k = reference_hkdf_expand_label ?H (reference_hs_secret ?H ?ikm) ''s hs traffic''
      (sha256_of ?H (gk_ch k @ gk_sh k)) 32" by auto
  have "length (reference_hs_secret ?H ?ikm) = 32"
    using length_hmac_of [OF ok]
    by (simp add: reference_hs_secret_def reference_hkdf_extract_def reference_hkdf_expand_label_def Let_def)
  then have l: "length (gk_server_hs k) = 32"
    using length_hmac_of [OF ok] by (simp add: hs reference_hkdf_expand_label_def)
  obtain key iv where k: "reference_server_hs_keys ?H ?ikm (sha256_of ?H (gk_ch k @ gk_sh k)) = (key, iv)"
    by (meson surj_pair)
  then have "expand_label E (gk_server_hs k) ''key'' [] 16 = Inr key" "expand_label E (gk_server_hs k) ''iv'' [] 12 = Inr iv"
    using expand_label_reference [OF assms(1) l] by (simp_all add: reference_server_hs_keys_def Let_def hs)
  then have fold: "sfold (hs_record_step E key iv) ?s0 (gk_in k) = Inr s"
    using assms(4) by (simp add: guest_handshake_def)
  have c: "collect_hs T key iv 0 [gk_ch k, gk_sh k] (gk_in k) = Some (hs_messages s, True)"
    using collect_hs_agrees [OF assms(2) fold _ assms(5,6)] assms(7) by simp
  from assms(3) obtain out ch sh where
    out: "parse_records (raw_outbound w) = Inr out" "find (\<lambda>r. content_type r = 22) out = Some ch" "gk_ch k = payload ch"
    and inp: "parse_records (raw_inbound w) = Inr (gk_in k)" "find (\<lambda>r. content_type r = 22) (gk_in k) = Some sh" "gk_sh k = payload sh"
    by (auto simp: guest_key_schedule_def fault_simps Let_def)
  have sh: "transcript_after_server_hello T (raw_outbound w) (raw_inbound w) = Some (sha256_of ?H (gk_ch k @ gk_sh k))"
    by (simp add: transcript_after_server_hello_def parse_records_opt_eq out inp)
  then show "transcript_after_server_hello T (raw_outbound w) (raw_inbound w) = Some (sha256 E (gk_ch k @ gk_sh k))"
    by (simp add: sha)
  show "transcript_after_server_finished T (raw_outbound w) (raw_inbound w) ?ikm =
      (if length (hs_messages s) < 6 then None else Some (sha256 E (concat (hs_messages s))))"
    using c sh by (simp add: transcript_after_server_finished_def parse_records_opt_eq
        k [unfolded out(3) inp(3)] out inp sha)
qed


section \<open>A verified capture is a binding the guest accepts\<close>

text \<open>
  The binding the notary builds from a verified capture passes the guest's check exactly for the
  witnesses whose raw bytes hash as the captured ones do and in whose inbound bytes the guest finds the
  key share the notary found.
\<close>

theorem verified_capture_binds_witness:
  assumes "verify_handshake_capture T cap ikm = Inr vh" and "sha256 E = sha256_of (hash T)"
    and "bundle_version b \<ge> BUNDLE_VERSION_BINDING" and "binding b = vh_binding vh"
  shows "check_binding E w b = Inr () \<longleftrightarrow>
    sha256 E (to_be 8 (length (raw_outbound w)) @ raw_outbound w @ to_be 8 (length (raw_inbound w)) @ raw_inbound w) =
    sha256 E (to_be 8 (length (cap_outbound cap)) @ cap_outbound cap @ to_be 8 (length (cap_inbound cap)) @ cap_inbound cap) \<and>
    parse_server_hello_key_share (raw_inbound w) = Inr (notary_parse_server_hello_key_share (cap_inbound cap))"
  using verify_handshake_capture_Inr [OF assms(1)] assms(2-)
  by (auto simp: check_binding_def fault_simps witness_hash_def handshake_transcript_hash_of_def del: to_be.simps)


section \<open>A session both follow\<close>

definition toy_hash :: hash_env where
  "toy_hash = \<lparr>compress = (\<lambda>_ _. zeros 32), sha256_of = (\<lambda>_. zeros 32), hmac_of = (\<lambda>_ _. zeros 32)\<rparr>"

definition toy_tls :: tls_env where
  "toy_tls = \<lparr>hash = toy_hash, gcm_open = aes_gcm_open toy_guest2, aes_circuit_hash = zeros 32,
     sha256_circuit_hash = zeros 32\<rparr>"

lemma md_blocks_zeros: "length m \<ge> 64 \<Longrightarrow> md_blocks (\<lambda>_ _. zeros 32) h m = zeros 32"
proof (induction "(\<lambda>_ _. zeros 32) :: bytes \<Rightarrow> bytes \<Rightarrow> bytes" h m rule: md_blocks.induct)
  case (1 h m)
  then show ?case
    by (cases "length m < 128") (subst md_blocks.simps, simp add: md_blocks_Nil)+
qed

lemma sha256_md_zeros: "sha256_md (\<lambda>_ _. zeros 32) m = zeros 32"
proof -
  have "length m mod 64 < 64" by simp
  then have "length (sha256_pad m) \<ge> 64"
  proof (cases "length m < 55")
    case True
    define d where "d = 55 - length m"
    have "119 - length m mod 64 = d + 64" "d < 64" using True by (simp_all add: d_def)
    then have "(119 - length m mod 64) mod 64 = d" by simp
    then show ?thesis using True by (simp add: sha256_pad_def d_def del: to_be.simps)
  next
    case False
    then show ?thesis by (simp add: sha256_pad_def del: to_be.simps)
  qed
  then show ?thesis by (simp add: sha256_md_def md_blocks_zeros)
qed

lemma toy_hash_ok: "hash_env_ok toy_hash"
  by (auto simp: hash_env_ok_def toy_hash_def hmac_md_def sha256_md_zeros)

lemma toy_guest_hashes: "guest_hashes_ok toy_guest2 toy_hash"
  using toy_hash_ok by (simp add: guest_hashes_ok_def toy_guest2_def toy_guest_def) (simp add: toy_hash_def)

theorem guest_keys_are_reference_witness:
  "case reference_tls13_client_traffic toy_hash (zeros 32) (zeros 32) (zeros 32) of
     (tx_key, tx_iv, rx_key, rx_iv) \<Rightarrow>
       guest_app_plaintext toy_guest2 (toy_keys toy_app) (toy_state toy_app) =
       app_plaintext_from toy_guest2 rx_key rx_iv 0 (map record_to_bytes toy_app)"
  using guest_keys_are_reference [OF toy_guest_hashes toy_schedule [OF toy_apps_ok(2)] toy_handshake [OF toy_apps_ok(2)]]
  by (simp add: toy_state_def toy_guest2_def toy_guest_def toy_hash_def)



lemma toy_collect: "transcript_hashes_with_ikm toy_tls (raw_outbound (toy_self [])) (raw_inbound (toy_self [])) (zeros 32) =
    Some (zeros 32, zeros 32)"
proof -
  have env: "hash toy_tls = toy_hash" "gcm_open toy_tls = aes_gcm_open toy_guest2" by (simp_all add: toy_tls_def)
  have recs: "gk_in (toy_keys []) = [hello_record (sample_server_hello (zeros 32)), toy_hs_record]"
    by (simp add: toy_keys_def)
  have *: "guest_hashes_ok toy_guest2 (hash toy_tls)" "hs_done (toy_state [])"
    "\<forall>r \<in> set (gk_in (toy_keys [])). content_type r = 23 \<longrightarrow> legacy_version r = 0x0303"
    "\<forall>r \<in> set (gk_in (toy_keys [])). content_type r = 23 \<longrightarrow>
        (\<forall>key iv n pt ct. decrypt_record toy_guest2 key iv n r = Inr (pt, ct) \<longrightarrow> ct = 22)"
    "parse_server_hello_key_share (raw_inbound (toy_self [])) = Inr (Some (zeros 32))"
    using toy_shares(2) [OF toy_apps_ok(1)]
    by (simp_all add: env toy_guest_hashes recs toy_state_def decrypt_toy_hs)
      (simp_all add: toy_hs_record_def hello_record_def toy_self_def)
  note h = notary_transcripts [OF *(1) env(2) toy_schedule [OF toy_apps_ok(1)] toy_handshake [OF toy_apps_ok(1)] *(2-5)]
  have "length (hs_messages (toy_state [])) = 6" by (simp add: toy_state_def toy_messages_def toy_hs_def)
  then show ?thesis
    using h by (simp add: transcript_hashes_with_ikm_def toy_guest2_def toy_guest_def)
qed


definition toy_capture :: handshake_capture where
  "toy_capture = \<lparr>cap_server_epk = zeros 32, cap_cert_chain_hash = zeros 32,
     cap_outbound = raw_outbound (toy_self []), cap_inbound = raw_inbound (toy_self [])\<rparr>"

lemma toy_notary_share: "notary_parse_server_hello_key_share (raw_inbound (toy_self [])) = Some (zeros 32)"
proof -
  have "raw_inbound (toy_self []) =
      record_to_bytes (hello_record (sample_server_hello (zeros 32))) @ concat (map record_to_bytes [toy_hs_record])"
    by (simp add: toy_self_def toy_in2_def)
  moreover have "parse_sh_key_share (body (sample_server_hello (zeros 32))) = Some (zeros 32)"
    using parse_sh_key_share_body [of "zeros 34" "[]" "[19, 1]" "tlv16 (0x0033, tlv16 (0x001d, zeros 32))" "[]" "zeros 32" "[]" "[]"]
    by (simp add: sample_server_hello_def)
  ultimately show ?thesis
    by (simp only:) (rule notary_key_share_first_record,
      simp_all add: hello_record_def length_sample_hellos,
      simp_all add: hs_bytes_def hs_header_def Let_def, simp_all add: sample_server_hello_def)
qed

lemma toy_cert_opt: "parse_cert_message_opt (cert_message [] [(forged_leaf, [])]) = Some [forged_leaf]"
proof -
  have "cert_message [] [(forged_leaf, [])] = [0, 0, 0, 26, 0, 0, 21] @ forged_leaf @ [0, 0]"
    by (simp add: cert_message_def cert_entry_def length_forged to_be_numeral)
  moreover have "from_be [0, 0, 26] = 26" "from_be [0, 0, 21] = 21" "from_be [0, 0] = 0"
    by (simp_all add: from_be_def)
  ultimately show ?thesis
    by (simp add: parse_cert_message_opt_def Let_def length_forged cert_entries_opt.simps nth_append)
qed

lemma toy_chain_ders:
  "cert_chain_ders_from_handshake toy_tls (raw_outbound (toy_self [])) (raw_inbound (toy_self [])) ikm = Some [forged_leaf]"
proof -
  have "transcript_after_server_hello toy_tls (raw_outbound (toy_self [])) (raw_inbound (toy_self [])) = Some (zeros 32)"
    using toy_collect by (simp add: transcript_hashes_with_ikm_def split: bind_splits)
  moreover have "parse_records_opt (raw_inbound (toy_self [])) = Some [hello_record (sample_server_hello (zeros 32)), toy_hs_record]"
    using toy_parse2(1) [OF toy_apps_ok(1)] by (simp add: parse_records_opt_eq toy_self_def toy_keys_def)
  moreover have "decrypt_hs_record toy_tls key iv n toy_hs_record = Some (concat (map hs_bytes toy_hs), 22)" for key iv n
    using decrypt_hs_record_guest [OF _ _ _ decrypt_toy_hs, of toy_tls key iv n]
    by (simp add: toy_tls_def) (simp add: toy_hs_record_def)
  moreover have "parse_handshake_messages_opt (concat (map hs_bytes toy_hs)) = Some toy_hs"
    using hs_messages_opt_of_guest parse_toy_hs by (simp add: parse_handshake_messages_opt_def parse_handshake_messages_def)
  ultimately show ?thesis
    by (simp add: cert_chain_ders_from_handshake_def split_beta Let_def)
      (simp add: toy_hs_record_def hello_record_def toy_hs_def toy_cert_opt)
qed

lemma toy_verified: "\<exists>vh. verify_handshake_capture toy_tls toy_capture (zeros 32) = Inr vh"
  by (simp add: verify_handshake_capture_def toy_capture_def toy_notary_share toy_chain_ders toy_collect Let_def)
    (simp add: cert_chain_hash_of_def toy_tls_def toy_hash_def)

theorem verified_capture_binds_witness_example:
  "\<exists>vh. verify_handshake_capture toy_tls toy_capture (zeros 32) = Inr vh \<and>
     check_binding toy_guest2 (toy_self []) (sample_bundle\<lparr>binding := vh_binding vh\<rparr>) = Inr ()"
proof -
  obtain vh where vh: "verify_handshake_capture toy_tls toy_capture (zeros 32) = Inr vh"
    using toy_verified ..
  have "sha256 toy_guest2 = sha256_of (hash toy_tls)"
    by (simp add: toy_guest2_def toy_guest_def toy_tls_def toy_hash_def)
  from verified_capture_binds_witness [OF vh this, of "sample_bundle\<lparr>binding := vh_binding vh\<rparr>" "toy_self []"]
  have "check_binding toy_guest2 (toy_self []) (sample_bundle\<lparr>binding := vh_binding vh\<rparr>) = Inr ()"
    using toy_shares(2) [OF toy_apps_ok(1)] toy_notary_share sample_bundle_version
    by (simp add: toy_capture_def) (simp add: toy_self_def)
  with vh show ?thesis by blast
qed

end
