(* ===== verification/Processes.thy ===== *)
theory Processes
  imports Prelude
begin

text \<open>
  Two parties and the channel between them. A function of the notary crate that takes a
  \<open>&mut Channel\<close> is a \<open>proc\<close>: a tree of channel reads and writes, draws of random bytes and garbled
  circuit runs, ending in its result or in an error; \<open>pbind\<close> is sequencing with the \<open>?\<close> operator.

  Two processes run against each other by \<open>step\<close>: writes are appended to a queue per direction, a read
  takes bytes from the front and blocks until they are there, and random bytes are arbitrary. A garbled
  circuit run (\<open>Garble\<close> on the garbler's side, \<open>Evaluate\<close> on the evaluator's) is one joint step, in
  which the evaluator learns the output of the circuit on both inputs and the garbler learns nothing.
  It needs both parties at a run of the same circuit and both queues empty, as the garbling protocol
  uses the same channel.

  \<open>safe\<close> says that every schedule and every choice of random bytes ends with both results in a
  relation: in particular no deadlock. \<open>serves\<close> is the same for one schedule, chosen at will; it is
  what protocols are proved with. The central lemma is that the schedule does not matter.
\<close>

section \<open>Circuits and processes\<close>

text \<open>A circuit for WRK17: the number of the garbler's and the evaluator's inputs, and its function.\<close>

record wrk17_circuit =
  garbler_inputs :: nat
  evaluator_inputs :: nat
  circuit_fun :: "bool list \<Rightarrow> bool list"

datatype 'a proc =
    Done 'a
  | Error string
  | Send bytes "'a proc"
  | Recv nat "bytes \<Rightarrow> 'a proc"
  | Random nat "bytes \<Rightarrow> 'a proc"
  | Garble wrk17_circuit "bool list" "'a proc"
  | Evaluate wrk17_circuit "bool list" "bool list \<Rightarrow> 'a proc"

primrec pbind :: "'a proc \<Rightarrow> ('a \<Rightarrow> 'b proc) \<Rightarrow> 'b proc" where
  "pbind (Done a) f = f a"
| "pbind (Error e) f = Error e"
| "pbind (Send bs p) f = Send bs (pbind p f)"
| "pbind (Recv n g) f = Recv n (\<lambda>bs. pbind (g bs) f)"
| "pbind (Random n g) f = Random n (\<lambda>bs. pbind (g bs) f)"
| "pbind (Garble c xs p) f = Garble c xs (pbind p f)"
| "pbind (Evaluate c ys g) f = Evaluate c ys (\<lambda>zs. pbind (g zs) f)"

lemma pbind_assoc: "pbind (pbind p f) g = pbind p (\<lambda>x. pbind (f x) g)"
  by (induction p) simp_all

lemma pbind_Done [simp]: "pbind p Done = p"
  by (induction p) simp_all

text \<open>A \<open>match\<close> on the result of a call that keeps the party running.\<close>

primrec pcatch :: "'a proc \<Rightarrow> (string + 'a) proc" where
  "pcatch (Done a) = Done (Inr a)"
| "pcatch (Error e) = Done (Inl e)"
| "pcatch (Send bs p) = Send bs (pcatch p)"
| "pcatch (Recv n g) = Recv n (\<lambda>bs. pcatch (g bs))"
| "pcatch (Random n g) = Random n (\<lambda>bs. pcatch (g bs))"
| "pcatch (Garble c xs p) = Garble c xs (pcatch p)"
| "pcatch (Evaluate c ys g) = Evaluate c ys (\<lambda>zs. pcatch (g zs))"

text \<open>A \<open>for\<close> loop over a list, with the loop's state.\<close>

primrec pfor :: "nat list \<Rightarrow> 's \<Rightarrow> (nat \<Rightarrow> 's \<Rightarrow> 's proc) \<Rightarrow> 's proc" where
  "pfor [] s f = Done s"
| "pfor (i # is) s f = pbind (f i s) (\<lambda>s. pfor is s f)"

text \<open>A panic of local code ends the party's run.\<close>

fun local_result :: "fault + 'a \<Rightarrow> 'a proc" where
  "local_result (Inr a) = Done a"
| "local_result (Inl (Assertion msg)) = Error msg"
| "local_result (Inl (Expect msg)) = Error msg"
| "local_result (Inl (Explicit msg)) = Error msg"
| "local_result (Inl OutOfBounds) = Error ''index out of bounds''"

section \<open>Joint steps\<close>

text \<open>
  A configuration: notary, client, bytes on the way from the notary to the client, bytes on the way
  back.
\<close>

type_synonym ('a, 'b) config = "'a proc \<times> 'b proc \<times> bytes \<times> bytes"

inductive step :: "('a, 'b) config \<Rightarrow> ('a, 'b) config \<Rightarrow> bool" where
  n_send: "step (Send bs p, q, a, b) (p, q, a @ bs, b)"
| c_send: "step (p, Send bs q, a, b) (p, q, a, b @ bs)"
| n_recv: "n \<le> length b \<Longrightarrow> step (Recv n f, q, a, b) (f (take n b), q, a, drop n b)"
| c_recv: "n \<le> length a \<Longrightarrow> step (p, Recv n g, a, b) (p, g (take n a), drop n a, b)"
| n_random: "length bs = n \<Longrightarrow> step (Random n f, q, a, b) (f bs, q, a, b)"
| c_random: "length bs = n \<Longrightarrow> step (p, Random n g, a, b) (p, g bs, a, b)"
| garbled: "length xs = garbler_inputs c \<Longrightarrow> length ys = evaluator_inputs c \<Longrightarrow>
     step (Garble c xs p, Evaluate c ys g, [], []) (p, g (circuit_fun c (xs @ ys)), [], [])"

inductive_cases step_Send [elim!]: "step (Send bs p, q, a, b) d"
inductive_cases step_Recv [elim!]: "step (Recv n f, q, a, b) d"
inductive_cases step_Random [elim!]: "step (Random n f, q, a, b) d"
inductive_cases step_from: "step (p, q, a, b) d"

text \<open>The steps of the client alone, and those of the notary alone.\<close>

inductive client_step :: "'b proc \<Rightarrow> bytes \<Rightarrow> bytes \<Rightarrow> 'b proc \<Rightarrow> bytes \<Rightarrow> bytes \<Rightarrow> bool" where
  "client_step (Send bs q) a b q a (b @ bs)"
| "n \<le> length a \<Longrightarrow> client_step (Recv n g) a b (g (take n a)) (drop n a) b"
| "length bs = n \<Longrightarrow> client_step (Random n g) a b (g bs) a b"

inductive notary_step :: "'a proc \<Rightarrow> bytes \<Rightarrow> bytes \<Rightarrow> 'a proc \<Rightarrow> bytes \<Rightarrow> bytes \<Rightarrow> bool" where
  "notary_step (Send bs p) a b p (a @ bs) b"
| "n \<le> length b \<Longrightarrow> notary_step (Recv n f) a b (f (take n b)) a (drop n b)"
| "length bs = n \<Longrightarrow> notary_step (Random n f) a b (f bs) a b"

lemma step_cases:
  assumes "step (p, q, a, b) d"
  obtains (client) q' a' b' where "d = (p, q', a', b')" "client_step q a b q' a' b'"
  | (notary) p' a' b' where "d = (p', q, a', b')" "notary_step p a b p' a' b'"
  | (joint) c xs p' ys g where "p = Garble c xs p'" "q = Evaluate c ys g" "a = []" "b = []"
      "d = (p', g (circuit_fun c (xs @ ys)), [], [])"
  using assms
  by (cases rule: step.cases) (auto intro: client_step.intros notary_step.intros)

lemma client_step_step: "client_step q a b q' a' b' \<Longrightarrow> step (p, q, a, b) (p, q', a', b')"
  by (cases rule: client_step.cases, assumption) (auto intro: step.intros)

lemma notary_step_step: "notary_step p a b p' a' b' \<Longrightarrow> step (p, q, a, b) (p', q, a', b')"
  by (cases rule: notary_step.cases, assumption) (auto intro: step.intros)

text \<open>Bytes that arrive later, or that the other side consumes, do not disturb a step.\<close>

lemma client_step_more: "client_step q a b q' a' b' \<Longrightarrow> client_step q (a @ cs) b q' (a' @ cs) b'"
  by (cases rule: client_step.cases, assumption) (auto intro: client_step.intros simp: client_step.simps)

lemma notary_step_more: "notary_step p a b p' a' b' \<Longrightarrow> notary_step p a (b @ cs) p' a' (b' @ cs)"
  by (cases rule: notary_step.cases, assumption) (auto intro: notary_step.intros simp: notary_step.simps)

lemma client_step_taken:
  assumes "client_step q a b q' a' b'" and "n \<le> length b"
  shows "client_step q a (drop n b) q' a' (drop n b') \<and> take n b' = take n b \<and> n \<le> length b'"
  using assms by (cases rule: client_step.cases) (auto simp: client_step.simps)

lemma notary_step_taken:
  assumes "notary_step p a b p' a' b'" and "n \<le> length a"
  shows "notary_step p (drop n a) b p' (drop n a') b' \<and> take n a' = take n a \<and> n \<le> length a'"
  using assms by (cases rule: notary_step.cases) (auto simp: notary_step.simps)

section \<open>All schedules, and one schedule\<close>

fun outcome :: "'a proc \<Rightarrow> (string + 'a) option" where
  "outcome (Done x) = Some (Inr x)"
| "outcome (Error e) = Some (Inl e)"
| "outcome _ = None"

type_synonym ('a, 'b) post = "(string + 'a) \<Rightarrow> (string + 'b) \<Rightarrow> bool"

inductive safe :: "('a, 'b) post \<Rightarrow> ('a, 'b) config \<Rightarrow> bool" for R where
  final: "outcome p = Some x \<Longrightarrow> outcome q = Some y \<Longrightarrow> R x y \<Longrightarrow> safe R (p, q, [], [])"
| steps: "step c d \<Longrightarrow> (\<And>d. step c d \<Longrightarrow> safe R d) \<Longrightarrow> safe R c"

inductive serves :: "('a, 'b) post \<Rightarrow> ('a, 'b) config \<Rightarrow> bool" for R where
  final: "outcome p = Some x \<Longrightarrow> outcome q = Some y \<Longrightarrow> R x y \<Longrightarrow> serves R (p, q, [], [])"
| n_send: "serves R (p, q, a @ bs, b) \<Longrightarrow> serves R (Send bs p, q, a, b)"
| c_send: "serves R (p, q, a, b @ bs) \<Longrightarrow> serves R (p, Send bs q, a, b)"
| n_recv: "serves R (f (take n b), q, a, drop n b) \<Longrightarrow> n \<le> length b \<Longrightarrow> serves R (Recv n f, q, a, b)"
| c_recv: "serves R (p, g (take n a), drop n a, b) \<Longrightarrow> n \<le> length a \<Longrightarrow> serves R (p, Recv n g, a, b)"
| n_random: "(\<And>bs. length bs = n \<Longrightarrow> serves R (f bs, q, a, b)) \<Longrightarrow> serves R (Random n f, q, a, b)"
| c_random: "(\<And>bs. length bs = n \<Longrightarrow> serves R (p, g bs, a, b)) \<Longrightarrow> serves R (p, Random n g, a, b)"
| garbled: "serves R (p, g (circuit_fun c (xs @ ys)), [], []) \<Longrightarrow> length xs = garbler_inputs c \<Longrightarrow>
     length ys = evaluator_inputs c \<Longrightarrow> serves R (Garble c xs p, Evaluate c ys g, [], [])"

lemma outcome_no_step:
  "outcome p = Some x \<Longrightarrow> \<not> notary_step p a b p' a' b'"
  "outcome q = Some y \<Longrightarrow> \<not> client_step q a b q' a' b'"
  by (auto simp: notary_step.simps client_step.simps)

lemma no_step_from_outcome:
  "outcome p = Some x \<Longrightarrow> outcome q = Some y \<Longrightarrow> \<not> step (p, q, a, b) d"
  using outcome_no_step by (metis outcome.simps(6) option.distinct(1) step_cases)

lemma safe_step: "safe R c \<Longrightarrow> step c d \<Longrightarrow> safe R d"
  by (induction rule: safe.cases) (auto simp: no_step_from_outcome)

lemma safe_mono: "safe R c \<Longrightarrow> (\<And>x y. R x y \<Longrightarrow> S x y) \<Longrightarrow> safe S c"
  by (induction rule: safe.induct) (auto intro: safe.intros)

text \<open>Prepending a step of the notary keeps all schedules safe; likewise for the client.\<close>

lemma safe_n_send:
  assumes "safe R (p, q, a @ bs, b)"
  shows "safe R (Send bs p, q, a, b)"
  using assms
proof (induction "(p, q, a @ bs, b)" arbitrary: p q a b rule: safe.induct)
  case (final p x q y)
  then have own: "safe R (p, q, [], [])" by (auto intro: safe.final)
  show ?case
  proof (rule safe.steps [OF step.n_send])
    fix d assume "step (Send bs p, q, a, []) d"
    then show "safe R d"
    proof (cases rule: step_cases)
      case client
      with final show ?thesis by (auto simp: outcome_no_step(2))
    next
      case notary
      with own final show ?thesis by (auto simp: notary_step.simps)
    qed simp
  qed
next
  case (steps d0)
  show ?case
  proof (rule safe.steps [OF step.n_send])
    fix d assume "step (Send bs p, q, a, b) d"
    then show "safe R d"
    proof (cases rule: step_cases)
      case (client q' a' b')
      have "step (p, q, a @ bs, b) (p, q', a' @ bs, b')"
        using client(2) by (intro client_step_step client_step_more)
      with steps(3) client(1) show ?thesis by blast
    next
      case notary
      with steps(1,2) safe.steps [of "(p, q, a @ bs, b)"] show ?thesis by (auto simp: notary_step.simps)
    qed simp
  qed
qed

lemma safe_c_send:
  assumes "safe R (p, q, a, b @ bs)"
  shows "safe R (p, Send bs q, a, b)"
  using assms
proof (induction "(p, q, a, b @ bs)" arbitrary: p q a b rule: safe.induct)
  case (final p x q y)
  then have own: "safe R (p, q, [], [])" by (auto intro: safe.final)
  show ?case
  proof (rule safe.steps [OF step.c_send])
    fix d assume "step (p, Send bs q, [], b) d"
    then show "safe R d"
    proof (cases rule: step_cases)
      case notary
      with final show ?thesis by (auto simp: outcome_no_step(1))
    next
      case client
      with own final show ?thesis by (auto simp: client_step.simps)
    qed simp
  qed
next
  case (steps d0)
  show ?case
  proof (rule safe.steps [OF step.c_send])
    fix d assume "step (p, Send bs q, a, b) d"
    then show "safe R d"
    proof (cases rule: step_cases)
      case (notary p' a' b')
      have "step (p, q, a, b @ bs) (p', q, a', b' @ bs)"
        using notary(2) by (intro notary_step_step notary_step_more)
      with steps(3) notary(1) show ?thesis by blast
    next
      case client
      with steps(1,2) safe.steps [of "(p, q, a, b @ bs)"] show ?thesis by (auto simp: client_step.simps)
    qed simp
  qed
qed

lemma safe_n_recv:
  assumes "safe R (f (take n b), q, a, drop n b)" and "n \<le> length b"
  shows "safe R (Recv n f, q, a, b)"
  using assms
proof (induction "(f (take n b), q, a, drop n b)" arbitrary: q a b rule: safe.induct)
  case (final x q y b)
  have own: "safe R (f (take n b), q, [], drop n b)" using final by (auto intro: safe.final)
  show ?case
  proof (rule safe.steps [OF step.n_recv [OF final(5)]])
    fix d assume "step (Recv n f, q, [], b) d"
    then show "safe R d"
    proof (cases rule: step_cases)
      case client
      with final show ?thesis by (auto simp: outcome_no_step(2))
    next
      case notary
      with own final show ?thesis by (auto simp: notary_step.simps)
    qed simp
  qed
next
  case (steps d0 q a b)
  show ?case
  proof (rule safe.steps [OF step.n_recv [OF steps(4)]])
    fix d assume "step (Recv n f, q, a, b) d"
    then show "safe R d"
    proof (cases rule: step_cases)
      case (client q' a' b')
      from client_step_taken [OF client(2) steps(4)]
      have c: "step (f (take n b), q, a, drop n b) (f (take n b'), q', a', drop n b')" and n: "n \<le> length b'"
        by (auto intro: client_step_step)
      from steps(3) [OF c n] client(1) show ?thesis by simp
    next
      case notary
      with steps(1,2) safe.steps [of "(f (take n b), q, a, drop n b)"] show ?thesis
        by (auto simp: notary_step.simps)
    qed simp
  qed
qed

lemma safe_c_recv:
  assumes "safe R (p, g (take n a), drop n a, b)" and "n \<le> length a"
  shows "safe R (p, Recv n g, a, b)"
  using assms
proof (induction "(p, g (take n a), drop n a, b)" arbitrary: p a b rule: safe.induct)
  case (final p x y a)
  have own: "safe R (p, g (take n a), drop n a, [])" using final by (auto intro: safe.final)
  show ?case
  proof (rule safe.steps [OF step.c_recv [OF final(5)]])
    fix d assume "step (p, Recv n g, a, []) d"
    then show "safe R d"
    proof (cases rule: step_cases)
      case notary
      with final show ?thesis by (auto simp: outcome_no_step(1))
    next
      case client
      with own final show ?thesis by (auto simp: client_step.simps)
    qed simp
  qed
next
  case (steps d0 p a b)
  show ?case
  proof (rule safe.steps [OF step.c_recv [OF steps(4)]])
    fix d assume "step (p, Recv n g, a, b) d"
    then show "safe R d"
    proof (cases rule: step_cases)
      case (notary p' a' b')
      from notary_step_taken [OF notary(2) steps(4)]
      have c: "step (p, g (take n a), drop n a, b) (p', g (take n a'), drop n a', b')" and n: "n \<le> length a'"
        by (auto intro: notary_step_step)
      from steps(3) [OF c n] notary(1) show ?thesis by simp
    next
      case client
      with steps(1,2) safe.steps [of "(p, g (take n a), drop n a, b)"] show ?thesis
        by (auto simp: client_step.simps)
    qed simp
  qed
qed

text \<open>
  A draw of random bytes: every choice must be safe. The induction follows the other party's steps
  on one of the choices.
\<close>

lemma safe_n_random:
  assumes "\<And>bs. length bs = n \<Longrightarrow> safe R (f bs, q, a, b)"
  shows "safe R (Random n f, q, a, b)"
proof -
  have "safe R (f (zeros n), q, a, b)" using assms by simp
  then show ?thesis
    using assms
  proof (induction "(f (zeros n), q, a, b)" arbitrary: q a b rule: safe.induct)
    case (final x q y)
    have r: "step (Random n f, q, [], []) (f (zeros n), q, [], [])" by (rule step.n_random) simp
    show ?case
    proof (rule safe.steps [OF r])
      fix d assume "step (Random n f, q, [], []) d"
      then show "safe R d"
      proof (cases rule: step_cases)
        case client
        with final show ?thesis by (auto simp: outcome_no_step(2))
      next
        case notary
        with final show ?thesis by (auto simp: notary_step.simps)
      qed simp
    qed
  next
    case (steps d0 q a b)
    have r: "step (Random n f, q, a, b) (f (zeros n), q, a, b)" by (rule step.n_random) simp
    show ?case
    proof (rule safe.steps [OF r])
      fix d assume "step (Random n f, q, a, b) d"
      then show "safe R d"
      proof (cases rule: step_cases)
        case (client q' a' b')
        have "safe R (f bs, q', a', b')" if "length bs = n" for bs
          using steps(4) [OF that] client_step_step [OF client(2)] by (rule safe_step)
        then show ?thesis
          using steps(3) [OF client_step_step [OF client(2)]] client(1) by simp
      next
        case notary
        with steps(4) show ?thesis by (auto simp: notary_step.simps)
      qed simp
    qed
  qed
qed

lemma safe_c_random:
  assumes "\<And>bs. length bs = n \<Longrightarrow> safe R (p, g bs, a, b)"
  shows "safe R (p, Random n g, a, b)"
proof -
  have "safe R (p, g (zeros n), a, b)" using assms by simp
  then show ?thesis
    using assms
  proof (induction "(p, g (zeros n), a, b)" arbitrary: p a b rule: safe.induct)
    case (final p x y)
    have r: "step (p, Random n g, [], []) (p, g (zeros n), [], [])" by (rule step.c_random) simp
    show ?case
    proof (rule safe.steps [OF r])
      fix d assume "step (p, Random n g, [], []) d"
      then show "safe R d"
      proof (cases rule: step_cases)
        case notary
        with final show ?thesis by (auto simp: outcome_no_step(1))
      next
        case client
        with final show ?thesis by (auto simp: client_step.simps)
      qed simp
    qed
  next
    case (steps d0 p a b)
    have r: "step (p, Random n g, a, b) (p, g (zeros n), a, b)" by (rule step.c_random) simp
    show ?case
    proof (rule safe.steps [OF r])
      fix d assume "step (p, Random n g, a, b) d"
      then show "safe R d"
      proof (cases rule: step_cases)
        case (notary p' a' b')
        have "safe R (p', g bs, a', b')" if "length bs = n" for bs
          using steps(4) [OF that] notary_step_step [OF notary(2)] by (rule safe_step)
        then show ?thesis
          using steps(3) [OF notary_step_step [OF notary(2)]] notary(1) by simp
      next
        case client
        with steps(4) show ?thesis by (auto simp: client_step.simps)
      qed simp
    qed
  qed
qed

lemma safe_garbled:
  assumes "safe R (p, g (circuit_fun c (xs @ ys)), [], [])"
    and "length xs = garbler_inputs c" and "length ys = evaluator_inputs c"
  shows "safe R (Garble c xs p, Evaluate c ys g, [], [])"
proof (rule safe.steps [OF step.garbled [OF assms(2,3)]])
  fix d assume "step (Garble c xs p, Evaluate c ys g, [], []) d"
  then show "safe R d"
    using assms(1) by (cases rule: step_cases) (auto simp: notary_step.simps client_step.simps)
qed

text \<open>If one schedule ends well for all random choices, every schedule does.\<close>

lemma serves_safe: "serves R c \<Longrightarrow> safe R c"
  by (induction rule: serves.induct)
    (auto intro: safe.final safe_n_send safe_c_send safe_n_recv safe_c_recv safe_n_random safe_c_random safe_garbled)

section \<open>Sequencing\<close>

text \<open>
  \<open>delivers p q R\<close>: from empty queues, some schedule takes both to results related by \<open>R\<close>, with the
  queues empty again, so that it composes.
\<close>

definition both_ok :: "('a \<Rightarrow> 'b \<Rightarrow> bool) \<Rightarrow> ('a, 'b) post" where
  "both_ok R x y \<longleftrightarrow> (\<exists>a b. x = Inr a \<and> y = Inr b \<and> R a b)"

definition delivers :: "'a proc \<Rightarrow> 'b proc \<Rightarrow> ('a \<Rightarrow> 'b \<Rightarrow> bool) \<Rightarrow> bool" where
  "delivers p q R \<longleftrightarrow> serves (both_ok R) (p, q, [], [])"

lemma outcome_Inr: "outcome p = Some (Inr x) \<longleftrightarrow> p = Done x"
  by (cases p) auto

lemma serves_pbind:
  assumes "serves (both_ok Q) (p, q, a, b)"
    and "\<And>x y. Q x y \<Longrightarrow> serves R (f x, g y, [], [])"
  shows "serves R (pbind p f, pbind q g, a, b)"
  using assms(1)
proof (induction "(p, q, a, b)" arbitrary: p q a b rule: serves.induct)
  case (final p x q y)
  then show ?case using assms(2) by (auto simp: both_ok_def outcome_Inr)
qed (auto intro: serves.intros)

lemma delivers_pbind:
  assumes "delivers p q Q" and "\<And>x y. Q x y \<Longrightarrow> delivers (f x) (g y) R"
  shows "delivers (pbind p f) (pbind q g) R"
  using assms unfolding delivers_def by (rule serves_pbind)

lemma delivers_Done: "R x y \<Longrightarrow> delivers (Done x) (Done y) R"
  unfolding delivers_def by (rule serves.final) (auto simp: both_ok_def)

lemma delivers_mono: "delivers p q Q \<Longrightarrow> (\<And>x y. Q x y \<Longrightarrow> R x y) \<Longrightarrow> delivers p q R"
  using delivers_pbind [of p q Q Done Done R] by (auto intro: delivers_Done)

lemma delivers_safe: "delivers p q R \<Longrightarrow> safe (both_ok R) (p, q, [], [])"
  unfolding delivers_def by (rule serves_safe)

lemma pfor_append: "pfor (is @ js) s f = pbind (pfor is s f) (\<lambda>s. pfor js s f)"
  by (induction "is" arbitrary: s) (simp_all add: pbind_assoc)

lemma delivers_pfor:
  assumes "\<And>i x y. i < n \<Longrightarrow> I i x y \<Longrightarrow> delivers (f (a + i) x) (g (b + i) y) (I (Suc i))" and "I 0 s t"
  shows "delivers (pfor [a..<a + n] s f) (pfor [b..<b + n] t g) (I n)"
  using assms(1)
proof (induction n)
  case 0
  then show ?case using assms(2) by (simp add: delivers_Done)
next
  case (Suc n)
  then have "delivers (pfor [a..<a + n] s f) (pfor [b..<b + n] t g) (I n)" by simp
  then have "delivers (pbind (pfor [a..<a + n] s f) (f (a + n))) (pbind (pfor [b..<b + n] t g) (g (b + n))) (I (Suc n))"
    by (rule delivers_pbind) (simp add: Suc.prems)
  then show ?case by (simp add: pfor_append)
qed

text \<open>A client that catches its errors: what a run of both delivers, and what an error leaves.\<close>

lemma serves_pcatch:
  assumes "serves Q (p, q, a, b)"
    and "\<And>x y. Q (Inr x) y \<Longrightarrow> serves R (f x, g y, [], [])"
    and "\<And>e y. \<not> Q (Inl e) y"
  shows "serves R (pbind p f, pbind (pcatch q) g, a, b)"
  using assms(1)
proof (induction "(p, q, a, b)" arbitrary: p q a b rule: serves.induct)
  case (final p x q y)
  then obtain x' where "x = Inr x'" using assms(3) by (cases x) auto
  with final have "p = Done x'" by (simp add: outcome_Inr)
  moreover from final \<open>x = Inr x'\<close> have "serves R (f x', g y, [], [])" using assms(2) by simp
  ultimately show ?case using final by (cases q) auto
qed (auto intro: serves.intros)

text \<open>A message from one party to the other.\<close>

lemma delivers_n_send:
  "length bs = n \<Longrightarrow> delivers p (g bs) R \<Longrightarrow> delivers (Send bs p) (Recv n g) R"
  unfolding delivers_def by (auto intro!: serves.n_send serves.c_recv)

lemma delivers_c_send:
  "length bs = n \<Longrightarrow> delivers (f bs) q R \<Longrightarrow> delivers (Recv n f) (Send bs q) R"
  unfolding delivers_def by (auto intro!: serves.c_send serves.n_recv)

lemma delivers_n_random:
  "(\<And>bs. length bs = n \<Longrightarrow> delivers (f bs) q R) \<Longrightarrow> delivers (Random n f) q R"
  unfolding delivers_def by (rule serves.n_random)

lemma delivers_c_random:
  "(\<And>bs. length bs = n \<Longrightarrow> delivers p (g bs) R) \<Longrightarrow> delivers p (Random n g) R"
  unfolding delivers_def by (rule serves.c_random)

lemma serves_Done: "R (Inr x) (Inr y) \<Longrightarrow> serves R (Done x, Done y, [], [])"
  by (rule serves.final) simp_all

lemma delivers_garbled:
  "length xs = garbler_inputs c \<Longrightarrow> length ys = evaluator_inputs c \<Longrightarrow>
     delivers p (g (circuit_fun c (xs @ ys))) R \<Longrightarrow> delivers (Garble c xs p) (Evaluate c ys g) R"
  unfolding delivers_def by (rule serves.garbled)

section \<open>Deadlocks\<close>

text \<open>\<open>stuck\<close> is a configuration without a step in which some party has not finished.\<close>

definition stuck :: "('a, 'b) config \<Rightarrow> bool" where
  "stuck c \<longleftrightarrow> (\<forall>d. \<not> step c d) \<and> (outcome (fst c) = None \<or> outcome (fst (snd c)) = None)"

lemma safe_not_stuck:
  assumes "safe R c" and "step\<^sup>*\<^sup>* c d"
  shows "\<not> stuck d"
proof -
  have "safe R d" using assms(2,1) by (induction rule: rtranclp_induct) (auto intro: safe_step)
  then show ?thesis by (cases rule: safe.cases) (auto simp: stuck_def)
qed

text \<open>What is delivered is reached, also in front of a continuation.\<close>

lemma reaches_step:
  "step c d \<Longrightarrow> \<exists>x y. Q x y \<and> step\<^sup>*\<^sup>* d (F x y) \<Longrightarrow> \<exists>x y. Q x y \<and> step\<^sup>*\<^sup>* c (F x y)"
  by (blast intro: converse_rtranclp_into_rtranclp)

lemma serves_reaches:
  assumes "serves (both_ok Q) (p, q, a, b)"
  shows "\<exists>x y. Q x y \<and> step\<^sup>*\<^sup>* (pbind p f, pbind q g, a, b) (f x, g y, [], [])"
  using assms
proof (induction "(p, q, a, b)" arbitrary: p q a b rule: serves.induct)
  case (final p x q y)
  then obtain a b where "Q a b" "p = Done a" "q = Done b" by (auto simp: both_ok_def outcome_Inr)
  then show ?case by (intro exI [of _ a] exI [of _ b]) simp
next
  case (n_random n h q a b)
  show ?case
    unfolding pbind.simps by (rule reaches_step, rule step.n_random [of "zeros n"]) (use n_random(2) [of "zeros n"] in simp_all)
next
  case (c_random n p h a b)
  show ?case
    unfolding pbind.simps by (rule reaches_step, rule step.c_random [of "zeros n"]) (use c_random(2) [of "zeros n"] in simp_all)
next
  case (n_recv h n b q a)
  show ?case
    unfolding pbind.simps by (rule reaches_step, rule step.n_recv) (use n_recv in simp_all)
next
  case (c_recv p h n a b)
  show ?case
    unfolding pbind.simps by (rule reaches_step, rule step.c_recv) (use c_recv in simp_all)
next
  case (garbled p g c xs ys)
  show ?case
    unfolding pbind.simps by (rule reaches_step, rule step.garbled) (use garbled in simp_all)
next
  case (n_send p q a bs b)
  show ?case
    unfolding pbind.simps by (rule reaches_step, rule step.n_send) (use n_send in simp_all)
next
  case (c_send p q a b bs)
  show ?case
    unfolding pbind.simps by (rule reaches_step, rule step.c_send) (use c_send in simp_all)
qed

lemma delivers_reaches:
  assumes "delivers p q Q"
  obtains x y where "Q x y" and "step\<^sup>*\<^sup>* (pbind p f, pbind q g, [], []) (f x, g y, [], [])"
  using serves_reaches [OF assms [unfolded delivers_def]] by blast

definition gets_stuck :: "('a, 'b) config \<Rightarrow> bool" where
  "gets_stuck c \<longleftrightarrow> (\<exists>d. step\<^sup>*\<^sup>* c d \<and> stuck d)"

lemma gets_stuck_now: "stuck c \<Longrightarrow> gets_stuck c"
  unfolding gets_stuck_def by blast

lemma gets_stuck_step: "step c d \<Longrightarrow> gets_stuck d \<Longrightarrow> gets_stuck c"
  unfolding gets_stuck_def by (blast intro: converse_rtranclp_into_rtranclp)

lemma gets_stuck_bind:
  assumes "delivers p q Q" and "\<And>x y. Q x y \<Longrightarrow> gets_stuck (f x, g y, [], [])"
  shows "gets_stuck (pbind p f, pbind q g, [], [])"
proof -
  obtain x y where "Q x y" and run: "step\<^sup>*\<^sup>* (pbind p f, pbind q g, [], []) (f x, g y, [], [])"
    using delivers_reaches [OF assms(1)] .
  from assms(2) [OF this(1)] obtain d where "step\<^sup>*\<^sup>* (f x, g y, [], []) d" "stuck d"
    unfolding gets_stuck_def by blast
  with rtranclp_trans [OF run] show ?thesis unfolding gets_stuck_def by blast
qed

lemma gets_stuck_random: "gets_stuck (f (zeros n), q, a, b) \<Longrightarrow> gets_stuck (Random n f, q, a, b)"
  by (rule gets_stuck_step, rule step.n_random [of "zeros n"]) simp_all

lemma gets_stuck_c_send: "gets_stuck (p, q, a, b @ bs) \<Longrightarrow> gets_stuck (p, Send bs q, a, b)"
  by (rule gets_stuck_step, rule step.c_send)

lemma gets_stuck_c_random: "gets_stuck (p, g (zeros n), a, b) \<Longrightarrow> gets_stuck (p, Random n g, a, b)"
  by (rule gets_stuck_step, rule step.c_random [of "zeros n"]) simp_all

lemma gets_stuck_n_send: "gets_stuck (p, q, a @ bs, b) \<Longrightarrow> gets_stuck (Send bs p, q, a, b)"
  by (rule gets_stuck_step, rule step.n_send)

lemma gets_stuck_n_recv: "n \<le> length b \<Longrightarrow> gets_stuck (f (take n b), q, a, drop n b) \<Longrightarrow> gets_stuck (Recv n f, q, a, b)"
  by (rule gets_stuck_step, rule step.n_recv)

lemma gets_stuck_c_recv: "n \<le> length a \<Longrightarrow> gets_stuck (p, g (take n a), drop n a, b) \<Longrightarrow> gets_stuck (p, Recv n g, a, b)"
  by (rule gets_stuck_step, rule step.c_recv)

text \<open>A message from one party to the other on the way to a deadlock.\<close>

lemma gets_stuck_to_notary: "length bs = n \<Longrightarrow> gets_stuck (f bs, q, [], []) \<Longrightarrow> gets_stuck (Recv n f, Send bs q, [], [])"
  by (rule gets_stuck_c_send, rule gets_stuck_n_recv) simp_all

lemma gets_stuck_to_client: "length bs = n \<Longrightarrow> gets_stuck (p, g bs, [], []) \<Longrightarrow> gets_stuck (Send bs p, Recv n g, [], [])"
  by (rule gets_stuck_n_send, rule gets_stuck_c_recv) simp_all

lemma gets_stuck_not_safe: "gets_stuck c \<Longrightarrow> \<not> safe R c"
  unfolding gets_stuck_def using safe_not_stuck by blast

lemma stuck_garble_recv: "0 < n \<Longrightarrow> stuck (Garble c xs p, Recv n g, [], b)"
  by (auto simp: stuck_def elim: step.cases)

lemma stuck_garble_sent: "b \<noteq> [] \<Longrightarrow> stuck (Garble c xs p, Evaluate d ys g, a, b)"
  by (auto simp: stuck_def elim: step.cases)

lemma stuck_recv_evaluate: "length b < n \<Longrightarrow> stuck (Recv n f, Evaluate d ys g, a, b)"
  by (auto simp: stuck_def elim: step.cases)

lemma stuck_recv_error: "length b < n \<Longrightarrow> stuck (Recv n f, Error e, a, b)"
  by (auto simp: stuck_def elim: step.cases)

lemma stuck_error_evaluate: "stuck (Error e, Evaluate d ys g, a, b)"
  by (auto simp: stuck_def elim: step.cases)

section \<open>One party against any other\<close>

text \<open>
  \<open>yields P p\<close>: whatever bytes \<open>p\<close> receives, draws or learns from circuits, a result satisfies \<open>P\<close>.
\<close>

inductive yields :: "('a \<Rightarrow> bool) \<Rightarrow> 'a proc \<Rightarrow> bool" for P where
  yields_Done: "P x \<Longrightarrow> yields P (Done x)"
| yields_Error: "yields P (Error e)"
| yields_Send: "yields P p \<Longrightarrow> yields P (Send bs p)"
| yields_Recv: "(\<And>bs. length bs = n \<Longrightarrow> yields P (f bs)) \<Longrightarrow> yields P (Recv n f)"
| yields_Random: "(\<And>bs. length bs = n \<Longrightarrow> yields P (f bs)) \<Longrightarrow> yields P (Random n f)"
| yields_Garble: "yields P p \<Longrightarrow> yields P (Garble c xs p)"
| yields_Evaluate: "(\<And>zs. yields P (g zs)) \<Longrightarrow> yields P (Evaluate c ys g)"

inductive_simps yields_simps [simp]:
  "yields P (Done x)" "yields P (Error e)" "yields P (Send bs p)" "yields P (Recv n f)" "yields P (Random n f)"
  "yields P (Garble c xs p)" "yields P (Evaluate c ys g)"

lemma yields_step: "step (p, q, a, b) (p', q', a', b') \<Longrightarrow> yields P p \<Longrightarrow> yields P p'"
  by (erule step_from) auto

lemma yields_reached:
  assumes "yields P p" and "step\<^sup>*\<^sup>* (p, q, a, b) d"
  shows "yields P (fst d)"
  using assms(2,1)
proof (induction rule: rtranclp_induct)
  case (step d e)
  then show ?case by (cases d; cases e) (auto intro: yields_step)
qed simp

lemma yields_pbind: "yields Q p \<Longrightarrow> (\<And>x. Q x \<Longrightarrow> yields P (f x)) \<Longrightarrow> yields P (pbind p f)"
  by (induction rule: yields.induct) auto

lemma yields_mono: "yields Q p \<Longrightarrow> (\<And>x. Q x \<Longrightarrow> P x) \<Longrightarrow> yields P p"
  by (induction rule: yields.induct) auto

lemma yields_True: "yields (\<lambda>_. True) p"
  by (induction p) auto

text \<open>A party is a tree without infinite paths, so two parties cannot run forever.\<close>

inductive child :: "'a proc \<Rightarrow> 'a proc \<Rightarrow> bool" where
  "child p (Send bs p)"
| "child (f bs) (Recv n f)"
| "child (f bs) (Random n f)"
| "child p (Garble c xs p)"
| "child (g zs) (Evaluate c ys g)"

inductive_simps child_simps:
  "child p (Done x)" "child p (Error e)" "child p (Send bs q)" "child p (Recv n f)" "child p (Random n f)"
  "child p (Garble c xs q)" "child p (Evaluate c ys g)"

lemma child_induct:
  assumes "\<And>p. (\<And>p'. child p' p \<Longrightarrow> P p') \<Longrightarrow> P p"
  shows "P p"
  by (induction p) (rule assms, auto simp: child_simps)+

lemma step_child: "step (p, q, a, b) (p', q', a', b') \<Longrightarrow> child p' p \<or> p' = p \<and> child q' q"
  by (erule step_from) (auto intro: child.intros)

lemma runs_accessible: "Wellfounded.accp (\<lambda>d c. step c d) (p, q, a, b)"
proof (induction p arbitrary: q a b rule: child_induct)
  case outer: (1 p)
  show ?case
  proof (induction q arbitrary: a b rule: child_induct)
    case inner: (1 q)
    show ?case
    proof (rule accp.accI)
      fix d assume d: "step (p, q, a, b) d"
      obtain p' q' a' b' where "d = (p', q', a', b')" by (cases d)
      with step_child d outer inner show "Wellfounded.accp (\<lambda>d c. step c d) d" by blast
    qed
  qed
qed

lemma no_infinite_run:
  "\<not> (\<exists>run. run 0 = (p, q, a, b) \<and> (\<forall>i. step (run i) (run (Suc i))))"
proof
  assume "\<exists>run. run 0 = (p, q, a, b) \<and> (\<forall>i. step (run i) (run (Suc i)))"
  then obtain run where r: "run 0 = (p, q, a, b)" "\<And>i. step (run i) (run (Suc i))" by blast
  have "Wellfounded.accp (\<lambda>d c. step c d) c \<Longrightarrow> run i = c \<Longrightarrow> False" for c i
    by (induction c arbitrary: i rule: accp.induct) (use r(2) in blast)
  with r(1) runs_accessible show False by metis
qed

lemma safe_ends:
  assumes "safe (both_ok Q) c" and "step\<^sup>*\<^sup>* c d" and "\<And>e. \<not> step d e"
  obtains x y where "d = (Done x, Done y, [], [])" and "Q x y"
proof -
  have "safe (both_ok Q) d" using assms(2,1) by (induction rule: rtranclp_induct) (auto intro: safe_step)
  then show thesis
    using assms(3) that by (cases rule: safe.cases) (auto simp: both_ok_def outcome_Inr)
qed

end
