(* ===== verification/Garble.thy ===== *)
theory Garble
  imports Processes
begin

text \<open>
  WRK17 runs on XOR-shared inputs (\<open>notary/src/garble.rs\<close>, and \<open>bytes_to_bits\<close> of
  \<open>notary/src/lib.rs\<close>). \<open>split_circuit\<close> is \<open>SplitSharedInputMaskCircuit\<close>, with the inner Bristol
  circuit as a function on bits; \<open>split_execute\<close> is its \<open>execute\<close> with every wire replaced by the
  bit it carries (\<open>backend.xor\<close> is exclusive or). The masked runs of both parties are processes.

  The lemmas show that the bit conversions are inverse to each other and commute with XOR, and that a
  masked run leaves the parties with XOR shares of the inner circuit's output on the XOR of their
  input shares, for every choice of the mask.

  A run is here the ideal functionality of the theory \<open>Processes\<close>; the garbling protocol that takes
  its place, with the OT bootstrap of \<open>Wrk17NotarySession\<close> and \<open>Wrk17ClientSession\<close>, is in the theories
  \<open>Wrk17\<close> and \<open>Wrk17_Runs\<close>.
\<close>

section \<open>Bits\<close>

definition byte_bits :: "byte \<Rightarrow> bool list" where
  "byte_bits b = map (bit b) [7, 6, 5, 4, 3, 2, 1, 0]"

definition bytes_to_bits :: "bytes \<Rightarrow> bool list" where
  "bytes_to_bits bs = concat (map byte_bits bs)"

text \<open>\<open>out[i] |= bit << (7 - j)\<close> over the bits \<open>j\<close> of the chunk \<open>i\<close>; missing chunks stay zero.\<close>

definition bits_byte :: "bool list \<Rightarrow> byte" where
  "bits_byte chunk = foldl (\<lambda>acc (j, b). acc OR push_bit (7 - j) (of_bool b)) 0 (enumerate 0 chunk)"

fun bits_to_bytes :: "nat \<Rightarrow> bool list \<Rightarrow> bytes" where
  "bits_to_bytes 0 bits = []"
| "bits_to_bytes (Suc n) bits = bits_byte (take 8 bits) # bits_to_bytes n (drop 8 bits)"

definition xor_bits :: "bool list \<Rightarrow> bool list \<Rightarrow> bool list" where
  "xor_bits xs ys = map2 (\<noteq>) xs ys"

lemma length_byte_bits [simp]: "length (byte_bits b) = 8"
  by (simp add: byte_bits_def)

lemma length_bytes_to_bits [simp, byte_simps]: "length (bytes_to_bits bs) = 8 * length bs"
  by (induction bs) (simp_all add: bytes_to_bits_def)

lemma bytes_to_bits_simps [simp]:
  "bytes_to_bits [] = []"
  "bytes_to_bits (b # bs) = byte_bits b @ bytes_to_bits bs"
  "bytes_to_bits (bs @ cs) = bytes_to_bits bs @ bytes_to_bits cs"
  by (simp_all add: bytes_to_bits_def)

lemma length_bits_to_bytes [simp, byte_simps]: "length (bits_to_bytes n bits) = n"
  by (induction n arbitrary: bits) simp_all

lemma bit_byte_eqI: "(\<And>i. i < 8 \<Longrightarrow> bit a i = bit b i) \<Longrightarrow> a = (b :: byte)"
  by (rule bit_word_eqI) simp

lemma less_8: "i < 8 \<longleftrightarrow> i \<in> {0, 1, 2, 3, 4, 5, 6, 7 :: nat}"
  by auto

lemma bits_byte_bits [simp]: "bits_byte (byte_bits b) = b"
  by (rule bit_byte_eqI) (auto simp: less_8 bits_byte_def byte_bits_def bit_simps)

lemma bits_bytes_bits: "length bs = n \<Longrightarrow> bits_to_bytes n (bytes_to_bits bs) = bs"
  by (induction bs arbitrary: n) auto

lemma bits_bytes_append: "length bs = n \<Longrightarrow> bits_to_bytes n (bytes_to_bits bs @ xs) = bs"
  by (induction bs arbitrary: n) auto

lemma byte_bits_XOR: "byte_bits (a XOR b) = xor_bits (byte_bits a) (byte_bits b)"
  by (simp add: byte_bits_def xor_bits_def bit_simps)

lemma bytes_to_bits_bxor:
  "length as = length bs \<Longrightarrow> bytes_to_bits (bxor as bs) = xor_bits (bytes_to_bits as) (bytes_to_bits bs)"
  by (induction as bs rule: list_induct2) (simp_all add: byte_bits_XOR xor_bits_def)

section \<open>The circuit wrapper\<close>

record split_circuit =
  inner :: "bool list \<Rightarrow> bool list"
  shared_inputs :: nat
  mask_bits :: nat

definition sc_garbler_inputs :: "split_circuit \<Rightarrow> nat" where
  "sc_garbler_inputs c = shared_inputs c + mask_bits c"

definition sc_evaluator_inputs :: "split_circuit \<Rightarrow> nat" where
  "sc_evaluator_inputs c = shared_inputs c + mask_bits c"

definition split_execute :: "split_circuit \<Rightarrow> bool list \<Rightarrow> bool list" where
  "split_execute c inputs =
     (let gb = sc_garbler_inputs c;
          combined = map (\<lambda>i. inputs ! i \<noteq> inputs ! (gb + i)) [0..<shared_inputs c];
          outputs = inner c combined
      in map (\<lambda>(i, out). let mask = (inputs ! (shared_inputs c + i) \<noteq> inputs ! (gb + shared_inputs c + i))
                         in out \<noteq> mask)
           (enumerate 0 outputs))"

definition split_wrk17 :: "split_circuit \<Rightarrow> wrk17_circuit" where
  "split_wrk17 c = \<lparr>garbler_inputs = sc_garbler_inputs c, evaluator_inputs = sc_evaluator_inputs c,
                    circuit_fun = split_execute c\<rparr>"

section \<open>Masked runs\<close>

definition wrk17_notary_masked_run :: "split_circuit \<Rightarrow> bool list \<Rightarrow> bytes proc" where
  "wrk17_notary_masked_run circ garbler_shared_bits =
     Random (mask_bits circ div 8) (\<lambda>mask.
       Garble (split_wrk17 circ) (garbler_shared_bits @ bytes_to_bits mask) (Done mask))"

definition wrk17_client_masked_run :: "split_circuit \<Rightarrow> bool list \<Rightarrow> bytes proc" where
  "wrk17_client_masked_run circ evaluator_shared_bits =
     Evaluate (split_wrk17 circ) (evaluator_shared_bits @ replicate (mask_bits circ) False) (\<lambda>vals.
       Done (take (mask_bits circ div 8) (bits_to_bytes 32 vals)))"

section \<open>The shares of a masked run\<close>

lemma take_bits_to_bytes: "m \<le> n \<Longrightarrow> take m (bits_to_bytes n xs) = bits_to_bytes m xs"
proof (induction n arbitrary: m xs)
  case (Suc n)
  then show ?case by (cases m) simp_all
qed simp

lemma length_xor_bits [simp]: "length (xor_bits xs ys) = min (length xs) (length ys)"
  by (simp add: xor_bits_def)

lemma xor_bits_cancel: "length xs = length ys \<Longrightarrow> xor_bits (xor_bits xs ys) ys = xs"
  by (induction xs ys rule: list_induct2) (auto simp: xor_bits_def)

lemma split_execute:
  assumes "length xs = shared_inputs c" and "length ys = shared_inputs c"
    and "length ms = mask_bits c" and "length (inner c (xor_bits xs ys)) = mask_bits c"
  shows "split_execute c (xs @ ms @ ys @ replicate (mask_bits c) False) =
    xor_bits (inner c (xor_bits xs ys)) ms"
proof -
  let ?in = "xs @ ms @ ys @ replicate (mask_bits c) False"
  let ?s = "shared_inputs c" and ?m = "mask_bits c"
  have shares: "?in ! i = xs ! i" "?in ! (?s + ?m + i) = ys ! i" if "i < ?s" for i
    using that assms(1-3) by (simp_all add: nth_append)
  have masks: "?in ! (?s + i) = ms ! i" "?in ! (?s + ?m + ?s + i) = False" if "i < ?m" for i
    using that assms(1-3) by (simp_all add: nth_append)
  have combined: "map (\<lambda>i. ?in ! i \<noteq> ?in ! (?s + ?m + i)) [0..<?s] = xor_bits xs ys"
    using assms(1,2) by (intro nth_equalityI) (simp_all add: shares xor_bits_def)
  have "map (\<lambda>(i, out). out \<noteq> (?in ! (?s + i) \<noteq> ?in ! (?s + ?m + ?s + i))) (enumerate 0 zs) = xor_bits zs ms"
    if "length zs = ?m" for zs
    using that assms(3) by (intro nth_equalityI) (simp_all add: masks xor_bits_def nth_enumerate_eq)
  from this [OF assms(4)] show ?thesis
    unfolding split_execute_def sc_garbler_inputs_def Let_def combined .
qed

lemma list8_cases:
  assumes "length us = 8"
  obtains a b c d e f g h where "us = [a, b, c, d, e, f, g, h]"
  using assms that by (auto simp: eval_nat_numeral length_Suc_conv)

lemma byte_bits_byte:
  assumes "length us = 8"
  shows "byte_bits (bits_byte us) = us"
  using assms by (rule list8_cases) (simp add: bits_byte_def byte_bits_def bit_simps)

lemma bytes_bits_bytes: "length zs = 8 * n \<Longrightarrow> bytes_to_bits (bits_to_bytes n zs) = zs"
  by (induction n arbitrary: zs) (simp_all add: byte_bits_byte)

lemma bits_to_bytes_xor:
  assumes "length ms = n" and "length zs = 8 * n"
  shows "bits_to_bytes n (xor_bits zs (bytes_to_bits ms)) = bxor (bits_to_bytes n zs) ms"
proof -
  have "xor_bits zs (bytes_to_bits ms) = bytes_to_bits (bxor (bits_to_bytes n zs) ms)"
    using assms by (simp add: bytes_to_bits_bxor bytes_bits_bytes)
  then show ?thesis
    using assms by (simp add: bits_bytes_bits)
qed

definition shares_of :: "bytes \<Rightarrow> bytes \<Rightarrow> bytes \<Rightarrow> bool" where
  "shares_of s a b \<longleftrightarrow> length a = length s \<and> length b = length s \<and> bxor a b = s"

lemma shares_ofI: "length b = length s \<Longrightarrow> shares_of s b (bxor s b)"
  by (simp add: shares_of_def bxor_commute [of s] bxor_cancel_left)

text \<open>
  The common core of all WRK17 runs of the program: the garbler's inputs are its shares and a random
  mask, the evaluator's its shares and zeros.
\<close>

lemma delivers_split:
  assumes "length xs = shared_inputs c" and "length ys = shared_inputs c"
    and "length (inner c (xor_bits xs ys)) = mask_bits c" and "mask_bits c = 8 * n"
  shows "delivers
    (Random n (\<lambda>mask. Garble (split_wrk17 c) (xs @ bytes_to_bits mask) (Done mask)))
    (Evaluate (split_wrk17 c) (ys @ replicate (mask_bits c) False) (\<lambda>vals. Done (bits_to_bytes n vals)))
    (shares_of (bits_to_bytes n (inner c (xor_bits xs ys))))"
proof (rule delivers_n_random, rule delivers_garbled)
  fix mask :: bytes
  assume mask: "length mask = n"
  show "length (xs @ bytes_to_bits mask) = garbler_inputs (split_wrk17 c)"
    using assms mask by (simp add: split_wrk17_def sc_garbler_inputs_def)
  show "length (ys @ replicate (mask_bits c) False) = evaluator_inputs (split_wrk17 c)"
    using assms by (simp add: split_wrk17_def sc_evaluator_inputs_def)
  have "circuit_fun (split_wrk17 c) ((xs @ bytes_to_bits mask) @ ys @ replicate (mask_bits c) False) =
      xor_bits (inner c (xor_bits xs ys)) (bytes_to_bits mask)"
    using split_execute [of xs c ys "bytes_to_bits mask"] assms mask by (simp add: split_wrk17_def)
  then show "delivers (Done mask)
      (Done (bits_to_bytes n (circuit_fun (split_wrk17 c)
         ((xs @ bytes_to_bits mask) @ ys @ replicate (mask_bits c) False))))
      (shares_of (bits_to_bytes n (inner c (xor_bits xs ys))))"
    using assms mask by (auto intro!: delivers_Done shares_ofI simp: bits_to_bytes_xor)
qed

lemma delivers_masked_run:
  assumes "length xs = shared_inputs c" and "length ys = shared_inputs c"
    and "length (inner c (xor_bits xs ys)) = mask_bits c" and "mask_bits c = 8 * n" and "n \<le> 32"
  shows "delivers (wrk17_notary_masked_run c xs) (wrk17_client_masked_run c ys)
    (shares_of (bits_to_bytes n (inner c (xor_bits xs ys))))"
  using delivers_split [OF assms(1-4)] assms(4,5)
  by (simp add: wrk17_notary_masked_run_def wrk17_client_masked_run_def take_bits_to_bytes)

end
