(* ===== verification/Hkdf.thy ===== *)
theory Hkdf
  imports Garble Kdf
begin

text \<open>
  Two-party HKDF-SHA256 (\<open>notary/src/hkdf.rs\<close>): the compression function on XOR shares, HMAC in four
  compressions, extract, expand-label and the TLS 1.3 key schedule, each as a pair of processes, one
  per party. \<open>compress\<close> of the hash environment stands for the function of the bundled
  \<open>sha-256-compress.txt\<close> circuit.

  The locale \<open>shared_op\<close> is the contract of a two-party operation: shares of the arguments in, shares
  of the result out, on every schedule and for all random bytes. The compression, both forms of HMAC
  and the functions of the later theories interpret it, and the key schedule is proved with its client
  lemma, step by step against the single-party functions of the theory \<open>Kdf\<close>.
\<close>

section \<open>The contract of an operation on shares\<close>

locale shared_op =
  fixes ok :: "'e \<Rightarrow> bool"
    and f :: "'e \<Rightarrow> bytes \<Rightarrow> bytes \<Rightarrow> bytes"
    and notary client :: "'e \<Rightarrow> bytes \<Rightarrow> bytes \<Rightarrow> bytes proc"
    and len1 len2 :: nat
  assumes run: "ok e \<Longrightarrow> length x = len1 \<Longrightarrow> length y = len2 \<Longrightarrow> shares_of x x_n x_c \<Longrightarrow>
    shares_of y y_n y_c \<Longrightarrow> delivers (notary e x_n y_n) (client e x_c y_c) (shares_of (f e x y))"
begin

lemma run_bind:
  assumes "ok e" and "length x = len1" and "length y = len2"
    and "shares_of x x_n x_c" and "shares_of y y_n y_c"
    and "\<And>a b. shares_of (f e x y) a b \<Longrightarrow> delivers (p a) (q b) R"
  shows "delivers (pbind (notary e x_n y_n) p) (pbind (client e x_c y_c) q) R"
  using run [OF assms(1-5)] assms(6) by (rule delivers_pbind)

lemma run_safe:
  assumes "ok e" and "length x = len1" and "length y = len2"
    and "shares_of x x_n x_c" and "shares_of y y_n y_c"
  shows "safe (both_ok (shares_of (f e x y))) (notary e x_n y_n, client e x_c y_c, [], [])"
  using run [OF assms] by (rule delivers_safe)

end

section \<open>The compression function\<close>

definition sha256_compress_wrk17_circuit :: "hash_env \<Rightarrow> split_circuit" where
  "sha256_compress_wrk17_circuit H =
     \<lparr>inner = \<lambda>bits. bytes_to_bits (compress H (bits_to_bytes 32 (take 256 bits)) (bits_to_bytes 64 (drop 256 bits))),
      shared_inputs = 768, mask_bits = 256\<rparr>"

definition compress_xor_notary_wrk17 :: "split_circuit \<Rightarrow> bytes \<Rightarrow> bytes \<Rightarrow> bytes proc" where
  "compress_xor_notary_wrk17 circ iv_n block_n =
     Random 32 (\<lambda>m_n.
       Garble (split_wrk17 circ) (bytes_to_bits (iv_n @ block_n) @ bytes_to_bits m_n) (Done m_n))"

definition OUTPUT_MASK_BITS :: nat where "OUTPUT_MASK_BITS = 256"

definition compress_xor_client_wrk17 :: "split_circuit \<Rightarrow> bytes \<Rightarrow> bytes \<Rightarrow> bytes proc" where
  "compress_xor_client_wrk17 circ iv_c block_c =
     Evaluate (split_wrk17 circ) (bytes_to_bits (iv_c @ block_c) @ replicate OUTPUT_MASK_BITS False) (\<lambda>vals.
       Done (bits_to_bytes 32 vals))"

definition notary_sha256_compress_xor :: "hash_env \<Rightarrow> bytes \<Rightarrow> bytes \<Rightarrow> bytes proc" where
  "notary_sha256_compress_xor H iv_n block_n =
     compress_xor_notary_wrk17 (sha256_compress_wrk17_circuit H) iv_n block_n"

definition client_sha256_compress_xor :: "hash_env \<Rightarrow> bytes \<Rightarrow> bytes \<Rightarrow> bytes proc" where
  "client_sha256_compress_xor H iv_c block_c =
     compress_xor_client_wrk17 (sha256_compress_wrk17_circuit H) iv_c block_c"

lemma length_compress: "hash_env_ok H \<Longrightarrow> length (compress H h b) = 32"
  by (simp add: hash_env_ok_def)

lemma compress_run:
  assumes ok: "hash_env_ok H" and l: "length iv = 32" "length blk = 64"
    and iv: "shares_of iv iv_n iv_c" and blk: "shares_of blk blk_n blk_c"
  shows "delivers (notary_sha256_compress_xor H iv_n blk_n) (client_sha256_compress_xor H iv_c blk_c)
    (shares_of (compress H iv blk))"
proof -
  let ?c = "sha256_compress_wrk17_circuit H"
  let ?x = "bytes_to_bits (iv_n @ blk_n)" and ?y = "bytes_to_bits (iv_c @ blk_c)"
  have ln: "length iv_n = 32" "length iv_c = 32" "length blk_n = 64" "length blk_c = 64"
    using l iv blk by (simp_all add: shares_of_def)
  have x: "xor_bits ?x ?y = bytes_to_bits iv @ bytes_to_bits blk"
    using ln iv blk by (simp add: shares_of_def bxor_append bytes_to_bits_bxor [symmetric] del: bytes_to_bits_simps)
      (simp add: bytes_to_bits_def)
  have inner: "inner ?c (xor_bits ?x ?y) = bytes_to_bits (compress H iv blk)"
    unfolding x using l by (simp add: sha256_compress_wrk17_circuit_def bits_bytes_bits)
  have "delivers (Random 32 (\<lambda>mask. Garble (split_wrk17 ?c) (?x @ bytes_to_bits mask) (Done mask)))
    (Evaluate (split_wrk17 ?c) (?y @ replicate (mask_bits ?c) False) (\<lambda>vals. Done (bits_to_bytes 32 vals)))
    (shares_of (bits_to_bytes 32 (inner ?c (xor_bits ?x ?y))))"
    by (rule delivers_split)
      (use ln inner length_compress [OF ok] in \<open>simp_all add: sha256_compress_wrk17_circuit_def\<close>)
  then show ?thesis
    unfolding inner notary_sha256_compress_xor_def client_sha256_compress_xor_def
      compress_xor_notary_wrk17_def compress_xor_client_wrk17_def
    using length_compress [OF ok]
    by (simp add: bits_bytes_bits sha256_compress_wrk17_circuit_def OUTPUT_MASK_BITS_def)
qed

interpretation comp: shared_op hash_env_ok compress notary_sha256_compress_xor client_sha256_compress_xor 32 64
  by unfold_locales (rule compress_run)

section \<open>HMAC\<close>

definition notary_inner_padding :: "nat \<Rightarrow> fault + bytes" where
  "notary_inner_padding msg_len =
     sbind (ensure (msg_len \<le> 55) ''single-block HMAC requires msg <= 55 bytes'') (\<lambda>_.
     let block = (zeros 64)[msg_len := 0x80];
         total_bits = (64 + msg_len) * 8
     in Inr (put block 56 (to_be 8 total_bits)))"

definition client_inner_msg :: "bytes \<Rightarrow> fault + bytes" where
  "client_inner_msg msg =
     sbind (ensure (length msg \<le> 55) ''single-block HMAC requires msg <= 55 bytes'') (\<lambda>_.
     Inr (put (zeros 64) 0 msg))"

definition outer_suffix_padding :: bytes where
  "outer_suffix_padding = put ((zeros 32)[0 := 0x80]) 24 (to_be 8 ((64 + 32) * 8))"

definition notary_hmac_sha256 :: "hash_env \<Rightarrow> bytes \<Rightarrow> nat \<Rightarrow> bytes proc" where
  "notary_hmac_sha256 H key_n msg_len =
     (let k_ipad_n = map (\<lambda>b. b XOR IPAD) key_n @ replicate 32 IPAD;
          k_opad_n = map (\<lambda>b. b XOR OPAD) key_n @ replicate 32 OPAD
      in pbind (notary_sha256_compress_xor H SHA256_INITIAL_IV_BYTES k_ipad_n) (\<lambda>h_inner_1_n.
         pbind (local_result (notary_inner_padding msg_len)) (\<lambda>notary_pad.
         pbind (notary_sha256_compress_xor H h_inner_1_n notary_pad) (\<lambda>h_inner_final_n.
         pbind (notary_sha256_compress_xor H SHA256_INITIAL_IV_BYTES k_opad_n) (\<lambda>h_outer_1_n.
         let block_n = h_inner_final_n @ outer_suffix_padding
         in notary_sha256_compress_xor H h_outer_1_n block_n)))))"

definition client_hmac_sha256 :: "hash_env \<Rightarrow> bytes \<Rightarrow> bytes \<Rightarrow> bytes proc" where
  "client_hmac_sha256 H key_c msg =
     (let k_ipad_c = put (zeros 64) 0 key_c;
          k_opad_c = put (zeros 64) 0 key_c
      in pbind (client_sha256_compress_xor H (zeros 32) k_ipad_c) (\<lambda>h_inner_1_c.
         pbind (local_result (client_inner_msg msg)) (\<lambda>client_msg_block.
         pbind (client_sha256_compress_xor H h_inner_1_c client_msg_block) (\<lambda>h_inner_final_c.
         pbind (client_sha256_compress_xor H (zeros 32) k_opad_c) (\<lambda>h_outer_1_c.
         let block_c = put (zeros 64) 0 h_inner_final_c
         in client_sha256_compress_xor H h_outer_1_c block_c)))))"

text \<open>HMAC of a 32-byte message held as XOR shares.\<close>

definition notary_xor_msg_block :: "bytes \<Rightarrow> bytes" where
  "notary_xor_msg_block notary_share =
     put ((put (zeros 64) 0 notary_share)[32 := 0x80]) 56 (to_be 8 ((64 + 32) * 8))"

definition client_xor_msg_block :: "bytes \<Rightarrow> bytes" where
  "client_xor_msg_block client_share = put (zeros 64) 0 client_share"

definition notary_hmac_sha256_xor_msg :: "hash_env \<Rightarrow> bytes \<Rightarrow> bytes \<Rightarrow> bytes proc" where
  "notary_hmac_sha256_xor_msg H key_n msg_n =
     (let k_ipad_n = map (\<lambda>b. b XOR IPAD) key_n @ replicate 32 IPAD;
          k_opad_n = map (\<lambda>b. b XOR OPAD) key_n @ replicate 32 OPAD
      in pbind (notary_sha256_compress_xor H SHA256_INITIAL_IV_BYTES k_ipad_n) (\<lambda>h_inner_1_n.
         let notary_pad = notary_xor_msg_block msg_n in
         pbind (notary_sha256_compress_xor H h_inner_1_n notary_pad) (\<lambda>h_inner_final_n.
         pbind (notary_sha256_compress_xor H SHA256_INITIAL_IV_BYTES k_opad_n) (\<lambda>h_outer_1_n.
         let block_n = h_inner_final_n @ outer_suffix_padding
         in notary_sha256_compress_xor H h_outer_1_n block_n))))"

definition client_hmac_sha256_xor_msg :: "hash_env \<Rightarrow> bytes \<Rightarrow> bytes \<Rightarrow> bytes proc" where
  "client_hmac_sha256_xor_msg H key_c msg_c =
     (let k_ipad_c = put (zeros 64) 0 key_c;
          k_opad_c = put (zeros 64) 0 key_c
      in pbind (client_sha256_compress_xor H (zeros 32) k_ipad_c) (\<lambda>h_inner_1_c.
         let client_block = client_xor_msg_block msg_c in
         pbind (client_sha256_compress_xor H h_inner_1_c client_block) (\<lambda>h_inner_final_c.
         pbind (client_sha256_compress_xor H (zeros 32) k_opad_c) (\<lambda>h_outer_1_c.
         let block_c = put (zeros 64) 0 h_inner_final_c
         in client_sha256_compress_xor H h_outer_1_c block_c))))"

subsection \<open>The shares of the blocks\<close>

lemma shares_of_public: "length s = n \<Longrightarrow> shares_of s s (zeros n)"
  by (simp add: shares_of_def)

lemma shares_of_public_client: "length s = n \<Longrightarrow> shares_of s (zeros n) s"
  by (simp add: shares_of_def)

lemma shares_of_append: "shares_of s a b \<Longrightarrow> shares_of t c d \<Longrightarrow> shares_of (s @ t) (a @ c) (b @ d)"
  by (auto simp: shares_of_def bxor_append)

lemma map_XOR: "map (\<lambda>b. b XOR c) k = bxor (replicate (length k) c) k"
  by (induction k) (simp_all add: xor.commute)

lemma map_XOR_zeros: "map (\<lambda>b. b XOR c) (zeros n) = replicate n c"
  by (simp add: zeros_def)

lemma shares_of_pad:
  assumes "shares_of k k_n k_c" and "length k = 32"
  shows "shares_of (pad_key c k) (map (\<lambda>b. b XOR c) k_n @ replicate 32 c) (put (zeros 64) 0 k_c)"
proof -
  have l: "length k_n = 32" "length k_c = 32" "k = bxor k_n k_c" using assms by (auto simp: shares_of_def)
  have "shares_of (map (\<lambda>b. b XOR c) k) (map (\<lambda>b. b XOR c) k_n) k_c"
    using l by (simp add: shares_of_def map_XOR bxor_assoc)
  from shares_of_append [OF this shares_of_public [of "replicate 32 c" 32]] l show ?thesis
    by (simp add: pad_key_def put_def map_XOR_zeros)
qed

lemma take_update_zeros: "i < n \<Longrightarrow> (zeros n)[i := x] = zeros i @ [x] @ zeros (n - i - 1)"
  by (simp add: upd_conv_take_nth_drop)

lemma notary_inner_padding:
  assumes "n \<le> 55"
  shows "notary_inner_padding n = Inr (zeros n @ [0x80] @ zeros (55 - n) @ to_be 8 (8 * (64 + n)))"
  using assms
  by (simp add: notary_inner_padding_def put_def take_update_zeros Let_def take_Cons' mult.commute
      del: to_be.simps)

lemma client_inner_msg: "length m \<le> 55 \<Longrightarrow> client_inner_msg m = Inr (m @ zeros (64 - length m))"
  by (simp add: client_inner_msg_def put_def)

lemma shares_of_short_block:
  assumes "shares_of m a b" and "length m \<le> 55"
  shows "shares_of (short_block m) (a @ [0x80] @ zeros (55 - length m) @ to_be 8 (8 * (64 + length m)))
    (b @ zeros (64 - length m))"
  unfolding short_block_def using assms
  by (intro shares_of_append shares_of_public) (simp_all del: to_be.simps)

lemma outer_suffix_padding:
  "outer_suffix_padding = [0x80] @ zeros 23 @ to_be 8 (8 * (64 + 32))"
  by (simp add: outer_suffix_padding_def put_def take_update_zeros del: to_be.simps)

lemma notary_xor_msg_block:
  "length a = 32 \<Longrightarrow> notary_xor_msg_block a = a @ [0x80] @ zeros 23 @ to_be 8 (8 * (64 + 32))"
  by (simp add: notary_xor_msg_block_def put_def list_update_append take_update_zeros del: to_be.simps)

lemma shares_of_outer:
  assumes "shares_of h a b" and "length h = 32"
  shows "shares_of (short_block h) (a @ outer_suffix_padding) (put (zeros 64) 0 b)"
  using shares_of_short_block [OF assms(1)] assms
  by (simp add: outer_suffix_padding put_def shares_of_def del: to_be.simps)

subsection \<open>HMAC on shares\<close>

text \<open>
  The four compressions, for any split of the padded message block. Both forms of HMAC are this
  protocol with their own blocks.
\<close>

lemma hmac_rounds:
  assumes ok: "hash_env_ok H" and len: "length k = 32" "length m \<le> 55"
    and k: "shares_of k k_n k_c" and blk: "shares_of (short_block m) b_n b_c"
  shows "delivers
    (pbind (notary_sha256_compress_xor H SHA256_INITIAL_IV_BYTES (map (\<lambda>b. b XOR IPAD) k_n @ replicate 32 IPAD)) (\<lambda>h1.
     pbind (notary_sha256_compress_xor H h1 b_n) (\<lambda>h2.
     pbind (notary_sha256_compress_xor H SHA256_INITIAL_IV_BYTES (map (\<lambda>b. b XOR OPAD) k_n @ replicate 32 OPAD)) (\<lambda>h3.
     notary_sha256_compress_xor H h3 (h2 @ outer_suffix_padding)))))
    (pbind (client_sha256_compress_xor H (zeros 32) (put (zeros 64) 0 k_c)) (\<lambda>h1.
     pbind (client_sha256_compress_xor H h1 b_c) (\<lambda>h2.
     pbind (client_sha256_compress_xor H (zeros 32) (put (zeros 64) 0 k_c)) (\<lambda>h3.
     client_sha256_compress_xor H h3 (put (zeros 64) 0 h2)))))
    (shares_of (hmac_of H k m))"
proof -
  note iv = shares_of_public [OF length_IV]
  have pad: "length (pad_key c k) = 64" for c using len(1) by (simp add: pad_key_def)
  have short: "length m' \<le> 55 \<Longrightarrow> length (short_block m') = 64" for m'
    by (simp add: short_block_def del: to_be.simps)
  show ?thesis
    unfolding hmac_four_compressions [OF ok len]
    by (intro comp.run_bind [OF ok length_IV pad iv shares_of_pad [OF k len(1)]]
        comp.run_bind [OF ok length_compress [OF ok] short [OF len(2)] _ blk]
        comp.run [OF ok length_compress [OF ok] short] shares_of_outer)
      (simp_all add: length_compress [OF ok])
qed

lemma hmac_run:
  assumes "hash_env_ok H" and "length k = 32" and "length m \<le> 55" and "shares_of k k_n k_c"
  shows "delivers (notary_hmac_sha256 H k_n (length m)) (client_hmac_sha256 H k_c m)
    (shares_of (hmac_of H k m))"
  using hmac_rounds [OF assms shares_of_short_block [OF shares_of_public_client [OF refl] assms(3)]] assms(3)
  by (simp add: notary_hmac_sha256_def client_hmac_sha256_def notary_inner_padding client_inner_msg Let_def)

lemma hmac_xor_msg_run:
  assumes "hash_env_ok H" and "length k = 32" and "length m = 32"
    and "shares_of k k_n k_c" and "shares_of m m_n m_c"
  shows "delivers (notary_hmac_sha256_xor_msg H k_n m_n) (client_hmac_sha256_xor_msg H k_c m_c)
    (shares_of (hmac_of H k m))"
proof -
  have m: "length m \<le> 55" and l: "length m_n = 32" "length m_c = 32"
    using assms(3,5) by (simp_all add: shares_of_def)
  have "shares_of (short_block m) (notary_xor_msg_block m_n) (client_xor_msg_block m_c)"
    using shares_of_short_block [OF assms(5) m] assms(3) l
    by (simp add: notary_xor_msg_block client_xor_msg_block_def put_def del: to_be.simps)
  from hmac_rounds [OF assms(1,2) m assms(4) this] show ?thesis
    by (simp add: notary_hmac_sha256_xor_msg_def client_hmac_sha256_xor_msg_def Let_def)
qed

interpretation hmac2: shared_op hash_env_ok hmac_of notary_hmac_sha256_xor_msg client_hmac_sha256_xor_msg 32 32
  by unfold_locales (rule hmac_xor_msg_run)

section \<open>HKDF\<close>

definition notary_hkdf_extract :: "hash_env \<Rightarrow> bytes \<Rightarrow> nat \<Rightarrow> bytes proc" where
  "notary_hkdf_extract H salt_n ikm_len = notary_hmac_sha256 H salt_n ikm_len"

definition client_hkdf_extract :: "hash_env \<Rightarrow> bytes \<Rightarrow> bytes \<Rightarrow> bytes proc" where
  "client_hkdf_extract H salt_c ikm = client_hmac_sha256 H salt_c ikm"

definition notary_hkdf_expand_label :: "hash_env \<Rightarrow> bytes \<Rightarrow> string \<Rightarrow> bytes \<Rightarrow> nat \<Rightarrow> bytes proc" where
  "notary_hkdf_expand_label H secret_n label context len =
     (let info_len = length (hkdf_expand_label_info label context len)
      in notary_hmac_sha256 H secret_n info_len)"

definition client_hkdf_expand_label :: "hash_env \<Rightarrow> bytes \<Rightarrow> string \<Rightarrow> bytes \<Rightarrow> nat \<Rightarrow> bytes proc" where
  "client_hkdf_expand_label H secret_c label context len =
     (let info = hkdf_expand_label_info label context len
      in client_hmac_sha256 H secret_c info)"

definition notary_hkdf_extract_xor_ikm :: "hash_env \<Rightarrow> bytes \<Rightarrow> bytes \<Rightarrow> bytes proc" where
  "notary_hkdf_extract_xor_ikm H salt_n ikm_n = notary_hmac_sha256_xor_msg H salt_n ikm_n"

definition client_hkdf_extract_xor_ikm :: "hash_env \<Rightarrow> bytes \<Rightarrow> bytes \<Rightarrow> bytes proc" where
  "client_hkdf_extract_xor_ikm H salt_c ikm_c = client_hmac_sha256_xor_msg H salt_c ikm_c"

section \<open>The TLS 1.3 key schedule\<close>

record traffic_shares =
  share_k_tx :: bytes
  share_k_rx :: bytes
  share_iv_tx :: bytes
  share_iv_rx :: bytes

definition notary_tls13_client_traffic_from_ikm_shares ::
  "hash_env \<Rightarrow> bytes \<Rightarrow> bytes \<Rightarrow> bytes \<Rightarrow> traffic_shares proc" where
  "notary_tls13_client_traffic_from_ikm_shares H ikm_n transcript_after_sh transcript_after_sf =
     (let empty = reference_empty_hash H;
          early = reference_hkdf_extract H (zeros 32) (zeros 32);
          derived1 = reference_hkdf_expand_label H early ''derived'' empty 32
      in pbind (notary_hkdf_extract_xor_ikm H derived1 ikm_n) (\<lambda>hs_n.
         pbind (notary_hkdf_expand_label H hs_n ''c hs traffic'' transcript_after_sh 32) (\<lambda>client_hs_n.
         pbind (notary_hkdf_expand_label H hs_n ''derived'' empty 32) (\<lambda>derived2_n.
         pbind (notary_hkdf_extract H derived2_n 32) (\<lambda>master_n.
         pbind (notary_hkdf_expand_label H master_n ''c ap traffic'' transcript_after_sf 32) (\<lambda>client_app_n.
         pbind (notary_hkdf_expand_label H master_n ''s ap traffic'' transcript_after_sf 32) (\<lambda>server_app_n.
         pbind (notary_hkdf_expand_label H client_app_n ''key'' [] 16) (\<lambda>tx_full.
         pbind (notary_hkdf_expand_label H server_app_n ''key'' [] 16) (\<lambda>rx_full.
         pbind (notary_hkdf_expand_label H client_app_n ''iv'' [] 12) (\<lambda>iv_tx_share.
         pbind (notary_hkdf_expand_label H server_app_n ''iv'' [] 12) (\<lambda>iv_rx_share.
         Done \<lparr>share_k_tx = take 16 tx_full, share_k_rx = take 16 rx_full, share_iv_tx = take 12 iv_tx_share,
               share_iv_rx = take 12 iv_rx_share\<rparr>)))))))))))"

definition client_tls13_client_traffic_from_ikm_shares ::
  "hash_env \<Rightarrow> bytes \<Rightarrow> bytes \<Rightarrow> bytes \<Rightarrow> traffic_shares proc" where
  "client_tls13_client_traffic_from_ikm_shares H ikm_c transcript_after_sh transcript_after_sf =
     (let empty = reference_empty_hash H
      in pbind (client_hkdf_extract_xor_ikm H (zeros 32) ikm_c) (\<lambda>hs_c.
         pbind (client_hkdf_expand_label H hs_c ''c hs traffic'' transcript_after_sh 32) (\<lambda>client_hs_c.
         pbind (client_hkdf_expand_label H hs_c ''derived'' empty 32) (\<lambda>derived2_c.
         pbind (client_hkdf_extract H derived2_c (zeros 32)) (\<lambda>master_c.
         pbind (client_hkdf_expand_label H master_c ''c ap traffic'' transcript_after_sf 32) (\<lambda>client_app_c.
         pbind (client_hkdf_expand_label H master_c ''s ap traffic'' transcript_after_sf 32) (\<lambda>server_app_c.
         pbind (client_hkdf_expand_label H client_app_c ''key'' [] 16) (\<lambda>tx_full.
         pbind (client_hkdf_expand_label H server_app_c ''key'' [] 16) (\<lambda>rx_full.
         pbind (client_hkdf_expand_label H client_app_c ''iv'' [] 12) (\<lambda>iv_tx_share.
         pbind (client_hkdf_expand_label H server_app_c ''iv'' [] 12) (\<lambda>iv_rx_share.
         Done \<lparr>share_k_tx = take 16 tx_full, share_k_rx = take 16 rx_full, share_iv_tx = take 12 iv_tx_share,
               share_iv_rx = take 12 iv_rx_share\<rparr>)))))))))))"

lemma length_ascii: "length (ascii_bytes s) = length s"
  by (simp add: ascii_bytes_def)

lemma length_expand_label_info:
  "length (hkdf_expand_label_info label context len) = 11 + length label + length context"
  by (simp add: hkdf_expand_label_info_def Let_def length_ascii del: to_be.simps)

lemma extract_bind:
  assumes "hash_env_ok H" and "shares_of k a b" and "length k = 32" and "length m = n" and "n \<le> 55"
    and "\<And>x y. shares_of (reference_hkdf_extract H k m) x y \<Longrightarrow> delivers (p x) (q y) R"
  shows "delivers (pbind (notary_hkdf_extract H a n) p) (pbind (client_hkdf_extract H b m) q) R"
  using hmac_run [of H k m a b] assms unfolding notary_hkdf_extract_def client_hkdf_extract_def
    reference_hkdf_extract_def by (blast intro: delivers_pbind)

lemma expand_label_bind:
  assumes "hash_env_ok H" and "shares_of k a b" and "length k = 32" and "length label + length context \<le> 44"
    and "length context_n = length context"
    and "\<And>x y. shares_of (reference_hkdf_expand_label H k label context len) x y \<Longrightarrow> delivers (p x) (q y) R"
  shows "delivers (pbind (notary_hkdf_expand_label H a label context_n len) p)
    (pbind (client_hkdf_expand_label H b label context len) q) R"
  using hmac_run [of H k "hkdf_expand_label_info label context len" a b] assms
  unfolding notary_hkdf_expand_label_def client_hkdf_expand_label_def Let_def
    reference_hkdf_expand_label_def length_expand_label_info by (auto intro: delivers_pbind)

lemma extract_xor_ikm_bind:
  assumes "hash_env_ok H" and "shares_of k a b" and "length k = 32" and "shares_of m m_n m_c" and "length m = 32"
    and "\<And>x y. shares_of (reference_hkdf_extract H k m) x y \<Longrightarrow> delivers (p x) (q y) R"
  shows "delivers (pbind (notary_hkdf_extract_xor_ikm H a m_n) p) (pbind (client_hkdf_extract_xor_ikm H b m_c) q) R"
  unfolding notary_hkdf_extract_xor_ikm_def client_hkdf_extract_xor_ikm_def
  using assms unfolding reference_hkdf_extract_def by (intro hmac2.run_bind)

lemma length_extract: "hash_env_ok H \<Longrightarrow> length k = 32 \<Longrightarrow> length m \<le> 55 \<Longrightarrow> length (reference_hkdf_extract H k m) = 32"
  by (simp add: reference_hkdf_extract_def length_hmac)

lemma length_expand_label:
  "hash_env_ok H \<Longrightarrow> length k = 32 \<Longrightarrow> length label + length context \<le> 44 \<Longrightarrow>
     length (reference_hkdf_expand_label H k label context len) = 32"
  by (simp add: reference_hkdf_expand_label_def length_hmac length_expand_label_info)

lemma length_empty_hash:
  assumes "hash_env_ok H"
  shows "length (reference_empty_hash H) = 32"
proof -
  have "length (sha256_pad []) = 64" by (simp add: sha256_pad_def del: to_be.simps)
  then have "reference_empty_hash H = compress H SHA256_INITIAL_IV_BYTES (sha256_pad [])"
    using md_blocks_block [of "sha256_pad []" "compress H" SHA256_INITIAL_IV_BYTES "[]"] assms
    by (simp add: reference_empty_hash_def hash_env_ok_def sha256_md_def md_blocks_Nil)
  then show ?thesis using length_compress [OF assms] by simp
qed

lemma shares_of_take: "shares_of s a b \<Longrightarrow> shares_of (take n s) (take n a) (take n b)"
  unfolding shares_of_def take_bxor [symmetric] by simp

definition traffic_shares_of :: "bytes \<times> bytes \<times> bytes \<times> bytes \<Rightarrow> traffic_shares \<Rightarrow> traffic_shares \<Rightarrow> bool" where
  "traffic_shares_of t n c \<longleftrightarrow>
     (case t of (k_tx, iv_tx, k_rx, iv_rx) \<Rightarrow>
        shares_of k_tx (share_k_tx n) (share_k_tx c) \<and> shares_of iv_tx (share_iv_tx n) (share_iv_tx c) \<and>
        shares_of k_rx (share_k_rx n) (share_k_rx c) \<and> shares_of iv_rx (share_iv_rx n) (share_iv_rx c))"

lemma traffic_shares_of_takes:
  "shares_of a1 n1 c1 \<Longrightarrow> shares_of a2 n2 c2 \<Longrightarrow> shares_of a3 n3 c3 \<Longrightarrow> shares_of a4 n4 c4 \<Longrightarrow>
     traffic_shares_of (take 16 a1, take 12 a2, take 16 a3, take 12 a4)
       \<lparr>share_k_tx = take 16 n1, share_k_rx = take 16 n3, share_iv_tx = take 12 n2, share_iv_rx = take 12 n4\<rparr>
       \<lparr>share_k_tx = take 16 c1, share_k_rx = take 16 c3, share_iv_tx = take 12 c2, share_iv_rx = take 12 c4\<rparr>"
  by (simp add: traffic_shares_of_def shares_of_take)

lemma key_schedule_run:
  assumes ok: "hash_env_ok H" and ikm: "shares_of ikm ikm_n ikm_c" and len: "length ikm = 32"
    and sh: "length sh = 32" "length sh_n = 32" and sf: "length sf = 32" "length sf_n = 32"
  shows "delivers (notary_tls13_client_traffic_from_ikm_shares H ikm_n sh_n sf_n)
    (client_tls13_client_traffic_from_ikm_shares H ikm_c sh sf)
    (traffic_shares_of (reference_tls13_client_traffic H ikm sh sf))"
proof -
  note lens = length_extract [OF ok] length_expand_label [OF ok] length_empty_hash [OF ok]
  show ?thesis
    unfolding notary_tls13_client_traffic_from_ikm_shares_def client_tls13_client_traffic_from_ikm_shares_def
      reference_tls13_client_traffic_def Let_def
    by (rule extract_xor_ikm_bind [OF ok shares_of_public _ ikm]
        expand_label_bind [OF ok] extract_bind [OF ok] delivers_Done traffic_shares_of_takes | assumption
        | simp add: lens len sh sf)+
qed

section \<open>Properties\<close>

text \<open>
  The HMAC of the two parties: on every schedule and for all random masks both finish, and their
  outputs are XOR shares of the HMAC of the client's message under the shared key.
\<close>

theorem two_party_hmac:
  assumes "hash_env_ok H" and "length k_n = 32" and "length k_c = 32" and "length msg \<le> 55"
  shows "safe (both_ok (shares_of (hmac_of H (bxor k_n k_c) msg)))
    (notary_hmac_sha256 H k_n (length msg), client_hmac_sha256 H k_c msg, [], [])"
  using assms by (intro delivers_safe hmac_run) (simp_all add: shares_of_def)

theorem two_party_hmac_example:
  "safe (both_ok (shares_of (hmac_of xor_hash (bxor (replicate 32 1) (replicate 32 2)) [1, 2, 3])))
    (notary_hmac_sha256 xor_hash (replicate 32 1) 3, client_hmac_sha256 xor_hash (replicate 32 2) [1, 2, 3], [], [])"
  using two_party_hmac [OF xor_hash_ok, of "replicate 32 1" "replicate 32 2" "[1, 2, 3]"] by (simp add: eval_nat_numeral)

text \<open>
  C6. The key schedule of the two parties: on every schedule and for all random masks both finish, and
  the XOR of their keys and IVs is what the reference key schedule gives on the XOR of their input
  shares. The transcript hashes are the client's: those of the notary may be any 32 bytes.
\<close>

theorem two_party_key_schedule:
  assumes "hash_env_ok H" and "length ikm_n = 32" and "length ikm_c = 32"
    and "length sh_n = 32" and "length sf_n = 32" and "length sh_c = 32" and "length sf_c = 32"
  shows "safe (both_ok (traffic_shares_of (reference_tls13_client_traffic H (bxor ikm_n ikm_c) sh_c sf_c)))
    (notary_tls13_client_traffic_from_ikm_shares H ikm_n sh_n sf_n,
     client_tls13_client_traffic_from_ikm_shares H ikm_c sh_c sf_c, [], [])"
  using assms by (intro delivers_safe key_schedule_run) (simp_all add: shares_of_def)

theorem two_party_key_schedule_witness:
  "safe (both_ok (traffic_shares_of (reference_tls13_client_traffic xor_hash
       (bxor (replicate 32 1) (replicate 32 2)) (replicate 32 3) (replicate 32 4))))
    (notary_tls13_client_traffic_from_ikm_shares xor_hash (replicate 32 1) (zeros 32) (zeros 32),
     client_tls13_client_traffic_from_ikm_shares xor_hash (replicate 32 2) (replicate 32 3) (replicate 32 4), [], [])"
  by (rule two_party_key_schedule [OF xor_hash_ok]) simp_all

text \<open>
  The longest label of the schedule fills the single block exactly: the info string of a traffic
  secret has 55 bytes, and with a label one byte longer both parties panic.
\<close>

theorem traffic_label_fills_block:
  "length ctx = 32 \<longrightarrow>
     length (hkdf_expand_label_info ''c hs traffic'' ctx 32) = 55 \<and>
     (length label = 13 \<longrightarrow>
       (\<exists>f g. notary_inner_padding (length (hkdf_expand_label_info label ctx 32)) = Inl f \<and>
              client_inner_msg (hkdf_expand_label_info label ctx 32) = Inl g))"
  by (simp add: length_expand_label_info notary_inner_padding_def client_inner_msg_def ensure_def)

theorem traffic_label_fills_block_example:
  "length (hkdf_expand_label_info ''c hs traffic'' (zeros 32) 32) = 55"
  using traffic_label_fills_block [of "zeros 32" "[]"] by simp



end
