(* ===== verification/Ghash.thy ===== *)
theory Ghash
  imports Hkdf
begin

text \<open>
  GHASH for AES-GCM (\<open>notary/src/ghash.rs\<close>): the bit-serial multiplication in GF(2^128) as the circuit
  evaluates it, the chain over the blocks of a record, the reference functions on bytes, and the two
  parties' runs of the chain.

  The lemmas show that circuit and reference compute the same function, that this function is
  bilinear, commutative and associative with unit \<open>100...0\<close>, and that the two parties end with XOR
  shares of the reference chain.
\<close>

section \<open>The circuits\<close>

text \<open>One round of \<open>GhashMulCircuit::execute_on\<close>, on the accumulator and the shifted multiplicand.\<close>

definition ghash_round :: "bool list \<times> bool list \<Rightarrow> bool \<Rightarrow> bool list \<times> bool list" where
  "ghash_round = (\<lambda>(z, v) xi.
     let z' = map (\<lambda>j. z ! j \<noteq> (xi \<and> v ! j)) [0..<128];
         lsb = v ! 127;
         new_v = False # take 127 v
     in (z', foldl (\<lambda>v r. v[r := (v ! r \<noteq> lsb)]) new_v [0, 1, 2, 7]))"

definition ghash_mul_execute_on :: "bool list \<Rightarrow> bool list \<Rightarrow> bool list" where
  "ghash_mul_execute_on x y = fst (foldl ghash_round (replicate 128 False, y) (take 128 x))"

definition ghash_chain_execute :: "nat \<Rightarrow> bool list \<Rightarrow> bool list" where
  "ghash_chain_execute n_blocks inputs =
     (let h = take 128 inputs
      in foldl (\<lambda>acc blk. let block = take 128 (drop (128 + blk * 128) inputs);
                             x = xor_bits acc block
                         in ghash_mul_execute_on x h)
           (replicate 128 False) [0..<n_blocks])"

text \<open>\<open>GhashChainWrk17Circuit\<close>, which repeats the wrapper of \<open>SplitSharedInputMaskCircuit\<close>.\<close>

definition ghash_chain_wrk17_circuit :: "nat \<Rightarrow> split_circuit" where
  "ghash_chain_wrk17_circuit n_blocks =
     \<lparr>inner = ghash_chain_execute n_blocks, shared_inputs = 128 + n_blocks * 128, mask_bits = 128\<rparr>"

section \<open>The reference\<close>

definition ghash_reference_round :: "bool list \<times> bool list \<Rightarrow> bool \<Rightarrow> bool list \<times> bool list" where
  "ghash_reference_round = (\<lambda>(z, v) xi.
     let z' = (if xi then foldl (\<lambda>z j. if v ! j then z[j := \<not> z ! j] else z) z [0..<128] else z);
         lsb = v ! 127;
         new_v = False # take 127 v
     in (z', if lsb then foldl (\<lambda>v r. v[r := \<not> v ! r]) new_v [0, 1, 2, 7] else new_v))"

definition ghash_mul_reference :: "bytes \<Rightarrow> bytes \<Rightarrow> bytes" where
  "ghash_mul_reference x y =
     bits_to_bytes 16 (fst (foldl ghash_reference_round (replicate 128 False, bytes_to_bits y)
                              (take 128 (bytes_to_bits x))))"

definition xor_bytes16 :: "bytes \<Rightarrow> bytes \<Rightarrow> bytes" where
  "xor_bytes16 a b = bxor a b"

definition ghash_chain_reference :: "bytes \<Rightarrow> bytes list \<Rightarrow> bytes" where
  "ghash_chain_reference h blocks =
     foldl (\<lambda>acc block. ghash_mul_reference (xor_bytes16 acc block) h) (zeros 16) blocks"

definition zero_pad_block :: "bytes \<Rightarrow> nat \<Rightarrow> bytes" where
  "zero_pad_block block valid_bytes =
     (if valid_bytes < 16 then take valid_bytes block @ map (\<lambda>_. 0) (drop valid_bytes block) else block)"

definition ct_eq16 :: "bytes \<Rightarrow> bytes \<Rightarrow> bool" where
  "ct_eq16 a b = (foldl (\<lambda>diff i. diff OR (a ! i XOR b ! i)) 0 [0..<16] = 0)"

section \<open>Circuit and reference agree\<close>

lemma foldl_flip:
  assumes "length z = n" and "m \<le> n"
  shows "foldl (\<lambda>z j. if v ! j then z[j := \<not> z ! j] else z) z [0..<m] =
    map (\<lambda>j. if j < m then z ! j \<noteq> v ! j else z ! j) [0..<n]"
  using assms(2)
proof (induction m)
  case 0
  then show ?case using assms by (intro nth_equalityI) simp_all
next
  case (Suc m)
  then have IH: "foldl (\<lambda>z j. if v ! j then z[j := \<not> z ! j] else z) z [0..<m] =
    map (\<lambda>j. if j < m then z ! j \<noteq> v ! j else z ! j) [0..<n]" by simp
  show ?case
    unfolding upt_Suc_append [OF le0] foldl_append IH
    using Suc.prems
    by (cases "v ! m"; intro nth_equalityI) (auto simp: nth_list_update less_Suc_eq)
qed

lemma foldl_same: "foldl (\<lambda>v r. v) w rs = w"
  by (induction rs) simp_all

lemma foldl_reduce:
  "foldl (\<lambda>v r. v[r := (v ! r \<noteq> lsb)]) w rs = (if lsb then foldl (\<lambda>v r. v[r := \<not> v ! r]) w rs else w)"
  by (induction rs arbitrary: w) auto

lemma rounds_agree:
  assumes "length z = 128"
  shows "ghash_reference_round (z, v) xi = ghash_round (z, v) xi"
proof -
  have "map (\<lambda>j. if j < 128 then z ! j \<noteq> v ! j else z ! j) [0..<128] = map (\<lambda>j. z ! j \<noteq> v ! j) [0..<128]"
    by simp
  moreover have "z = map (\<lambda>j. z ! j) [0..<128]"
    using assms by (intro nth_equalityI) simp_all
  ultimately show ?thesis
    using foldl_flip [OF assms order.refl, of v]
    by (simp add: foldl_same ghash_reference_round_def ghash_round_def Let_def foldl_reduce del: foldl_Cons foldl_Nil)
qed

lemma length_ghash_round: "length (fst (ghash_round (z, v) xi)) = 128"
  by (simp add: ghash_round_def Let_def)

lemma folds_agree:
  "length z = 128 \<Longrightarrow> foldl ghash_reference_round (z, v) xs = foldl ghash_round (z, v) xs"
proof (induction xs arbitrary: z v)
  case (Cons x xs)
  obtain z' v' where r: "ghash_round (z, v) x = (z', v')" by (cases "ghash_round (z, v) x")
  then have "length z' = 128" using length_ghash_round [of z v x] by simp
  with Cons r rounds_agree [of z v x] show ?case by simp
qed simp

lemma length_fold_round: "length z = 128 \<Longrightarrow> length (fst (foldl ghash_round (z, v) xs)) = 128"
proof (induction xs arbitrary: z v)
  case (Cons x xs)
  obtain z' v' where r: "ghash_round (z, v) x = (z', v')" by (cases "ghash_round (z, v) x")
  then have "length z' = 128" using length_ghash_round [of z v x] by simp
  with Cons r show ?case by simp
qed simp

lemma length_ghash_mul [simp]: "length (ghash_mul_execute_on x y) = 128"
  by (simp add: ghash_mul_execute_on_def length_fold_round)

lemma ghash_mul_reference:
  "ghash_mul_reference x y = bits_to_bytes 16 (ghash_mul_execute_on (bytes_to_bits x) (bytes_to_bits y))"
  by (simp add: ghash_mul_reference_def ghash_mul_execute_on_def folds_agree)

lemma bytes_to_bits_ghash_mul:
  "bytes_to_bits (ghash_mul_reference x y) = ghash_mul_execute_on (bytes_to_bits x) (bytes_to_bits y)"
  by (simp add: ghash_mul_reference bytes_bits_bytes)

lemma length_ghash_mul_reference [simp]: "length (ghash_mul_reference x y) = 16"
  by (simp add: ghash_mul_reference)

lemma length_ghash_chain_reference [simp]: "length (ghash_chain_reference h blocks) = 16"
  by (cases blocks rule: rev_cases) (simp_all add: ghash_chain_reference_def)

section \<open>The algebra of the multiplication\<close>

text \<open>
  \<open>times_x\<close> is the shift of a round (multiplication by the generator) and \<open>gsum v xs\<close> the sum of the
  shifts of \<open>v\<close> selected by \<open>xs\<close>; the fold of the code computes it.
\<close>

definition times_x :: "bool list \<Rightarrow> bool list" where
  "times_x v = (if v ! 127 then xor_bits (False # take 127 v)
     (map (\<lambda>j. j \<in> {0, 1, 2, 7}) [0..<128]) else False # take 127 v)"

primrec gsum :: "bool list \<Rightarrow> bool list \<Rightarrow> bool list" where
  "gsum v [] = replicate 128 False"
| "gsum v (x # xs) = xor_bits (if x then v else replicate 128 False) (gsum (times_x v) xs)"

lemma xor_bits_simps [simp]:
  "xor_bits [] ys = []"
  "xor_bits (x # xs) (y # ys) = (x \<noteq> y) # xor_bits xs ys"
  by (simp_all add: xor_bits_def)

lemma nth_xor_bits [simp]: "i < length xs \<Longrightarrow> i < length ys \<Longrightarrow> xor_bits xs ys ! i = (xs ! i \<noteq> ys ! i)"
  by (simp add: xor_bits_def)

lemma xor_bits_commute: "length xs = length ys \<Longrightarrow> xor_bits xs ys = xor_bits ys xs"
  by (induction xs ys rule: list_induct2) auto

lemma xor_bits_assoc:
  "length xs = length ys \<Longrightarrow> length ys = length zs \<Longrightarrow>
     xor_bits (xor_bits xs ys) zs = xor_bits xs (xor_bits ys zs)"
  by (induction xs ys zs rule: list_induct3) auto

lemma xor_bits_False [simp]:
  "length xs = n \<Longrightarrow> xor_bits (replicate n False) xs = xs"
  "length xs = n \<Longrightarrow> xor_bits xs (replicate n False) = xs"
  by (induction xs arbitrary: n) auto

lemma xor_bits_swap:
  assumes "length a = n" "length b = n" "length c = n" "length d = n"
  shows "xor_bits (xor_bits a b) (xor_bits c d) = xor_bits (xor_bits a c) (xor_bits b d)"
  using assms by (intro nth_equalityI) auto

lemma length_times_x [simp]: "length v = 128 \<Longrightarrow> length (times_x v) = 128"
  by (simp add: times_x_def)

lemma length_gsum [simp]: "length v = 128 \<Longrightarrow> length (gsum v xs) = 128"
  by (induction xs arbitrary: v) simp_all

lemma ghash_round_eq:
  assumes "length z = 128" and "length v = 128"
  shows "ghash_round (z, v) x = (xor_bits z (if x then v else replicate 128 False), times_x v)"
proof -
  have "map (\<lambda>j. z ! j \<noteq> (x \<and> v ! j)) [0..<128] = xor_bits z (if x then v else replicate 128 False)"
    using assms by (intro nth_equalityI) auto
  moreover have "foldl (\<lambda>v r. v[r := (v ! r \<noteq> lsb)]) w [0, 1, 2, 7] =
      (if lsb then xor_bits w (map (\<lambda>j. j \<in> {0, 1, 2, 7}) [0..<128]) else w)" if "length w = 128" for lsb w
    using that unfolding foldl_reduce by (auto intro!: nth_equalityI simp: nth_list_update split: if_splits)
  ultimately show ?thesis
    using assms by (simp add: ghash_round_def Let_def times_x_def del: foldl_Cons foldl_Nil)
qed

lemma foldl_ghash_round:
  "length z = 128 \<Longrightarrow> length v = 128 \<Longrightarrow> fst (foldl ghash_round (z, v) xs) = xor_bits z (gsum v xs)"
  by (induction xs arbitrary: z v) (simp_all add: ghash_round_eq xor_bits_assoc)

lemma ghash_mul_gsum: "length x = 128 \<Longrightarrow> length y = 128 \<Longrightarrow> ghash_mul_execute_on x y = gsum y x"
  by (simp add: ghash_mul_execute_on_def foldl_ghash_round)

lemma times_x_xor:
  assumes "length v = 128" and "length w = 128"
  shows "times_x (xor_bits v w) = xor_bits (times_x v) (times_x w)"
proof -
  have "False # take 127 (xor_bits v w) = xor_bits (False # take 127 v) (False # take 127 w)"
    using assms by (intro nth_equalityI) (auto simp: nth_Cons')
  then show ?thesis
    using assms by (intro nth_equalityI) (auto simp: times_x_def)
qed

lemma gsum_xor_left:
  "length v = 128 \<Longrightarrow> length w = 128 \<Longrightarrow> gsum (xor_bits v w) xs = xor_bits (gsum v xs) (gsum w xs)"
proof (induction xs arbitrary: v w)
  case (Cons x xs)
  then show ?case
    by (cases x) (simp_all add: times_x_xor xor_bits_swap [where n = 128])
qed simp

lemma gsum_xor_right:
  "length xs = length ys \<Longrightarrow> length v = 128 \<Longrightarrow> gsum v (xor_bits xs ys) = xor_bits (gsum v xs) (gsum v ys)"
proof (induction xs ys arbitrary: v rule: list_induct2)
  case (Cons x xs y ys)
  have "(if x \<noteq> y then v else replicate 128 False) =
      xor_bits (if x then v else replicate 128 False) (if y then v else replicate 128 False)"
    using Cons.prems by (auto intro!: nth_equalityI)
  with Cons show ?case by (simp add: xor_bits_swap [where n = 128])
qed simp

lemma times_x_zero: "times_x (replicate 128 False) = replicate 128 False"
  by (auto intro!: nth_equalityI simp: times_x_def nth_Cons' split: if_splits)

lemma gsum_zero: "gsum (replicate 128 False) xs = replicate 128 False"
  by (induction xs) (simp_all add: times_x_zero)

lemma gsum_times_x: "length v = 128 \<Longrightarrow> gsum (times_x v) xs = times_x (gsum v xs)"
  by (induction xs arbitrary: v) (simp_all add: times_x_zero times_x_xor)

lemma gsum_gsum:
  "length w = 128 \<Longrightarrow> gsum (gsum w ys) xs = gsum (gsum w xs) ys"
proof (induction ys arbitrary: w)
  case (Cons y ys)
  then have "gsum (gsum (times_x w) ys) xs = gsum (times_x (gsum w xs)) ys"
    by (simp add: gsum_times_x)
  with Cons.prems show ?case
    by (cases y) (simp_all add: gsum_xor_left gsum_zero)
qed (simp add: gsum_zero)

definition unit_bits :: "nat \<Rightarrow> bool list" where
  "unit_bits k = (replicate 128 False)[k := True]"

lemma length_unit_bits [simp]: "length (unit_bits k) = 128"
  by (simp add: unit_bits_def)

lemma times_x_unit: "k < 127 \<Longrightarrow> times_x (unit_bits k) = unit_bits (Suc k)"
  by (intro nth_equalityI) (auto simp: times_x_def unit_bits_def nth_list_update nth_Cons')

lemma gsum_unit:
  "k + length ys = 128 \<Longrightarrow> gsum (unit_bits k) ys = replicate k False @ ys"
proof (induction ys arbitrary: k)
  case (Cons y ys)
  have "gsum (times_x (unit_bits k)) ys = replicate (Suc k) False @ ys"
  proof (cases ys)
    case Nil
    then show ?thesis using Cons.prems by (simp add: replicate_Suc [symmetric] del: replicate_Suc)
  next
    case (Cons a as)
    then show ?thesis using Cons.IH [of "Suc k"] Cons.prems times_x_unit [of k] by simp
  qed
  moreover have "xor_bits (if y then unit_bits k else replicate 128 False) (replicate (Suc k) False @ ys) =
      replicate k False @ y # ys" (is "?l = ?r")
  proof (rule nth_equalityI)
    show "length ?l = length ?r" using Cons.prems by simp
    fix i assume "i < length ?l"
    then have "i < 128" using Cons.prems by simp
    then show "?l ! i = ?r ! i"
      using Cons.prems by (cases "i < k"; cases "i = k")
        (auto simp: nth_append unit_bits_def nth_list_update simp del: replicate_Suc)
  qed
  ultimately show ?case by simp
qed simp

lemma gsum_unit_0: "length y = 128 \<Longrightarrow> gsum (unit_bits 0) y = y"
  using gsum_unit [of 0 y] by simp

lemma gsum_commute: "length x = 128 \<Longrightarrow> length y = 128 \<Longrightarrow> gsum y x = gsum x y"
  using gsum_gsum [of "unit_bits 0" y x] by (simp add: gsum_unit_0)

lemma gsum_assoc:
  "length x = 128 \<Longrightarrow> length y = 128 \<Longrightarrow> length z = 128 \<Longrightarrow> gsum z (gsum y x) = gsum (gsum z y) x"
  using gsum_gsum [of y z x] by (simp add: gsum_commute [of z])

section \<open>The runs of the two parties\<close>

definition run_notary_ghash_chain :: "split_circuit \<Rightarrow> bool list \<Rightarrow> bytes proc" where
  "run_notary_ghash_chain circ garbler_shared_bits =
     Random 16 (\<lambda>mask.
       Garble (split_wrk17 circ) (garbler_shared_bits @ bytes_to_bits mask) (Done mask))"

definition run_client_ghash_chain :: "split_circuit \<Rightarrow> bool list \<Rightarrow> bytes proc" where
  "run_client_ghash_chain circ evaluator_shared_bits =
     Evaluate (split_wrk17 circ) (evaluator_shared_bits @ replicate 128 False) (\<lambda>vals.
       Done (bits_to_bytes 16 vals))"

definition notary_ghash_chain_wrk17 :: "bytes list \<Rightarrow> bytes \<Rightarrow> bytes proc" where
  "notary_ghash_chain_wrk17 blocks_n h_n =
     (let circ = ghash_chain_wrk17_circuit (length blocks_n);
          gb_bits = bytes_to_bits h_n @ concat (map bytes_to_bits blocks_n)
      in run_notary_ghash_chain circ gb_bits)"

definition client_ghash_chain_wrk17 :: "bytes list \<Rightarrow> bytes \<Rightarrow> bytes proc" where
  "client_ghash_chain_wrk17 blocks_c h_c =
     (let circ = ghash_chain_wrk17_circuit (length blocks_c);
          ev_bits = bytes_to_bits h_c @ concat (map bytes_to_bits blocks_c)
      in run_client_ghash_chain circ ev_bits)"

definition blocks16 :: "bytes list \<Rightarrow> bool" where
  "blocks16 bs \<longleftrightarrow> list_all (\<lambda>b. length b = 16) bs"

lemma blocks16_simps [simp]:
  "blocks16 []"
  "blocks16 (b # bs) \<longleftrightarrow> length b = 16 \<and> blocks16 bs"
  "blocks16 (as @ bs) \<longleftrightarrow> blocks16 as \<and> blocks16 bs"
  by (auto simp: blocks16_def)

lemma length_concat_blocks: "blocks16 bs \<Longrightarrow> length (concat (map bytes_to_bits bs)) = 128 * length bs"
  by (induction bs) simp_all

lemma block_bits:
  "blocks16 bs \<Longrightarrow> k < length bs \<Longrightarrow>
     take 128 (drop (k * 128) (concat (map bytes_to_bits bs))) = bytes_to_bits (bs ! k)"
proof (induction bs arbitrary: k)
  case (Cons b bs)
  then show ?case by (cases k) simp_all
qed simp

lemma concat_blocks_xor:
  assumes "length as = length bs" and "blocks16 as" and "blocks16 bs"
  shows "xor_bits (concat (map bytes_to_bits as)) (concat (map bytes_to_bits bs)) =
    concat (map bytes_to_bits (map2 bxor as bs))"
  using assms
proof (induction as bs rule: list_induct2)
  case (Cons a as b bs)
  then show ?case by (simp add: bytes_to_bits_bxor) (simp add: xor_bits_def)
qed simp

lemma ghash_chain_prefix:
  assumes "blocks16 bs" and "length h = 16" and "n \<le> length bs"
  shows "ghash_chain_execute n (bytes_to_bits h @ concat (map bytes_to_bits bs)) =
    bytes_to_bits (ghash_chain_reference h (take n bs))"
  using assms(3)
proof (induction n)
  case 0
  have "bytes_to_bits (zeros 16) = replicate 128 False"
    by (simp add: bytes_to_bits_def zeros_def byte_bits_def numeral_eq_Suc)
  then show ?case by (simp add: ghash_chain_execute_def ghash_chain_reference_def)
next
  case (Suc n)
  have blk: "take 128 (drop (128 + n * 128) (bytes_to_bits h @ concat (map bytes_to_bits bs))) =
      bytes_to_bits (bs ! n)"
    using block_bits [OF assms(1), of n] assms(2) Suc.prems by simp
  have "length (bs ! n) = 16"
    using assms(1) Suc.prems by (simp add: blocks16_def list_all_length)
  then have "xor_bits (bytes_to_bits (ghash_chain_reference h (take n bs))) (bytes_to_bits (bs ! n)) =
      bytes_to_bits (xor_bytes16 (ghash_chain_reference h (take n bs)) (bs ! n))"
    by (simp add: xor_bytes16_def bytes_to_bits_bxor)
  then show ?case
    using Suc blk assms(2)
    by (simp add: ghash_chain_execute_def Let_def take_Suc_conv_app_nth)
      (simp add: ghash_chain_reference_def bytes_to_bits_ghash_mul)
qed

lemma ghash_chain_run:
  assumes "length blocks_n = length blocks_c" and "blocks16 blocks_n" and "blocks16 blocks_c"
    and h: "shares_of h h_n h_c" and "length h = 16"
  shows "delivers (notary_ghash_chain_wrk17 blocks_n h_n) (client_ghash_chain_wrk17 blocks_c h_c)
    (shares_of (ghash_chain_reference h (map2 bxor blocks_n blocks_c)))"
proof -
  let ?c = "ghash_chain_wrk17_circuit (length blocks_c)"
  let ?x = "bytes_to_bits h_n @ concat (map bytes_to_bits blocks_n)"
  let ?y = "bytes_to_bits h_c @ concat (map bytes_to_bits blocks_c)"
  have l: "length h_n = 16" "length h_c = 16" "h = bxor h_n h_c"
    using assms(4,5) by (simp_all add: shares_of_def)
  have "blocks16 (map2 bxor blocks_n blocks_c)"
    using assms(1-3) by (induction blocks_n blocks_c rule: list_induct2) simp_all
  from ghash_chain_prefix [OF this, of h "length blocks_c"] assms(1,5)
  have ref: "ghash_chain_execute (length blocks_c) (bytes_to_bits h @ concat (map bytes_to_bits (map2 bxor blocks_n blocks_c))) =
      bytes_to_bits (ghash_chain_reference h (map2 bxor blocks_n blocks_c))" by simp
  have "xor_bits ?x ?y = bytes_to_bits h @ concat (map bytes_to_bits (map2 bxor blocks_n blocks_c))"
    unfolding concat_blocks_xor [OF assms(1-3), symmetric] l(3)
    using l(1,2) by (simp add: bytes_to_bits_bxor) (simp add: xor_bits_def)
  with ref have inner: "inner ?c (xor_bits ?x ?y) = bytes_to_bits (ghash_chain_reference h (map2 bxor blocks_n blocks_c))"
    by (simp add: ghash_chain_wrk17_circuit_def)
  have "delivers (Random 16 (\<lambda>mask. Garble (split_wrk17 ?c) (?x @ bytes_to_bits mask) (Done mask)))
    (Evaluate (split_wrk17 ?c) (?y @ replicate (mask_bits ?c) False) (\<lambda>vals. Done (bits_to_bytes 16 vals)))
    (shares_of (bits_to_bytes 16 (inner ?c (xor_bits ?x ?y))))"
    by (rule delivers_split)
      (use l(1,2) inner assms(1-3) in \<open>simp_all add: ghash_chain_wrk17_circuit_def length_concat_blocks\<close>)
  then show ?thesis
    unfolding inner notary_ghash_chain_wrk17_def client_ghash_chain_wrk17_def
      run_notary_ghash_chain_def run_client_ghash_chain_def Let_def assms(1)
    by (simp add: bits_bytes_bits ghash_chain_wrk17_circuit_def)
qed

section \<open>Helpers of the record layer\<close>

lemma zero_pad_block: "length b = 16 \<Longrightarrow> zero_pad_block b n = take n b @ zeros (16 - n)"
  by (simp add: zero_pad_block_def zeros_def map_replicate_const)

lemma foldl_or_eq_0: "foldl (\<lambda>d i. d OR f i) (d :: byte) is = 0 \<longleftrightarrow> d = 0 \<and> (\<forall>i \<in> set is. f i = 0)"
  by (induction "is" arbitrary: d) (auto simp: or_eq_0_iff)

lemma xor_eq_0_iff: "a XOR b = (0 :: byte) \<longleftrightarrow> a = b"
  by (auto simp: bit_eq_iff bit_xor_iff)

lemma ct_eq16_iff: "length a = 16 \<Longrightarrow> length b = 16 \<Longrightarrow> ct_eq16 a b \<longleftrightarrow> a = b"
  by (auto simp: ct_eq16_def foldl_or_eq_0 xor_eq_0_iff list_eq_iff_nth_eq)

section \<open>Properties\<close>

text \<open>
  C17. The multiplication of the circuit is that of the reference, and it is the multiplication of a
  commutative ring: commutative, associative and distributive over XOR.
\<close>

theorem ghash_multiplication:
  assumes "length x = 16" and "length y = 16" and "length z = 16"
  shows "bytes_to_bits (ghash_mul_reference x y) = ghash_mul_execute_on (bytes_to_bits x) (bytes_to_bits y) \<and>
    ghash_mul_reference x y = ghash_mul_reference y x \<and>
    ghash_mul_reference (ghash_mul_reference x y) z = ghash_mul_reference x (ghash_mul_reference y z) \<and>
    ghash_mul_reference (xor_bytes16 x y) z = xor_bytes16 (ghash_mul_reference x z) (ghash_mul_reference y z)"
proof (intro conjI)
  let ?b = bytes_to_bits
  have eqI: "a = b" if "?b a = ?b b" and "length a = 16" and "length b = 16" for a b
    using that bits_bytes_bits by metis
  show "?b (ghash_mul_reference x y) = ghash_mul_execute_on (?b x) (?b y)"
    by (rule bytes_to_bits_ghash_mul)
  show "ghash_mul_reference x y = ghash_mul_reference y x"
    using assms by (intro eqI) (simp_all add: bytes_to_bits_ghash_mul ghash_mul_gsum gsum_commute)
  show "ghash_mul_reference (ghash_mul_reference x y) z = ghash_mul_reference x (ghash_mul_reference y z)"
    using assms by (intro eqI) (simp_all add: bytes_to_bits_ghash_mul ghash_mul_gsum gsum_assoc)
  show "ghash_mul_reference (xor_bytes16 x y) z = xor_bytes16 (ghash_mul_reference x z) (ghash_mul_reference y z)"
    using assms unfolding xor_bytes16_def
    by (intro eqI) (simp_all add: bytes_to_bits_ghash_mul bytes_to_bits_bxor ghash_mul_gsum gsum_xor_right)
qed

theorem ghash_multiplication_witness:
  "ghash_mul_reference (replicate 16 7) (replicate 16 9) = ghash_mul_reference (replicate 16 9) (replicate 16 7)"
  using ghash_multiplication [of "replicate 16 7" "replicate 16 9" "replicate 16 1"] by simp

text \<open>
  C16. The GHASH chain of the two parties: on every schedule and for all random masks both finish with
  XOR shares of the reference chain on the XOR of their key shares and block shares.
\<close>

theorem two_party_ghash:
  assumes "length blocks_n = length blocks_c" and "blocks16 blocks_n" and "blocks16 blocks_c"
    and "length h_n = 16" and "length h_c = 16"
  shows "safe (both_ok (shares_of (ghash_chain_reference (bxor h_n h_c) (map2 bxor blocks_n blocks_c))))
    (notary_ghash_chain_wrk17 blocks_n h_n, client_ghash_chain_wrk17 blocks_c h_c, [], [])"
  using assms by (intro delivers_safe ghash_chain_run) (simp_all add: shares_of_def)

theorem two_party_ghash_witness:
  "safe (both_ok (shares_of (ghash_chain_reference (bxor (replicate 16 0x60) (replicate 16 1))
       (map2 bxor [replicate 16 0x2b, zeros 16] [zeros 16, replicate 16 0x11]))))
    (notary_ghash_chain_wrk17 [replicate 16 0x2b, zeros 16] (replicate 16 0x60),
     client_ghash_chain_wrk17 [zeros 16, replicate 16 0x11] (replicate 16 1), [], [])"
  by (rule two_party_ghash) simp_all

end
