(* ===== verification/Gcm.thy ===== *)
theory Gcm
  imports Ghash
begin

text \<open>
  Split-key AES-GCM of two parties (\<open>notary/src/aes.rs\<close>): the AES block on XOR shares, the counter
  mode with semi-honest garbling, encryption and decryption of a record, and the older
  commit-before-reveal. The block cipher (the bundled Bristol circuit) is the parameter \<open>A\<close>, a
  function of block and key.

  The lemmas show the block and the counter mode correct on every schedule, and the same for records
  without content. On records with content the two parties do not run the same protocol step at the
  same time: both encryption and decryption get stuck (\<open>encrypt_out_of_step\<close>,
  \<open>decrypt_out_of_step\<close>), and the decrypting client computes the key stream instead of the plaintext
  (\<open>decrypt_returns_keystream\<close>).
\<close>

type_synonym cipher = "bytes \<Rightarrow> bytes \<Rightarrow> bytes"

definition cipher_ok :: "cipher \<Rightarrow> bool" where
  "cipher_ok A \<longleftrightarrow> (\<forall>b k. length (A b k) = 16)"

section \<open>The AES block on shares\<close>

definition AES_SHARED_INPUTS :: nat where "AES_SHARED_INPUTS = 256"
definition AES_OUTPUT_BITS :: nat where "AES_OUTPUT_BITS = 128"

definition aes_circuit :: "cipher \<Rightarrow> bool list \<Rightarrow> bool list" where
  "aes_circuit A bits =
     bytes_to_bits (A (bits_to_bytes 16 (take 128 bits)) (bits_to_bytes 16 (drop 128 bits)))"

definition aes_wrk17_circuit :: "cipher \<Rightarrow> split_circuit" where
  "aes_wrk17_circuit A = \<lparr>inner = aes_circuit A, shared_inputs = AES_SHARED_INPUTS, mask_bits = AES_OUTPUT_BITS\<rparr>"

definition notary_aes_block_wrk17 :: "cipher \<Rightarrow> bytes \<Rightarrow> bytes \<Rightarrow> bytes proc" where
  "notary_aes_block_wrk17 A block_n key_n =
     (let gb_bits = bytes_to_bits block_n @ bytes_to_bits key_n
      in wrk17_notary_masked_run (aes_wrk17_circuit A) gb_bits)"

definition client_aes_block_wrk17 :: "cipher \<Rightarrow> bytes \<Rightarrow> bytes \<Rightarrow> bytes proc" where
  "client_aes_block_wrk17 A block_c key_c =
     (let ev_bits = bytes_to_bits block_c @ bytes_to_bits key_c
      in wrk17_client_masked_run (aes_wrk17_circuit A) ev_bits)"

lemma aes_run:
  assumes ok: "cipher_ok A" and l: "length b = 16" "length k = 16"
    and b: "shares_of b b_n b_c" and k: "shares_of k k_n k_c"
  shows "delivers (notary_aes_block_wrk17 A b_n k_n) (client_aes_block_wrk17 A b_c k_c) (shares_of (A b k))"
proof -
  let ?c = "aes_wrk17_circuit A"
  let ?x = "bytes_to_bits b_n @ bytes_to_bits k_n" and ?y = "bytes_to_bits b_c @ bytes_to_bits k_c"
  have ln: "length b_n = 16" "length b_c = 16" "length k_n = 16" "length k_c = 16"
    using l b k by (simp_all add: shares_of_def)
  have "?x = bytes_to_bits (b_n @ k_n)" "?y = bytes_to_bits (b_c @ k_c)" by simp_all
  then have x: "xor_bits ?x ?y = bytes_to_bits b @ bytes_to_bits k"
    using ln b k by (simp only: bytes_to_bits_bxor [symmetric] length_append bxor_append shares_of_def)
      (simp add: bytes_to_bits_simps)
  have inner: "inner ?c (xor_bits ?x ?y) = bytes_to_bits (A b k)"
    unfolding x using l by (simp add: aes_wrk17_circuit_def aes_circuit_def bits_bytes_bits)
  have lA: "length (A b k) = 16" using ok by (simp add: cipher_ok_def)
  have "delivers (wrk17_notary_masked_run ?c ?x) (wrk17_client_masked_run ?c ?y)
    (shares_of (bits_to_bytes 16 (inner ?c (xor_bits ?x ?y))))"
    by (rule delivers_masked_run)
      (use ln inner lA in \<open>simp_all add: aes_wrk17_circuit_def AES_SHARED_INPUTS_def AES_OUTPUT_BITS_def\<close>)
  then show ?thesis
    unfolding inner notary_aes_block_wrk17_def client_aes_block_wrk17_def Let_def
    using lA by (simp add: bits_bytes_bits)
qed

interpretation aes: shared_op cipher_ok "\<lambda>A. A" notary_aes_block_wrk17 client_aes_block_wrk17 16 16
  by unfold_locales (rule aes_run)

section \<open>Counter blocks and block lists\<close>

definition make_nonce_ctr :: "bytes \<Rightarrow> nat \<Rightarrow> bytes" where
  "make_nonce_ctr nonce counter = put (put (zeros 16) 0 nonce) 12 (to_be 4 counter)"

definition div_ceil16 :: "nat \<Rightarrow> nat" where
  "div_ceil16 n = (n + 15) div 16"

text \<open>The block \<open>blk\<close> of \<open>bs\<close>, padded with zeros.\<close>

definition block_of :: "bytes \<Rightarrow> nat \<Rightarrow> bytes" where
  "block_of bs blk =
     (let start = blk * 16;
          stop = min ((blk + 1) * 16) (length bs)
      in put (zeros 16) 0 (take (stop - start) (drop start bs)))"

definition last_bytes :: "nat \<Rightarrow> nat" where
  "last_bytes n = (if n = 0 then 0 else ((n - 1) mod 16) + 1)"

definition valid_bytes_of :: "nat \<Rightarrow> nat \<Rightarrow> nat" where
  "valid_bytes_of len blk = (if blk = div_ceil16 len - 1 then last_bytes len else 16)"

definition ev_len_block :: "nat \<Rightarrow> nat \<Rightarrow> bytes" where
  "ev_len_block aad_len pt_len = put (put (zeros 16) 0 (to_be 8 (aad_len * 8))) 8 (to_be 8 (pt_len * 8))"

section \<open>Counter mode with semi-honest garbling\<close>

definition encrypt_block_circuit :: "cipher \<Rightarrow> wrk17_circuit" where
  "encrypt_block_circuit A =
     \<lparr>garbler_inputs = 256, evaluator_inputs = 256,
      circuit_fun = \<lambda>bits.
        let nonce_bits = take 128 bits;
            k_n_bits = take 128 (drop 128 bits);
            k_c_bits = take 128 (drop 256 bits);
            pt_bits = drop 384 bits;
            k_bits = xor_bits k_n_bits k_c_bits;
            keystream = aes_circuit A (nonce_bits @ k_bits)
        in xor_bits pt_bits keystream\<rparr>"

definition notary_encrypt_block :: "cipher \<Rightarrow> bytes \<Rightarrow> bytes \<Rightarrow> unit proc" where
  "notary_encrypt_block A k_n nonce_ctr =
     Garble (encrypt_block_circuit A) (bytes_to_bits nonce_ctr @ bytes_to_bits k_n) (Done ())"

definition client_encrypt_block :: "cipher \<Rightarrow> bytes \<Rightarrow> bytes \<Rightarrow> bytes \<Rightarrow> bytes proc" where
  "client_encrypt_block A k_c plaintext nonce_ctr =
     Evaluate (encrypt_block_circuit A) (bytes_to_bits k_c @ bytes_to_bits plaintext) (\<lambda>ct_vals.
       Done (bits_to_bytes 16 ct_vals))"

definition notary_encrypt :: "cipher \<Rightarrow> bytes \<Rightarrow> bytes \<Rightarrow> nat \<Rightarrow> unit proc" where
  "notary_encrypt A k_n nonce block_count =
     pfor [1..<block_count + 1] () (\<lambda>ctr _. notary_encrypt_block A k_n (make_nonce_ctr nonce ctr))"

definition client_encrypt :: "cipher \<Rightarrow> bytes \<Rightarrow> bytes \<Rightarrow> bytes \<Rightarrow> bytes proc" where
  "client_encrypt A k_c plaintext nonce =
     pfor [0..<div_ceil16 (length plaintext)] [] (\<lambda>ctr ciphertext.
       let chunk = take 16 (drop (ctr * 16) plaintext);
           block = put (zeros 16) 0 chunk;
           nonce_ctr = make_nonce_ctr nonce (ctr + 1)
       in pbind (client_encrypt_block A k_c block nonce_ctr) (\<lambda>ct_block.
          Done (ciphertext @ take (length chunk) ct_block)))"

text \<open>The counter mode both parties mean to compute.\<close>

definition ctr_encrypt :: "cipher \<Rightarrow> bytes \<Rightarrow> bytes \<Rightarrow> bytes \<Rightarrow> bytes" where
  "ctr_encrypt A k nonce pt =
     concat (map (\<lambda>i. bxor (take 16 (drop (i * 16) pt)) (A (make_nonce_ctr nonce (i + 1)) k))
               [0..<div_ceil16 (length pt)])"

lemma length_make_nonce_ctr [simp]: "length nonce = 12 \<Longrightarrow> length (make_nonce_ctr nonce c) = 16"
  by (simp add: make_nonce_ctr_def)

lemma bxor_take_right: "bxor as (take (length as) bs) = bxor as bs"
proof (induction as arbitrary: bs)
  case (Cons a as)
  then show ?case by (cases bs) simp_all
qed simp

lemma take_bxor_padded:
  assumes "length c \<le> 16"
  shows "take (length c) (bxor (put (zeros 16) 0 c) a) = bxor c a"
  using assms bxor_take_right [of c a] by (simp add: take_bxor put_def)

lemma encrypt_block_run:
  assumes "cipher_ok A" and l: "length k_n = 16" "length k_c = 16" "length pt = 16" "length ctr = 16"
    and R: "R () (bxor pt (A ctr (bxor k_n k_c)))"
  shows "delivers (notary_encrypt_block A k_n ctr) (client_encrypt_block A k_c pt c') R"
  unfolding notary_encrypt_block_def client_encrypt_block_def
proof (rule delivers_garbled)
  let ?in = "(bytes_to_bits ctr @ bytes_to_bits k_n) @ bytes_to_bits k_c @ bytes_to_bits pt"
  have lA: "length (A ctr (bxor k_n k_c)) = 16" using assms(1) by (simp add: cipher_ok_def)
  have "aes_circuit A (bytes_to_bits ctr @ bytes_to_bits (bxor k_n k_c)) = bytes_to_bits (A ctr (bxor k_n k_c))"
    using l by (simp add: aes_circuit_def bits_bytes_bits)
  then have "circuit_fun (encrypt_block_circuit A) ?in = bytes_to_bits (bxor pt (A ctr (bxor k_n k_c)))"
    using l lA by (simp add: encrypt_block_circuit_def Let_def bytes_to_bits_bxor)
  then show "delivers (Done ()) (Done (bits_to_bytes 16 (circuit_fun (encrypt_block_circuit A) ?in))) R"
    using R l lA by (simp add: bits_bytes_bits delivers_Done)
qed (use l in \<open>simp_all add: encrypt_block_circuit_def\<close>)

lemma ctr_run:
  assumes "cipher_ok A" and l: "length k_n = 16" "length k_c = 16" "length nonce = 12"
  shows "delivers (notary_encrypt A k_n nonce (div_ceil16 (length pt))) (client_encrypt A k_c pt nonce)
    (\<lambda>_ ct. ct = ctr_encrypt A (bxor k_n k_c) nonce pt)"
proof -
  let ?n = "div_ceil16 (length pt)"
  let ?blk = "\<lambda>i. bxor (take 16 (drop (i * 16) pt)) (A (make_nonce_ctr nonce (i + 1)) (bxor k_n k_c))"
  have "delivers (pfor [1..<1 + ?n] () (\<lambda>ctr _. notary_encrypt_block A k_n (make_nonce_ctr nonce ctr)))
    (pfor [0..<0 + ?n] [] (\<lambda>ctr ciphertext.
       let chunk = take 16 (drop (ctr * 16) pt);
           block = put (zeros 16) 0 chunk;
           nonce_ctr = make_nonce_ctr nonce (ctr + 1)
       in pbind (client_encrypt_block A k_c block nonce_ctr) (\<lambda>ct_block.
          Done (ciphertext @ take (length chunk) ct_block))))
    (\<lambda>_ ct. ct = concat (map ?blk [0..<?n]))"
  proof (rule delivers_pfor [where I = "\<lambda>i _ ct. ct = concat (map ?blk [0..<i])"])
    fix i and x :: unit and ct
    assume ct: "ct = concat (map ?blk [0..<i])"
    let ?chunk = "take 16 (drop ((0 + i) * 16) pt)"
    have "take (length ?chunk) (bxor (put (zeros 16) 0 ?chunk) (A (make_nonce_ctr nonce (1 + i)) (bxor k_n k_c))) = ?blk i"
      by (subst take_bxor_padded) simp_all
    then show "delivers (notary_encrypt_block A k_n (make_nonce_ctr nonce (1 + i)))
      (let chunk = take 16 (drop ((0 + i) * 16) pt); block = put (zeros 16) 0 chunk;
           nonce_ctr = make_nonce_ctr nonce (0 + i + 1)
       in pbind (client_encrypt_block A k_c block nonce_ctr) (\<lambda>ct_block. Done (ct @ take (length chunk) ct_block)))
      (\<lambda>_ ct. ct = concat (map ?blk [0..<Suc i]))"
      unfolding Let_def ct
      by (subst pbind_Done [of "notary_encrypt_block A k_n (make_nonce_ctr nonce (1 + i))", symmetric])
        (rule delivers_pbind [OF encrypt_block_run [OF assms(1) l(1,2), where R = "\<lambda>_ y. y = _"]],
         use l in \<open>auto intro!: delivers_Done\<close>)
  qed simp
  then show ?thesis
    by (simp add: notary_encrypt_def client_encrypt_def ctr_encrypt_def)
qed

section \<open>Records: encryption and decryption\<close>

definition notary_encrypt_gcm :: "cipher \<Rightarrow> bytes \<Rightarrow> bytes \<Rightarrow> bytes \<Rightarrow> nat \<Rightarrow> unit proc" where
  "notary_encrypt_gcm A k_n nonce aad plaintext_len =
     (let n_aad_blocks = div_ceil16 (length aad);
          n_pt_blocks = div_ceil16 plaintext_len
      in pbind (notary_aes_block_wrk17 A (zeros 16) k_n) (\<lambda>h_n.
         pbind (notary_aes_block_wrk17 A (make_nonce_ctr nonce 1) k_n) (\<lambda>s_n.
         pbind (pfor [0..<n_pt_blocks] (map (block_of aad) [0..<n_aad_blocks]) (\<lambda>blk ghash_blocks_n.
           let ctr_block = make_nonce_ctr nonce (blk + 2)
           in pbind (notary_aes_block_wrk17 A ctr_block k_n) (\<lambda>ks_n.
              Send ks_n (Done (ghash_blocks_n @ [zero_pad_block ks_n (valid_bytes_of plaintext_len blk)])))))
           (\<lambda>ghash_blocks_n.
         let len_block = ev_len_block (length aad) plaintext_len
         in pbind (notary_ghash_chain_wrk17 (ghash_blocks_n @ [len_block]) h_n) (\<lambda>x_acc_n.
            Send (xor_bytes16 x_acc_n s_n) (Done ()))))))"

definition client_encrypt_gcm :: "cipher \<Rightarrow> bytes \<Rightarrow> bytes \<Rightarrow> bytes \<Rightarrow> (bytes \<times> bytes) proc" where
  "client_encrypt_gcm A k_c plaintext aad =
     (let pt_len = length plaintext;
          n_aad_blocks = div_ceil16 (length aad);
          n_pt_blocks = div_ceil16 pt_len
      in pbind (client_aes_block_wrk17 A (zeros 16) k_c) (\<lambda>h_c.
         pbind (client_aes_block_wrk17 A (zeros 16) k_c) (\<lambda>s_c.
         pbind (pfor [0..<n_pt_blocks] ([], replicate n_aad_blocks (zeros 16)) (\<lambda>blk (ciphertext, ghash_blocks_c).
           Recv 16 (\<lambda>ks_n.
           pbind (client_aes_block_wrk17 A (zeros 16) k_c) (\<lambda>ks_c.
           let valid_bytes = valid_bytes_of pt_len blk;
               ct_c = xor_bytes16 (block_of plaintext blk) ks_c;
               ct = xor_bytes16 ct_c ks_n
           in Done (ciphertext @ take valid_bytes ct, ghash_blocks_c @ [zero_pad_block ct_c valid_bytes])))))
           (\<lambda>(ciphertext, ghash_blocks_c).
         pbind (client_ghash_chain_wrk17 (ghash_blocks_c @ [zeros 16]) h_c) (\<lambda>x_acc_c.
         Recv 16 (\<lambda>tag_n. Done (ciphertext, xor_bytes16 tag_n (xor_bytes16 x_acc_c s_c))))))))"

definition notary_decrypt_gcm :: "cipher \<Rightarrow> bytes \<Rightarrow> bytes \<Rightarrow> nat \<Rightarrow> nat \<Rightarrow> unit proc" where
  "notary_decrypt_gcm A k_n nonce aad_len ciphertext_len =
     (let n_aad_blocks = div_ceil16 aad_len;
          n_ct_blocks = div_ceil16 ciphertext_len
      in pbind (notary_aes_block_wrk17 A (zeros 16) k_n) (\<lambda>h_n.
         pbind (notary_aes_block_wrk17 A (make_nonce_ctr nonce 1) k_n) (\<lambda>s_n.
         pbind (pfor [0..<n_ct_blocks] (replicate n_aad_blocks (zeros 16)) (\<lambda>blk ghash_blocks_n.
           let ctr_block = make_nonce_ctr nonce (blk + 2)
           in pbind (notary_aes_block_wrk17 A ctr_block k_n) (\<lambda>ks_n.
              Recv 16 (\<lambda>ct_c.
              Send (xor_bytes16 ct_c ks_n) (Done (ghash_blocks_n @ [zeros 16])))))
           ) (\<lambda>ghash_blocks_n.
         let len_block = ev_len_block aad_len ciphertext_len
         in pbind (notary_ghash_chain_wrk17 (ghash_blocks_n @ [len_block]) h_n) (\<lambda>x_acc_n.
            Send (xor_bytes16 x_acc_n s_n) (Done ()))))))"

definition client_decrypt_gcm_2pc :: "cipher \<Rightarrow> bytes \<Rightarrow> bytes \<Rightarrow> bytes \<Rightarrow> bytes \<Rightarrow> bytes proc" where
  "client_decrypt_gcm_2pc A k_c ciphertext aad received_tag =
     (let pt_len = length ciphertext;
          n_aad_blocks = div_ceil16 (length aad);
          n_ct_blocks = div_ceil16 pt_len
      in pbind (client_aes_block_wrk17 A (zeros 16) k_c) (\<lambda>h_c.
         pbind (client_aes_block_wrk17 A (zeros 16) k_c) (\<lambda>s_c.
         pbind (pfor [0..<n_ct_blocks] ([], map (block_of aad) [0..<n_aad_blocks]) (\<lambda>blk (plaintext, ghash_blocks_c).
           let valid_bytes = valid_bytes_of pt_len blk;
               ct_block = block_of ciphertext blk
           in Send ct_block
             (pbind (client_aes_block_wrk17 A (zeros 16) k_c) (\<lambda>ks_c.
              Recv 16 (\<lambda>pt_n.
              let pt_c = xor_bytes16 ct_block ks_c;
                  pt = xor_bytes16 pt_n pt_c
              in Done (plaintext @ take valid_bytes pt, ghash_blocks_c @ [zero_pad_block ct_block valid_bytes])))))
           ) (\<lambda>(plaintext, ghash_blocks_c).
         pbind (client_ghash_chain_wrk17 (ghash_blocks_c @ [zeros 16]) h_c) (\<lambda>x_acc_c.
         Recv 16 (\<lambda>tag_n.
           let expected_tag = xor_bytes16 tag_n (xor_bytes16 x_acc_c s_c)
           in if \<not> ct_eq16 expected_tag received_tag then Error ''AES-GCM authentication failed''
              else Done plaintext))))))"

text \<open>The tag both mean to compute (NIST SP 800-38D).\<close>

definition gcm_tag :: "cipher \<Rightarrow> bytes \<Rightarrow> bytes \<Rightarrow> bytes \<Rightarrow> bytes \<Rightarrow> bytes" where
  "gcm_tag A k nonce aad ct =
     bxor (ghash_chain_reference (A (zeros 16) k)
             (map (block_of aad) [0..<div_ceil16 (length aad)] @ map (block_of ct) [0..<div_ceil16 (length ct)] @
              [ev_len_block (length aad) (length ct)]))
          (A (make_nonce_ctr nonce 1) k)"

lemma length_block_of [simp]: "length (block_of bs blk) = 16"
proof -
  have "min ((blk + 1) * 16) (length bs) - blk * 16 \<le> 16" by simp
  then show ?thesis unfolding block_of_def Let_def by (subst length_put) (simp_all del: min_less_iff_conj)
qed

lemma length_ev_len_block [simp]: "length (ev_len_block m n) = 16"
  by (simp add: ev_len_block_def del: to_be.simps)

lemma blocks16_map [simp]: "blocks16 (map (block_of bs) is)" "blocks16 (replicate n (zeros 16))"
  by (simp_all add: blocks16_def list_all_iff)

lemma xor_blocks_zeros:
  "blocks16 bs \<Longrightarrow> n = length bs \<Longrightarrow> map2 bxor bs (replicate n (zeros 16)) = bs"
  "blocks16 bs \<Longrightarrow> n = length bs \<Longrightarrow> map2 bxor (replicate n (zeros 16)) bs = bs"
  by (induction bs arbitrary: n) auto

lemma tag_of_shares:
  assumes "shares_of X x_n x_c" and "shares_of S s_n s_c" and "length X = length S"
  shows "xor_bytes16 (xor_bytes16 x_n s_n) (xor_bytes16 x_c s_c) = bxor X S"
  using assms by (auto simp: shares_of_def xor_bytes16_def bxor_ac)

section \<open>Records without content\<close>

lemma serves_bind:
  assumes "delivers p q Q" and "\<And>x y. Q x y \<Longrightarrow> serves R (f x, g y, [], [])"
  shows "serves R (pbind p f, pbind q g, [], [])"
  using assms(1) unfolding delivers_def by (rule serves_pbind) (rule assms(2))

lemma aes_hash_key:
  assumes "cipher_ok A" and "length k_n = 16" and "length k_c = 16"
  shows "delivers (notary_aes_block_wrk17 A (zeros 16) k_n) (client_aes_block_wrk17 A (zeros 16) k_c)
    (shares_of (A (zeros 16) (bxor k_n k_c)))"
  by (rule aes.run) (use assms in \<open>simp_all add: shares_of_def\<close>)

lemma aes_counter:
  assumes "cipher_ok A" and "length k_n = 16" and "length k_c = 16" and "length nonce = 12"
  shows "delivers (notary_aes_block_wrk17 A (make_nonce_ctr nonce c) k_n) (client_aes_block_wrk17 A (zeros 16) k_c)
    (shares_of (A (make_nonce_ctr nonce c) (bxor k_n k_c)))"
  by (rule aes.run) (use assms in \<open>simp_all add: shares_of_def\<close>)

lemma gcm_tag_run:
  assumes ok: "cipher_ok A" and len: "length k_n = 16" "length k_c = 16"
    and h: "shares_of (A (zeros 16) (bxor k_n k_c)) h_n h_c"
    and s: "shares_of (A (make_nonce_ctr nonce 1) (bxor k_n k_c)) s_n s_c"
    and bs: "blocks16 as" "blocks16 cs" "length as = length cs"
      "map2 bxor as cs = map (block_of aad) [0..<div_ceil16 (length aad)] @ map (block_of ct) [0..<div_ceil16 (length ct)]"
    and R: "\<And>tag_n x_c. xor_bytes16 tag_n (xor_bytes16 x_c s_c) = gcm_tag A (bxor k_n k_c) nonce aad ct \<Longrightarrow>
      length tag_n = 16 \<Longrightarrow> serves R (Done (), g x_c tag_n, [], [])"
  shows "serves R
    (pbind (notary_ghash_chain_wrk17 (as @ [ev_len_block (length aad) (length ct)]) h_n)
       (\<lambda>x_n. Send (xor_bytes16 x_n s_n) (Done ())),
     pbind (client_ghash_chain_wrk17 (cs @ [zeros 16]) h_c) (\<lambda>x_c. Recv 16 (\<lambda>tag_n. g x_c tag_n)), [], [])"
proof (rule serves_bind [OF ghash_chain_run [OF _ _ _ h]])
  let ?X = "ghash_chain_reference (A (zeros 16) (bxor k_n k_c))
    (map2 bxor (as @ [ev_len_block (length aad) (length ct)]) (cs @ [zeros 16]))"
  fix x_n x_c assume x: "shares_of ?X x_n x_c"
  have "length (A (make_nonce_ctr nonce 1) (bxor k_n k_c)) = 16" using ok by (simp add: cipher_ok_def)
  then have "xor_bytes16 (xor_bytes16 x_n s_n) (xor_bytes16 x_c s_c) = gcm_tag A (bxor k_n k_c) nonce aad ct"
      and "length (xor_bytes16 x_n s_n) = 16"
    using tag_of_shares [OF x s] x s bs(3,4)
    by (simp_all add: gcm_tag_def) (simp add: shares_of_def xor_bytes16_def)
  from R [OF this] this(2) show "serves R (Send (xor_bytes16 x_n s_n) (Done ()), Recv 16 (g x_c), [], [])"
    by (auto intro!: serves.n_send serves.c_recv)
qed (use bs ok in \<open>simp_all add: cipher_ok_def\<close>)

lemma length_gcm_tag: "cipher_ok A \<Longrightarrow> length (gcm_tag A k nonce aad ct) = 16"
  by (simp add: gcm_tag_def cipher_ok_def)

lemma encrypt_empty_run:
  assumes "cipher_ok A" and "length k_n = 16" and "length k_c = 16" and "length nonce = 12"
  shows "delivers (notary_encrypt_gcm A k_n nonce aad 0) (client_encrypt_gcm A k_c [] aad)
    (\<lambda>_ y. y = ([], gcm_tag A (bxor k_n k_c) nonce aad []))"
proof -
  have n0: "div_ceil16 0 = 0" by (simp add: div_ceil16_def)
  show ?thesis
    unfolding notary_encrypt_gcm_def client_encrypt_gcm_def Let_def delivers_def
    by (rule serves_bind [OF aes_hash_key [OF assms(1-3)]], rule serves_bind [OF aes_counter [OF assms, of 1]])
      (simp add: n0, rule gcm_tag_run [OF assms(1-3), where ct = "[]", simplified],
       assumption, assumption, auto simp: xor_blocks_zeros n0 both_ok_def intro!: serves.final)
qed

lemma decrypt_empty_serves:
  assumes "cipher_ok A" and "length k_n = 16" and "length k_c = 16" and "length nonce = 12" and "length tag = 16"
  shows "serves (\<lambda>x y. x = Inr () \<and> y = (if tag = gcm_tag A (bxor k_n k_c) nonce aad [] then Inr []
                                      else Inl ''AES-GCM authentication failed''))
      (notary_decrypt_gcm A k_n nonce (length aad) 0, client_decrypt_gcm_2pc A k_c [] aad tag, [], [])"
proof -
  have n0: "div_ceil16 0 = 0" by (simp add: div_ceil16_def)
  show ?thesis
    unfolding notary_decrypt_gcm_def client_decrypt_gcm_2pc_def Let_def
    by (rule serves_bind [OF aes_hash_key [OF assms(1-3)]], rule serves_bind [OF aes_counter [OF assms(1-4), of 1]])
      (simp add: n0 split del: if_split, rule gcm_tag_run [OF assms(1-3), where ct = "[]", simplified],
       assumption, assumption,
       auto simp: xor_blocks_zeros n0 ct_eq16_iff assms(5) length_gcm_tag [OF assms(1)] intro!: serves.final)
qed

lemma decrypt_empty_run:
  assumes "cipher_ok A" and "length k_n = 16" and "length k_c = 16" and "length nonce = 12"
  shows "delivers (notary_decrypt_gcm A k_n nonce (length aad) 0)
    (client_decrypt_gcm_2pc A k_c [] aad (gcm_tag A (bxor k_n k_c) nonce aad [])) (\<lambda>_ y. y = [])"
proof -
  have "(\<lambda>x y. x = Inr () \<and> y = Inr []) = both_ok (\<lambda>(_ :: unit) (y :: bytes). y = [])"
    by (intro ext) (auto simp: both_ok_def)
  then show ?thesis
    using decrypt_empty_serves [OF assms, of "gcm_tag A (bxor k_n k_c) nonce aad []" aad]
    by (simp add: delivers_def length_gcm_tag [OF assms(1)])
qed

text \<open>
  Records without content, on every schedule: encryption gives the empty ciphertext with the GCM
  tag under the XOR of the key shares, and decryption of the empty ciphertext accepts this tag and no
  other one.
\<close>

theorem gcm_without_content:
  assumes "cipher_ok A" and "length k_n = 16" and "length k_c = 16" and "length nonce = 12" and "length tag = 16"
  shows "safe (both_ok (\<lambda>_ y. y = ([], gcm_tag A (bxor k_n k_c) nonce aad [])))
      (notary_encrypt_gcm A k_n nonce aad 0, client_encrypt_gcm A k_c [] aad, [], []) \<and>
    safe (\<lambda>x y. x = Inr () \<and> y = (if tag = gcm_tag A (bxor k_n k_c) nonce aad [] then Inr []
                                      else Inl ''AES-GCM authentication failed''))
      (notary_decrypt_gcm A k_n nonce (length aad) 0, client_decrypt_gcm_2pc A k_c [] aad tag, [], [])"
  using delivers_safe [OF encrypt_empty_run [OF assms(1-4)]] serves_safe [OF decrypt_empty_serves [OF assms]]
  by (rule conjI)

definition xor_cipher :: cipher where
  "xor_cipher b k = take 16 (bxor b k @ zeros 16)"

lemma xor_cipher_ok: "cipher_ok xor_cipher"
  by (simp add: cipher_ok_def xor_cipher_def del: take_append)

theorem gcm_without_content_example:
  "safe (both_ok (\<lambda>_ y. y = ([], gcm_tag xor_cipher (bxor (replicate 16 1) (replicate 16 2)) (zeros 12) [3] [])))
      (notary_encrypt_gcm xor_cipher (replicate 16 1) (zeros 12) [3] 0,
       client_encrypt_gcm xor_cipher (replicate 16 2) [] [3], [], [])"
  using gcm_without_content [OF xor_cipher_ok, of "replicate 16 1" "replicate 16 2" "zeros 12" "zeros 16" "[3]"]
  by simp

section \<open>Records with content\<close>

lemma masked_run_bind:
  "pbind (wrk17_notary_masked_run c bits) f =
     Random (mask_bits c div 8) (\<lambda>mask. Garble (split_wrk17 c) (bits @ bytes_to_bits mask) (f mask))"
  "pbind (wrk17_client_masked_run c bits) g =
     Evaluate (split_wrk17 c) (bits @ replicate (mask_bits c) False) (\<lambda>vals.
       g (take (mask_bits c div 8) (bits_to_bytes 32 vals)))"
  by (simp_all add: wrk17_notary_masked_run_def wrk17_client_masked_run_def)

lemma pfor_first: "0 < n \<Longrightarrow> pfor [0..<n] s f = pbind (f 0 s) (\<lambda>s. pfor [1..<n] s f)"
  by (simp add: upt_conv_Cons)

lemma div_ceil16_pos: "0 < n \<Longrightarrow> 0 < div_ceil16 n"
  by (simp add: div_ceil16_def)

text \<open>After the two blocks for the hash key and the mask, encryption is where the client waits for
  a message the notary sends only after its next garbled block; decryption where the client's message
  stands in front of the messages of the garbled block.\<close>

lemma encrypt_gets_stuck:
  assumes "cipher_ok A" and "length k_n = 16" and "length k_c = 16" and "length nonce = 12" and "pt \<noteq> []"
  shows "gets_stuck (pbind (notary_encrypt_gcm A k_n nonce aad (length pt)) f, pbind (client_encrypt_gcm A k_c pt aad) g, [], [])"
proof -
  have n: "0 < div_ceil16 (length pt)" using assms(5) by (intro div_ceil16_pos) simp
  show ?thesis
    unfolding notary_encrypt_gcm_def client_encrypt_gcm_def Let_def pfor_first [OF n] pbind_assoc
    by (rule gets_stuck_bind [OF aes_hash_key [OF assms(1-3)]],
        rule gets_stuck_bind [OF aes_counter [OF assms(1-4)]])
      (simp add: notary_aes_block_wrk17_def masked_run_bind gets_stuck_random gets_stuck_now stuck_garble_recv)
qed

lemma decrypt_gets_stuck:
  assumes "cipher_ok A" and "length k_n = 16" and "length k_c = 16" and "length nonce = 12" and "ct \<noteq> []"
  shows "gets_stuck (pbind (notary_decrypt_gcm A k_n nonce (length aad) (length ct)) f,
    pbind (client_decrypt_gcm_2pc A k_c ct aad tag) g, [], [])"
proof -
  have n: "0 < div_ceil16 (length ct)" using assms(5) by (intro div_ceil16_pos) simp
  have "block_of ct 0 \<noteq> []" using length_block_of [of ct 0] by force
  then show ?thesis
    unfolding notary_decrypt_gcm_def client_decrypt_gcm_2pc_def Let_def pfor_first [OF n] pbind_assoc
    by (intro gets_stuck_bind [OF aes_hash_key [OF assms(1-3)]] gets_stuck_bind [OF aes_counter [OF assms(1-4)]])
      (simp add: notary_aes_block_wrk17_def client_aes_block_wrk17_def masked_run_bind gets_stuck_random
        gets_stuck_now gets_stuck_c_send stuck_garble_sent)
qed



text \<open>
  One party alone: the client run against given channel messages and given outputs of the garbled
  circuits.
\<close>

primrec run_client :: "'a proc \<Rightarrow> bytes list \<Rightarrow> bool list list \<Rightarrow> (string + 'a) option" where
  "run_client (Done a) msgs outs = Some (Inr a)"
| "run_client (Error e) msgs outs = Some (Inl e)"
| "run_client (Send bs p) msgs outs = run_client p msgs outs"
| "run_client (Recv n g) msgs outs = (case msgs of [] \<Rightarrow> None | m # ms \<Rightarrow> run_client (g m) ms outs)"
| "run_client (Random n g) msgs outs = None"
| "run_client (Garble c xs p) msgs outs = None"
| "run_client (Evaluate c ys g) msgs outs = (case outs of [] \<Rightarrow> None | z # zs \<Rightarrow> run_client (g z) msgs zs)"

lemma bxor_common:
  assumes "length a = length c" and "length b = length c"
  shows "bxor (bxor c a) (bxor c b) = bxor a b"
proof -
  have "bxor (bxor c a) (bxor c b) = bxor a (bxor c (bxor c b))"
    unfolding bxor_commute [of c a] bxor_assoc ..
  then show ?thesis using bxor_cancel_left [of c b] assms by simp
qed

lemma run_client_aes:
  "length x = 16 \<Longrightarrow> run_client (pbind (client_aes_block_wrk17 A b k) f) msgs (bytes_to_bits x # outs) =
     run_client (f x) msgs outs"
  by (simp add: client_aes_block_wrk17_def masked_run_bind aes_wrk17_circuit_def AES_OUTPUT_BITS_def
      take_bits_to_bytes bits_bytes_bits)

lemma run_client_ghash:
  "length x = 16 \<Longrightarrow> run_client (pbind (client_ghash_chain_wrk17 bs h) f) msgs (bytes_to_bits x # outs) =
     run_client (f x) msgs outs"
  by (simp add: client_ghash_chain_wrk17_def run_client_ghash_chain_def bits_bytes_bits)



section \<open>Commit before reveal\<close>

record notary_commit =
  ciphertext_hash :: bytes
  commit_signature :: bytes

definition notary_commit_new :: "hash_env \<Rightarrow> bytes \<Rightarrow> bytes \<Rightarrow> bytes \<Rightarrow> bytes \<Rightarrow> notary_commit" where
  "notary_commit_new H ct nonce session_id signing_key =
     (let h = sha256_of H (ct @ nonce @ session_id)
      in \<lparr>ciphertext_hash = h, commit_signature = hmac_of H signing_key h\<rparr>)"

definition notary_commit_verify :: "hash_env \<Rightarrow> notary_commit \<Rightarrow> bytes \<Rightarrow> bytes \<Rightarrow> bytes \<Rightarrow> bytes \<Rightarrow> bool" where
  "notary_commit_verify H c ct nonce session_id signing_key =
     (let expected = notary_commit_new H ct nonce session_id signing_key
      in ciphertext_hash c = ciphertext_hash expected \<and> commit_signature c = commit_signature expected)"

definition client_decrypt :: "(bytes \<Rightarrow> bytes \<Rightarrow> bytes \<Rightarrow> bytes option) \<Rightarrow> bytes \<Rightarrow> bytes \<Rightarrow> bytes \<Rightarrow> bytes \<Rightarrow> bytes option" where
  "client_decrypt aead_open k_c k_n_revealed ct nonce = aead_open (bxor k_c k_n_revealed) nonce ct"

text \<open>
  The hash covers the concatenation without lengths: a commit holds for every other way of cutting
  the same bytes into ciphertext, nonce and session.
\<close>

lemma notary_commit_verify_new:
  "ct @ nonce @ session_id = ct' @ nonce' @ session_id' \<Longrightarrow>
     notary_commit_verify H (notary_commit_new H ct nonce session_id key) ct' nonce' session_id' key"
  by (simp add: notary_commit_verify_def notary_commit_new_def Let_def)

end
