(* ===== verification/Notary_Tls.thy ===== *)
theory Notary_Tls
  imports Gcm Transcript
begin

text \<open>
  The record worker of the notary and its client (\<open>notary/src/tls.rs\<close>): the frame header, the
  worker's loop with the session log and the signed bundle, the client's operations and its jobs, and
  the two-party key schedule in front of the worker.

  The libraries are the fields of \<open>worker_env\<close>; \<open>worker_env_ok\<close> says that blocks and hashes have their
  lengths, \<open>ser_ok\<close> that a bundle is read back from its serialised form (crate \<open>bincode\<close>). The worker's loop runs
  until the client finishes or closes the connection: its argument \<open>frames\<close> is the number of frames
  after which the client closes it, where \<open>read_header\<close> fails and the worker returns \<open>None\<close>.

  The lemmas follow the worker frame by frame. What a session without content leaves behind is the
  signed log of exactly the frames of the client, with the hashes of the bytes the client sends after
  each operation, which need not be those of the operation.
\<close>

section \<open>Nonces and the frame header\<close>

definition tls13_nonce :: "bytes \<Rightarrow> u64 \<Rightarrow> bytes" where
  "tls13_nonce base_iv seq =
     foldl (\<lambda>nonce (i, b). nonce[4 + i := nonce ! (4 + i) XOR b]) base_iv (enumerate 0 (to_be 8 (unat seq)))"

definition OP_ENCRYPT :: byte where "OP_ENCRYPT = 1"
definition OP_DECRYPT :: byte where "OP_DECRYPT = 2"
definition OP_FINISH :: byte where "OP_FINISH = 3"
definition OP_2PC_HKDF :: byte where "OP_2PC_HKDF = 4"

record header =
  hd_op :: byte
  hd_seq :: u64
  hd_aad :: bytes
  hd_payload_len :: u32

definition write_header :: "header \<Rightarrow> unit proc" where
  "write_header h =
     Send [hd_op h] (Send (to_be 8 (unat (hd_seq h))) (Send (to_be 2 (length (hd_aad h))) (Send (hd_aad h)
       (Send (to_be 4 (unat (hd_payload_len h))) (Done ())))))"

definition read_header :: "header proc" where
  "read_header =
     Recv 1 (\<lambda>op. Recv 8 (\<lambda>seq_buf. Recv 2 (\<lambda>aad_len_buf. Recv (from_be aad_len_buf) (\<lambda>aad. Recv 4 (\<lambda>pl_buf.
       Done \<lparr>hd_op = op ! 0, hd_seq = word_of_nat (from_be seq_buf), hd_aad = aad,
             hd_payload_len = word_of_nat (from_be pl_buf)\<rparr>)))))"

section \<open>The worker\<close>

record worker_env =
  we_cipher :: cipher
  we_hash :: hash_env
  we_ed :: ed25519
  we_now :: u64
  bundle_ser :: "notary_bundle \<Rightarrow> bytes"
  bundle_de :: "bytes \<Rightarrow> notary_bundle option"

definition worker_env_ok :: "worker_env \<Rightarrow> bool" where
  "worker_env_ok W \<longleftrightarrow> cipher_ok (we_cipher W) \<and> hash_env_ok (we_hash W)"

text \<open>A bundle that is read back from its serialised form, which has at most 16 MiB.\<close>

definition ser_ok :: "worker_env \<Rightarrow> notary_bundle \<Rightarrow> bool" where
  "ser_ok W b \<longleftrightarrow> bundle_de W (bundle_ser W b) = Some b \<and> length (bundle_ser W b) \<le> 16777216"

definition read_commit :: "worker_env \<Rightarrow> nat \<Rightarrow> bytes proc" where
  "read_commit W payload_len =
     Recv payload_len (\<lambda>ct. Recv 16 (\<lambda>tag. Done (sha256_of (we_hash W) (ct @ tag))))"

text \<open>The notary's key shares and IVs of both directions.\<close>

record worker_keys =
  wk_n_tx :: bytes
  wiv_tx :: bytes
  wk_n_rx :: bytes
  wiv_rx :: bytes

definition worker_record :: "header \<Rightarrow> bytes \<Rightarrow> record_commit" where
  "worker_record h commit_hash =
     \<lparr>rc_op = hd_op h, rc_seq = hd_seq h, rc_aad = hd_aad h, rc_commit_hash = commit_hash\<rparr>"

definition worker_finish ::
  "worker_env \<Rightarrow> bytes option \<Rightarrow> worker_keys \<Rightarrow> session_binding \<Rightarrow> record_commit list \<Rightarrow> notary_bundle option proc" where
  "worker_finish W signing_key K bind recs =
     Recv 2 (\<lambda>sid_len. Recv (from_be sid_len) (\<lambda>sid_buf.
     if \<not> utf8_valid sid_buf then Error ''session_id is not valid UTF-8''
     else
     Recv 2 (\<lambda>sn_len. Recv (from_be sn_len) (\<lambda>sn_buf.
     if \<not> utf8_valid sn_buf then Error ''server_name is not valid UTF-8''
     else
     case signing_key of
       None \<Rightarrow> Error ''received OP_FINISH but the notary was not configured with a signing key''
     | Some sk \<Rightarrow>
       let bundle = sign (we_ed W) (we_now W) sk sid_buf sn_buf recs (wk_n_tx K) (wiv_tx K) (wk_n_rx K) (wiv_rx K) bind;
           serialized = bundle_ser W bundle
       in Send (to_be 4 (length serialized)) (Send serialized (Done (Some bundle)))))))"

primrec run_notary_worker_inner ::
  "nat \<Rightarrow> worker_env \<Rightarrow> bytes option \<Rightarrow> worker_keys \<Rightarrow> session_binding \<Rightarrow> record_commit list \<Rightarrow>
   notary_bundle option proc" where
  "run_notary_worker_inner 0 W signing_key K bind recs = Done None"
| "run_notary_worker_inner (Suc frames) W signing_key K bind recs =
     pbind read_header (\<lambda>h.
     if hd_op h = OP_ENCRYPT then
       pbind (notary_encrypt_gcm (we_cipher W) (wk_n_tx K) (tls13_nonce (wiv_tx K) (hd_seq h)) (hd_aad h)
                (unat (hd_payload_len h))) (\<lambda>_.
       pbind (read_commit W (unat (hd_payload_len h))) (\<lambda>commit_hash.
       run_notary_worker_inner frames W signing_key K bind (recs @ [worker_record h commit_hash])))
     else if hd_op h = OP_DECRYPT then
       pbind (notary_decrypt_gcm (we_cipher W) (wk_n_rx K) (tls13_nonce (wiv_rx K) (hd_seq h)) (length (hd_aad h))
                (unat (hd_payload_len h))) (\<lambda>_.
       pbind (read_commit W (unat (hd_payload_len h))) (\<lambda>commit_hash.
       run_notary_worker_inner frames W signing_key K bind (recs @ [worker_record h commit_hash])))
     else if hd_op h = OP_FINISH then worker_finish W signing_key K bind recs
     else Error ''rustls bridge: unknown op byte'')"

definition run_notary_worker :: "nat \<Rightarrow> worker_env \<Rightarrow> worker_keys \<Rightarrow> unit proc" where
  "run_notary_worker frames W K =
     pbind (run_notary_worker_inner frames W None K session_binding_default []) (\<lambda>_. Done ())"

definition run_notary_worker_attested ::
  "nat \<Rightarrow> worker_env \<Rightarrow> bytes \<Rightarrow> worker_keys \<Rightarrow> session_binding \<Rightarrow> notary_bundle option proc" where
  "run_notary_worker_attested frames W signing_key K bind =
     run_notary_worker_inner frames W (Some signing_key) K bind []"

section \<open>The key schedule in front of the worker\<close>

record two_pc_traffic_setup =
  tp_ikm_n :: bytes
  tp_after_sh :: bytes
  tp_after_sf :: bytes
  tp_ikm_full :: bytes
  tp_binding :: session_binding

definition run_notary_worker_attested_2pc ::
  "nat \<Rightarrow> worker_env \<Rightarrow> bytes \<Rightarrow> two_pc_traffic_setup \<Rightarrow> notary_bundle option proc" where
  "run_notary_worker_attested_2pc frames W signing_key setup =
     pbind read_header (\<lambda>h.
     if hd_op h \<noteq> OP_2PC_HKDF then Error ''expected OP_2PC_HKDF''
     else
     pbind (notary_tls13_client_traffic_from_ikm_shares (we_hash W) (tp_ikm_n setup) (tp_after_sh setup)
              (tp_after_sf setup)) (\<lambda>traffic.
     let (_, tx_iv, _, rx_iv) = reference_tls13_client_traffic (we_hash W) (tp_ikm_full setup) (tp_after_sh setup)
                                  (tp_after_sf setup)
     in run_notary_worker_inner frames W (Some signing_key)
          \<lparr>wk_n_tx = share_k_tx traffic, wiv_tx = tx_iv, wk_n_rx = share_k_rx traffic, wiv_rx = rx_iv\<rparr>
          (tp_binding setup) []))"

definition client_run_2pc_traffic_hkdf :: "worker_env \<Rightarrow> bytes \<Rightarrow> bytes \<Rightarrow> bytes \<Rightarrow> traffic_shares proc" where
  "client_run_2pc_traffic_hkdf W ikm_c after_sh after_sf =
     pbind (write_header \<lparr>hd_op = OP_2PC_HKDF, hd_seq = 0, hd_aad = [], hd_payload_len = 0\<rparr>) (\<lambda>_.
     client_tls13_client_traffic_from_ikm_shares (we_hash W) ikm_c after_sh after_sf)"

section \<open>The client\<close>

definition encrypt_one :: "worker_env \<Rightarrow> bytes \<Rightarrow> bytes \<Rightarrow> bytes \<Rightarrow> u64 \<Rightarrow> (bytes \<times> bytes) proc" where
  "encrypt_one W k_c plaintext aad seq =
     pbind (write_header \<lparr>hd_op = OP_ENCRYPT, hd_seq = seq, hd_aad = aad,
                          hd_payload_len = word_of_nat (length plaintext)\<rparr>) (\<lambda>_.
     pbind (client_encrypt_gcm (we_cipher W) k_c plaintext aad) (\<lambda>(ct, tag).
     Send ct (Send tag (Done (ct, tag)))))"

definition decrypt_one :: "worker_env \<Rightarrow> bytes \<Rightarrow> bytes \<Rightarrow> bytes \<Rightarrow> bytes \<Rightarrow> u64 \<Rightarrow> bytes proc" where
  "decrypt_one W k_c ciphertext tag aad seq =
     pbind (write_header \<lparr>hd_op = OP_DECRYPT, hd_seq = seq, hd_aad = aad,
                          hd_payload_len = word_of_nat (length ciphertext)\<rparr>) (\<lambda>_.
     pbind (client_decrypt_gcm_2pc (we_cipher W) k_c ciphertext aad tag) (\<lambda>plaintext.
     Send ciphertext (Send tag (Done plaintext))))"

definition client_encrypt_record :: "worker_env \<Rightarrow> bytes \<Rightarrow> bytes \<Rightarrow> bytes \<Rightarrow> u64 \<Rightarrow> (bytes \<times> bytes) proc" where
  "client_encrypt_record W k_c plaintext aad seq = encrypt_one W k_c plaintext aad seq"

definition client_decrypt_record :: "worker_env \<Rightarrow> bytes \<Rightarrow> bytes \<Rightarrow> bytes \<Rightarrow> bytes \<Rightarrow> u64 \<Rightarrow> bytes proc" where
  "client_decrypt_record W k_c ciphertext tag aad seq = decrypt_one W k_c ciphertext tag aad seq"

definition client_finish_session :: "worker_env \<Rightarrow> bytes \<Rightarrow> bytes \<Rightarrow> notary_bundle proc" where
  "client_finish_session W sid sn =
     pbind (write_header \<lparr>hd_op = OP_FINISH, hd_seq = 0, hd_aad = [], hd_payload_len = 0\<rparr>) (\<lambda>_.
     Send (to_be 2 (length sid)) (Send sid (Send (to_be 2 (length sn)) (Send sn
     (Recv 4 (\<lambda>len_buf.
       if from_be len_buf > 16 * 1024 * 1024 then Error ''notary bundle suspiciously large''
       else Recv (from_be len_buf) (\<lambda>buf.
         case bundle_de W buf of None \<Rightarrow> Error ''bincode deserialize bundle'' | Some b \<Rightarrow> Done b)))))))"

text \<open>
  The client's worker thread (\<open>ClientWorker::spawn\<close>): it runs its jobs in order and hands each result
  to the job's sender, also when it is an error.
\<close>

datatype client_job =
    Encrypt_Job (job_plaintext: bytes) (job_aad: bytes) (job_seq: u64)
  | Decrypt_Job (job_ciphertext: bytes) (job_tag: bytes) (job_aad: bytes) (job_seq: u64)
  | Shutdown_Job

datatype job_result =
    Encrypted "string + bytes \<times> bytes"
  | Decrypted "string + bytes"

primrec client_worker :: "worker_env \<Rightarrow> bytes \<Rightarrow> bytes \<Rightarrow> client_job list \<Rightarrow> job_result list proc" where
  "client_worker W kc_tx kc_rx [] = Done []"
| "client_worker W kc_tx kc_rx (job # jobs) =
     (case job of
        Encrypt_Job plaintext aad seq \<Rightarrow>
          pbind (pcatch (encrypt_one W kc_tx plaintext aad seq)) (\<lambda>result.
          pbind (client_worker W kc_tx kc_rx jobs) (\<lambda>rs. Done (Encrypted result # rs)))
      | Decrypt_Job ciphertext tag aad seq \<Rightarrow>
          pbind (pcatch (decrypt_one W kc_rx ciphertext tag aad seq)) (\<lambda>result.
          pbind (client_worker W kc_tx kc_rx jobs) (\<lambda>rs. Done (Decrypted result # rs)))
      | Shutdown_Job \<Rightarrow> Done [])"

text \<open>What the \<open>rustls\<close> record layer hands to the worker, and the payload it builds from the result.\<close>

definition encrypted_payload_len :: "nat \<Rightarrow> nat" where
  "encrypted_payload_len payload_len = payload_len + 1 + 16"

definition encrypter_job :: "bytes \<Rightarrow> byte \<Rightarrow> u64 \<Rightarrow> client_job" where
  "encrypter_job pl typ seq =
     Encrypt_Job (pl @ [typ]) (tls13_aad (encrypted_payload_len (length pl))) seq"

definition encrypter_payload :: "string + bytes \<times> bytes \<Rightarrow> string + bytes" where
  "encrypter_payload result =
     (case result of Inl e \<Rightarrow> Inl (''2PC encrypt: '' @ e) | Inr (ct, tag) \<Rightarrow> Inr (ct @ tag))"

definition decrypter_job :: "bytes \<Rightarrow> u64 \<Rightarrow> string + client_job" where
  "decrypter_job pl seq =
     (if length pl < 16 then Inl ''DecryptError''
      else let tag_start = length pl - 16
           in Inr (Decrypt_Job (take tag_start pl) (drop tag_start pl) (tls13_aad (length pl)) seq))"

section \<open>Standalone primitives\<close>

record two_party_gcm_encrypter =
  enc_k_c :: bytes
  enc_base_iv :: bytes

definition encrypter_encrypt_record :: "worker_env \<Rightarrow> two_party_gcm_encrypter \<Rightarrow> bytes \<Rightarrow> bytes \<Rightarrow> (bytes \<times> bytes) proc" where
  "encrypter_encrypt_record W e plaintext aad = client_encrypt_gcm (we_cipher W) (enc_k_c e) plaintext aad"

record notary_tls_session =
  ses_k_n :: bytes
  ses_base_iv :: bytes

definition session_encrypt_record :: "worker_env \<Rightarrow> notary_tls_session \<Rightarrow> u64 \<Rightarrow> nat \<Rightarrow> bytes \<Rightarrow> unit proc" where
  "session_encrypt_record W s seq plaintext_len aad =
     (let nonce = tls13_nonce (ses_base_iv s) seq
      in notary_encrypt_gcm (we_cipher W) (ses_k_n s) nonce aad plaintext_len)"

definition commit_response :: "worker_env \<Rightarrow> notary_tls_session \<Rightarrow> bytes \<Rightarrow> bytes \<Rightarrow> bytes \<Rightarrow> bytes \<Rightarrow> notary_commit" where
  "commit_response W s ct nonce sid sk = notary_commit_new (we_hash W) ct nonce sid sk"

definition reveal_key_share :: "notary_tls_session \<Rightarrow> bytes" where
  "reveal_key_share s = ses_k_n s"

text \<open>A commit verifies, and the revealed share gives the client the whole key.\<close>

lemma commit_then_reveal:
  "notary_commit_verify (we_hash W) (commit_response W s ct nonce sid key) ct nonce sid key \<and>
   client_decrypt aead_open k_c (reveal_key_share s) ct nonce = aead_open (bxor k_c (ses_k_n s)) nonce ct"
  by (simp add: commit_response_def notary_commit_verify_new client_decrypt_def reveal_key_share_def)

section \<open>Nonces and headers\<close>

lemma foldl_xor_at:
  "length bs + k \<le> length ns \<Longrightarrow>
     foldl (\<lambda>nonce (i, b). nonce[i := nonce ! i XOR b]) ns (enumerate k bs) =
     take k ns @ bxor (take (length bs) (drop k ns)) bs @ drop (k + length bs) (ns :: bytes)"
proof (induction bs arbitrary: k ns)
  case (Cons b bs)
  then have k: "k < length ns" by simp
  have "foldl (\<lambda>nonce (i, b). nonce[i := nonce ! i XOR b]) ns (enumerate k (b # bs)) =
      foldl (\<lambda>nonce (i, b). nonce[i := nonce ! i XOR b]) (ns[k := ns ! k XOR b]) (enumerate (Suc k) bs)"
    by simp
  also have "\<dots> = take (Suc k) (ns[k := ns ! k XOR b]) @ bxor (take (length bs) (drop (Suc k) ns)) bs @
      drop (Suc k + length bs) ns"
    using Cons.prems by (subst Cons.IH) simp_all
  also have "take (Suc k) (ns[k := ns ! k XOR b]) = take k ns @ [ns ! k XOR b]"
    using k by (simp add: take_Suc_conv_app_nth)
  finally show ?case
    using k by (simp add: Cons_nth_drop_Suc [symmetric])
qed simp

lemma foldl_offset:
  "foldl (\<lambda>nonce (i, b). nonce[m + i := nonce ! (m + i) XOR b]) ns (enumerate k bs) =
   foldl (\<lambda>nonce (i, b). nonce[i := nonce ! i XOR b]) ns (enumerate (m + k) (bs :: bytes))"
  by (induction bs arbitrary: k ns) simp_all

lemma tls13_nonce_eq: "length iv = 12 \<Longrightarrow> tls13_nonce iv seq = xor_nonce iv seq"
  unfolding tls13_nonce_def foldl_offset by (subst foldl_xor_at) (simp_all add: xor_nonce_def del: to_be.simps)

lemma length_tls13_nonce [simp]: "length iv = 12 \<Longrightarrow> length (tls13_nonce iv seq) = 12"
  by (simp add: tls13_nonce_eq xor_nonce_def del: to_be.simps)

lemma header_run:
  assumes "length (hd_aad h) < 65536"
  shows "delivers read_header (write_header h) (\<lambda>r _. r = h)"
proof -
  have "unat (hd_seq h) < 2 ^ 64" "unat (hd_payload_len h) < 2 ^ 32"
    using unsigned_less [of "hd_seq h"] unsigned_less [of "hd_payload_len h"] by simp_all
  then have seq: "word_of_nat (unat (hd_seq h) mod 256 ^ 8) = hd_seq h"
    and len: "word_of_nat (unat (hd_payload_len h) mod 256 ^ 4) = hd_payload_len h"
    by simp_all
  show ?thesis
    unfolding read_header_def write_header_def
    by (intro delivers_c_send delivers_Done) (use assms seq len in \<open>simp_all del: to_be.simps\<close>)
qed

section \<open>The worker frame by frame\<close>

text \<open>The two parties' keys: the shares of both directions and the notary's IVs.\<close>

definition keys_wf :: "worker_keys \<Rightarrow> bytes \<Rightarrow> bytes \<Rightarrow> bool" where
  "keys_wf K kc_tx kc_rx \<longleftrightarrow> length (wk_n_tx K) = 16 \<and> length (wk_n_rx K) = 16 \<and> length (wiv_tx K) = 12 \<and>
     length (wiv_rx K) = 12 \<and> length kc_tx = 16 \<and> length kc_rx = 16"

text \<open>The tag of a record without content.\<close>

definition key_tag :: "worker_env \<Rightarrow> bytes \<Rightarrow> bytes \<Rightarrow> bytes \<Rightarrow> u64 \<Rightarrow> bytes" where
  "key_tag W k iv aad seq = gcm_tag (we_cipher W) k (tls13_nonce iv seq) aad []"

lemma length_key_tag [simp]: "worker_env_ok W \<Longrightarrow> length (key_tag W k iv aad seq) = 16"
  by (simp add: key_tag_def length_gcm_tag worker_env_ok_def)

definition frame_commit :: "worker_env \<Rightarrow> byte \<Rightarrow> bytes \<Rightarrow> u64 \<Rightarrow> bytes \<Rightarrow> record_commit" where
  "frame_commit W op aad seq sent =
     \<lparr>rc_op = op, rc_seq = seq, rc_aad = aad, rc_commit_hash = sha256_of (we_hash W) sent\<rparr>"

lemma commit_serves:
  assumes "serves R (f (sha256_of H_of sent), q, [], [])" and "length sent = 16" and "H_of = we_hash W"
  shows "serves R (pbind (read_commit W 0) f, Send [] (Send sent q), [], [])"
  using assms by (auto simp: read_commit_def intro!: serves.c_send serves.n_recv)

lemma encrypt_frame:
  assumes ok: "worker_env_ok W" "keys_wf K kc_tx kc_rx" and aad: "length aad < 65536"
    and rest: "serves R (run_notary_worker_inner n W sk K bind (recs @ [frame_commit W OP_ENCRYPT aad seq (sent (key_tag W (bxor (wk_n_tx K) kc_tx) (wiv_tx K) aad seq))]),
      q (key_tag W (bxor (wk_n_tx K) kc_tx) (wiv_tx K) aad seq), [], [])"
    and sent: "length (sent (key_tag W (bxor (wk_n_tx K) kc_tx) (wiv_tx K) aad seq)) = 16"
  shows "serves R (run_notary_worker_inner (Suc n) W sk K bind recs,
    pbind (write_header \<lparr>hd_op = OP_ENCRYPT, hd_seq = seq, hd_aad = aad, hd_payload_len = 0\<rparr>) (\<lambda>_.
    pbind (client_encrypt_gcm (we_cipher W) kc_tx [] aad) (\<lambda>(ct, tag). Send ct (Send (sent tag) (q tag)))), [], [])"
proof -
  let ?h = "\<lparr>hd_op = OP_ENCRYPT, hd_seq = seq, hd_aad = aad, hd_payload_len = 0\<rparr>"
  have enc: "delivers (notary_encrypt_gcm (we_cipher W) (wk_n_tx K) (tls13_nonce (wiv_tx K) seq) aad 0)
      (client_encrypt_gcm (we_cipher W) kc_tx [] aad) (\<lambda>_ y. y = ([], key_tag W (bxor (wk_n_tx K) kc_tx) (wiv_tx K) aad seq))"
    unfolding key_tag_def using ok by (intro encrypt_empty_run) (simp_all add: worker_env_ok_def keys_wf_def)
  show ?thesis
    unfolding run_notary_worker_inner.simps
    by (rule serves_bind [OF header_run])
      (use aad rest sent in \<open>auto intro!: serves_bind [OF enc] commit_serves simp: worker_record_def frame_commit_def\<close>)
qed

lemma decrypt_frame:
  assumes ok: "worker_env_ok W" "keys_wf K kc_tx kc_rx" and aad: "length aad < 65536"
    and rest: "serves R (run_notary_worker_inner n W sk K bind (recs @ [frame_commit W OP_DECRYPT aad seq sent]),
      q [], [], [])"
    and sent: "length sent = 16"
  shows "serves R (run_notary_worker_inner (Suc n) W sk K bind recs,
    pbind (write_header \<lparr>hd_op = OP_DECRYPT, hd_seq = seq, hd_aad = aad, hd_payload_len = 0\<rparr>) (\<lambda>_.
    pbind (client_decrypt_gcm_2pc (we_cipher W) kc_rx [] aad (key_tag W (bxor (wk_n_rx K) kc_rx) (wiv_rx K) aad seq)) (\<lambda>pt.
    Send [] (Send sent (q pt)))), [], [])"
proof -
  have dec: "delivers (notary_decrypt_gcm (we_cipher W) (wk_n_rx K) (tls13_nonce (wiv_rx K) seq) (length aad) 0)
      (client_decrypt_gcm_2pc (we_cipher W) kc_rx [] aad (key_tag W (bxor (wk_n_rx K) kc_rx) (wiv_rx K) aad seq)) (\<lambda>_ y. y = [])"
    unfolding key_tag_def using ok by (intro decrypt_empty_run) (simp_all add: worker_env_ok_def keys_wf_def)
  have ops: "OP_DECRYPT \<noteq> OP_ENCRYPT" by (simp add: OP_DECRYPT_def OP_ENCRYPT_def)
  show ?thesis
    unfolding run_notary_worker_inner.simps
    by (rule serves_bind [OF header_run])
      (use aad rest sent ops in \<open>auto intro!: serves_bind [OF dec] commit_serves simp: worker_record_def frame_commit_def\<close>)
qed

definition session_bundle ::
  "worker_env \<Rightarrow> bytes \<Rightarrow> worker_keys \<Rightarrow> session_binding \<Rightarrow> record_commit list \<Rightarrow> bytes \<Rightarrow> bytes \<Rightarrow> notary_bundle" where
  "session_bundle W sk K bind recs sid sn =
     sign (we_ed W) (we_now W) sk sid sn recs (wk_n_tx K) (wiv_tx K) (wk_n_rx K) (wiv_rx K) bind"

definition names_ok :: "bytes \<Rightarrow> bytes \<Rightarrow> bool" where
  "names_ok sid sn \<longleftrightarrow> length sid < 65536 \<and> length sn < 65536 \<and> utf8_valid sid \<and> utf8_valid sn"

lemma finish_run:
  assumes ok: "worker_env_ok W" "names_ok sid sn"
    and ser: "ser_ok W (session_bundle W sk K bind recs sid sn)"
  shows "delivers (run_notary_worker_inner (Suc n) W (Some sk) K bind recs) (client_finish_session W sid sn)
    (\<lambda>x y. x = Some (session_bundle W sk K bind recs sid sn) \<and> y = session_bundle W sk K bind recs sid sn)"
proof -
  let ?b = "session_bundle W sk K bind recs sid sn"
  have ops: "OP_FINISH \<noteq> OP_ENCRYPT" "OP_FINISH \<noteq> OP_DECRYPT"
    by (simp_all add: OP_FINISH_def OP_DECRYPT_def OP_ENCRYPT_def)
  have "delivers (worker_finish W (Some sk) K bind recs)
    (Send (to_be 2 (length sid)) (Send sid (Send (to_be 2 (length sn)) (Send sn
     (Recv 4 (\<lambda>len_buf.
       if from_be len_buf > 16 * 1024 * 1024 then Error ''notary bundle suspiciously large''
       else Recv (from_be len_buf) (\<lambda>buf.
         case bundle_de W buf of None \<Rightarrow> Error ''bincode deserialize bundle'' | Some b \<Rightarrow> Done b)))))))
    (\<lambda>x y. x = Some ?b \<and> y = ?b)"
    unfolding worker_finish_def
    using ok(2) ser
    by (simp add: ser_ok_def names_ok_def session_bundle_def [symmetric] Let_def delivers_c_send delivers_n_send delivers_Done
        del: to_be.simps)
  then show ?thesis
    unfolding run_notary_worker_inner.simps client_finish_session_def
    by (intro delivers_pbind [OF header_run]) (use ops in auto)
qed

section \<open>Sessions\<close>

text \<open>
  A client that runs its operations one after the other and then asks for the bundle.
\<close>

primrec client_session :: "worker_env \<Rightarrow> bytes \<Rightarrow> bytes \<Rightarrow> client_job list \<Rightarrow> bytes \<Rightarrow> bytes \<Rightarrow> notary_bundle proc" where
  "client_session W kc_tx kc_rx [] sid sn = client_finish_session W sid sn"
| "client_session W kc_tx kc_rx (job # jobs) sid sn =
     (case job of
        Encrypt_Job pt aad seq \<Rightarrow>
          pbind (encrypt_one W kc_tx pt aad seq) (\<lambda>_. client_session W kc_tx kc_rx jobs sid sn)
      | Decrypt_Job ct tag aad seq \<Rightarrow>
          pbind (decrypt_one W kc_rx ct tag aad seq) (\<lambda>_. client_session W kc_tx kc_rx jobs sid sn)
      | Shutdown_Job \<Rightarrow> client_session W kc_tx kc_rx jobs sid sn)"

text \<open>Operations without content, with the right tag, and the record the notary keeps of each.\<close>

fun job_ok :: "worker_env \<Rightarrow> bytes \<Rightarrow> bytes \<Rightarrow> client_job \<Rightarrow> bool" where
  "job_ok W k iv (Encrypt_Job pt aad seq) \<longleftrightarrow> pt = [] \<and> length aad < 65536"
| "job_ok W k iv (Decrypt_Job ct tag aad seq) \<longleftrightarrow> ct = [] \<and> tag = key_tag W k iv aad seq \<and> length aad < 65536"
| "job_ok W k iv Shutdown_Job \<longleftrightarrow> False"

fun job_record :: "worker_env \<Rightarrow> bytes \<Rightarrow> bytes \<Rightarrow> client_job \<Rightarrow> record_commit" where
  "job_record W k iv (Encrypt_Job pt aad seq) = frame_commit W OP_ENCRYPT aad seq (pt @ key_tag W k iv aad seq)"
| "job_record W k iv (Decrypt_Job ct tag aad seq) = frame_commit W OP_DECRYPT aad seq (ct @ tag)"
| "job_record W k iv Shutdown_Job = frame_commit W 0 [] 0 []"

lemma session_serves:
  assumes ok: "worker_env_ok W" "keys_wf K kc_tx kc_rx" "names_ok sid sn"
    and jobs: "list_all (job_ok W (bxor (wk_n_rx K) kc_rx) (wiv_rx K)) jobs"
    and ser: "ser_ok W (session_bundle W sk K bind (recs @ map (job_record W (bxor (wk_n_tx K) kc_tx) (wiv_tx K)) jobs) sid sn)"
    and R: "R (Inr (Some (session_bundle W sk K bind (recs @ map (job_record W (bxor (wk_n_tx K) kc_tx) (wiv_tx K)) jobs) sid sn)))
              (Inr (session_bundle W sk K bind (recs @ map (job_record W (bxor (wk_n_tx K) kc_tx) (wiv_tx K)) jobs) sid sn))"
  shows "serves R (run_notary_worker_inner (Suc (length jobs + k)) W (Some sk) K bind recs,
    client_session W kc_tx kc_rx jobs sid sn, [], [])"
  using jobs ser R
proof (induction jobs arbitrary: recs)
  case Nil
  let ?n = "run_notary_worker_inner (Suc k) W (Some sk) K bind recs"
  have "serves R (pbind ?n Done, pbind (client_finish_session W sid sn) Done, [], [])"
    by (rule serves_bind [OF finish_run [OF ok(1,3)]]) (use Nil in \<open>auto intro: serves.final\<close>)
  then show ?case by simp
next
  case (Cons job jobs)
  have rest: "serves R (run_notary_worker_inner (Suc (length jobs + k)) W (Some sk) K bind (recs @ [job_record W (bxor (wk_n_tx K) kc_tx) (wiv_tx K) job]),
      client_session W kc_tx kc_rx jobs sid sn, [], [])"
    using Cons.prems by (intro Cons.IH) simp_all
  show ?case
  proof (cases job)
    case (Encrypt_Job pt aad seq)
    with rest Cons.prems(1) ok(1) show ?thesis
      using encrypt_frame [OF ok(1,2), where sent = "\<lambda>t. t" and q = "\<lambda>_. client_session W kc_tx kc_rx jobs sid sn"
          and aad = aad and seq = seq]
      by (simp add: encrypt_one_def pbind_assoc case_prod_unfold del: run_notary_worker_inner.simps)
  next
    case (Decrypt_Job ct tag aad seq)
    with rest Cons.prems(1) ok(1) show ?thesis
      using decrypt_frame [OF ok(1,2), where sent = tag and q = "\<lambda>_. client_session W kc_tx kc_rx jobs sid sn"
          and aad = aad and seq = seq]
      by (simp add: decrypt_one_def pbind_assoc del: run_notary_worker_inner.simps)
  qed (use Cons.prems in simp)
qed

section \<open>Properties\<close>

text \<open>A bundle format with one bundle, and small libraries, for the instances.\<close>

definition sample_env :: "notary_bundle \<Rightarrow> worker_env" where
  "sample_env b = \<lparr>we_cipher = xor_cipher, we_hash = xor_hash, we_ed = toy_ed25519, we_now = 5,
                   bundle_ser = \<lambda>_. [7], bundle_de = \<lambda>_. Some b\<rparr>"

lemma sample_env_ok: "worker_env_ok (sample_env b)" and sample_ser_ok: "ser_ok (sample_env b) b"
  by (simp_all add: worker_env_ok_def ser_ok_def sample_env_def xor_cipher_ok xor_hash_ok)

definition sample_keys :: worker_keys where
  "sample_keys = \<lparr>wk_n_tx = zeros 16, wiv_tx = zeros 12, wk_n_rx = zeros 16, wiv_rx = zeros 12\<rparr>"

lemma sample_keys_wf: "keys_wf sample_keys (zeros 16) (zeros 16)"
  by (simp add: keys_wf_def sample_keys_def)

text \<open>
  C3. A session of the attested worker and a client whose operations have no content and the right
  tags, on every schedule and for all random masks: both end with the same signed bundle, whose log
  has one entry per operation, in order, with the operation's sequence number, additional data and the
  hash of its ciphertext and tag. The loop needs one frame more than there are operations.
\<close>

theorem worker_session:
  assumes "worker_env_ok W" and "keys_wf K kc_tx kc_rx" and "names_ok sid sn"
    and "list_all (job_ok W (bxor (wk_n_rx K) kc_rx) (wiv_rx K)) jobs" and "length jobs < frames"
    and "b = session_bundle W sk K bind (map (job_record W (bxor (wk_n_tx K) kc_tx) (wiv_tx K)) jobs) sid sn"
    and "ser_ok W b"
  shows "safe (both_ok (\<lambda>x y. x = Some b \<and> y = b))
    (run_notary_worker_attested frames W sk K bind, client_session W kc_tx kc_rx jobs sid sn, [], [])"
proof -
  obtain k where "frames = Suc (length jobs + k)" using assms(5) by (auto dest: less_imp_Suc_add)
  then show ?thesis
    unfolding run_notary_worker_attested_def
    using assms(1-4,6,7)
    by (auto intro!: serves_safe session_serves simp: both_ok_def simp del: run_notary_worker_inner.simps)
qed

theorem worker_session_witness:
  "let jobs = [Encrypt_Job [] [23] 0, Decrypt_Job [] (key_tag (sample_env undefined) (zeros 16) (zeros 12) [] 4) [] 4];
       b = session_bundle (sample_env undefined) [1] sample_keys session_binding_default
             (map (job_record (sample_env undefined) (zeros 16) (zeros 12)) jobs) [97] [98]
   in safe (both_ok (\<lambda>x y. x = Some b \<and> y = b))
    (run_notary_worker_attested 3 (sample_env b) [1] sample_keys session_binding_default,
     client_session (sample_env b) (zeros 16) (zeros 16) jobs [97] [98], [], [])"
proof -
  define jobs where "jobs = [Encrypt_Job [] [23] 0,
    Decrypt_Job [] (key_tag (sample_env undefined) (zeros 16) (zeros 12) [] 4) [] 4]"
  define b where "b = session_bundle (sample_env undefined) [1] sample_keys session_binding_default
    (map (job_record (sample_env undefined) (zeros 16) (zeros 12)) jobs) [97] [98]"
  have env: "session_bundle (sample_env b) = session_bundle (sample_env undefined)"
    "job_record (sample_env b) = job_record (sample_env undefined)" "key_tag (sample_env b) = key_tag (sample_env undefined)"
    by (intro ext, simp add: session_bundle_def sample_env_def)
      ((intro ext, rename_tac k iv j, case_tac j; simp add: frame_commit_def key_tag_def sample_env_def),
       intro ext, simp add: key_tag_def sample_env_def)
  have keys: "bxor (wk_n_tx sample_keys) (zeros 16) = zeros 16" "bxor (wk_n_rx sample_keys) (zeros 16) = zeros 16"
    "wiv_tx sample_keys = zeros 12" "wiv_rx sample_keys = zeros 12"
    by (simp_all add: sample_keys_def)
  have "list_all (job_ok (sample_env b) (zeros 16) (zeros 12)) jobs" "length jobs < 3"
    by (simp_all add: jobs_def env)
  with worker_session [OF sample_env_ok [of b] sample_keys_wf, of "[97]" "[98]" jobs 3 b "[1]" session_binding_default]
  have "safe (both_ok (\<lambda>x y. x = Some b \<and> y = b))
    (run_notary_worker_attested 3 (sample_env b) [1] sample_keys session_binding_default,
     client_session (sample_env b) (zeros 16) (zeros 16) jobs [97] [98], [], [])"
    by (simp add: keys env names_ok_def sample_ser_ok b_def [symmetric])
  then show ?thesis by (simp add: Let_def jobs_def b_def)
qed

text \<open>
  The log entry of a frame is not tied to the frame: a client that runs the decryption of an
  accepted empty record and then sends any sixteen bytes it likes gets a bundle whose signed log
  holds the hash of those bytes, and the same after an encryption.
\<close>

theorem worker_commits_unchecked:
  assumes "worker_env_ok W" and "keys_wf K kc_tx kc_rx" and "names_ok sid sn" and "length aad < 65536"
    and "length sent = 16" and "op = OP_ENCRYPT \<or> op = OP_DECRYPT"
    and "b = session_bundle W sk K bind [frame_commit W op aad seq sent] sid sn" and "ser_ok W b"
  shows "safe (both_ok (\<lambda>x y. x = Some b \<and> y = b))
    (run_notary_worker_attested 2 W sk K bind,
     pbind (write_header \<lparr>hd_op = op, hd_seq = seq, hd_aad = aad, hd_payload_len = 0\<rparr>) (\<lambda>_.
     pbind (if op = OP_ENCRYPT then pbind (client_encrypt_gcm (we_cipher W) kc_tx [] aad) (\<lambda>(ct, tag). Done ct)
            else pbind (client_decrypt_gcm_2pc (we_cipher W) kc_rx [] aad (key_tag W (bxor (wk_n_rx K) kc_rx) (wiv_rx K) aad seq))
                   (\<lambda>_. Done [])) (\<lambda>ct.
     Send ct (Send sent (client_finish_session W sid sn)))), [], [])"
proof -
  let ?R = "both_ok (\<lambda>x y. x = Some b \<and> y = b)"
  have fin: "serves ?R (run_notary_worker_inner 1 W (Some sk) K bind ([] @ [frame_commit W op aad seq sent]),
      client_finish_session W sid sn, [], [])"
    using finish_run [OF assms(1,3), of sk K bind "[frame_commit W op aad seq sent]" 0] assms(7,8)
    by (simp add: delivers_def del: run_notary_worker_inner.simps)
  show ?thesis
  proof (cases "op = OP_ENCRYPT")
    case True
    with encrypt_frame [OF assms(1,2,4), where sent = "\<lambda>_. sent" and q = "\<lambda>_. client_finish_session W sid sn"]
      fin assms(5) show ?thesis
      unfolding run_notary_worker_attested_def
      by (auto intro!: serves_safe simp: pbind_assoc case_prod_unfold numeral_2_eq_2 simp del: run_notary_worker_inner.simps)
  next
    case False
    with decrypt_frame [OF assms(1,2,4), where sent = sent and q = "\<lambda>_. client_finish_session W sid sn"]
      fin assms(5,6) show ?thesis
      unfolding run_notary_worker_attested_def
      by (auto intro!: serves_safe simp: pbind_assoc numeral_2_eq_2 simp del: run_notary_worker_inner.simps)
  qed
qed

theorem worker_commits_unchecked_example:
  "let b = session_bundle (sample_env undefined) [1] sample_keys session_binding_default
             [frame_commit (sample_env undefined) OP_ENCRYPT [] 0 (replicate 16 9)] [97] [98]
   in safe (both_ok (\<lambda>x y. x = Some b \<and> y = b))
    (run_notary_worker_attested 2 (sample_env b) [1] sample_keys session_binding_default,
     pbind (write_header \<lparr>hd_op = OP_ENCRYPT, hd_seq = 0, hd_aad = [], hd_payload_len = 0\<rparr>) (\<lambda>_.
     pbind (pbind (client_encrypt_gcm xor_cipher (zeros 16) [] []) (\<lambda>(ct, tag). Done ct)) (\<lambda>ct.
     Send ct (Send (replicate 16 9) (client_finish_session (sample_env b) [97] [98])))), [], [])"
proof -
  define b where "b = session_bundle (sample_env undefined) [1] sample_keys session_binding_default
             [frame_commit (sample_env undefined) OP_ENCRYPT [] 0 (replicate 16 9)] [97] [98]"
  have "b = session_bundle (sample_env b) [1] sample_keys session_binding_default
             [frame_commit (sample_env b) OP_ENCRYPT [] 0 (replicate 16 9)] [97] [98]"
    unfolding b_def by (simp add: session_bundle_def frame_commit_def sample_env_def)
  from worker_commits_unchecked [OF sample_env_ok [of b] sample_keys_wf _ _ _ _ this sample_ser_ok]
  have "safe (both_ok (\<lambda>x y. x = Some b \<and> y = b))
    (run_notary_worker_attested 2 (sample_env b) [1] sample_keys session_binding_default,
     pbind (write_header \<lparr>hd_op = OP_ENCRYPT, hd_seq = 0, hd_aad = [], hd_payload_len = 0\<rparr>) (\<lambda>_.
     pbind (pbind (client_encrypt_gcm (we_cipher (sample_env b)) (zeros 16) [] []) (\<lambda>(ct, tag). Done ct)) (\<lambda>ct.
     Send ct (Send (replicate 16 9) (client_finish_session (sample_env b) [97] [98])))), [], [])"
    by (simp add: names_ok_def)
  moreover have "we_cipher (sample_env b) = xor_cipher" by (simp add: sample_env_def)
  ultimately show ?thesis by (simp add: Let_def b_def)
qed

section \<open>From the key schedule to the bundle\<close>

text \<open>
  The notary's key shares are random, so the bundle is read back for every choice of them.
\<close>

definition schedule_keys :: "bytes \<times> bytes \<times> bytes \<times> bytes \<Rightarrow> bytes \<Rightarrow> bytes \<Rightarrow> worker_keys" where
  "schedule_keys t kn_tx kn_rx =
     (case t of (_, tx_iv, _, rx_iv) \<Rightarrow> \<lparr>wk_n_tx = kn_tx, wiv_tx = tx_iv, wk_n_rx = kn_rx, wiv_rx = rx_iv\<rparr>)"

lemma two_pc_header: "delivers read_header (write_header \<lparr>hd_op = OP_2PC_HKDF, hd_seq = 0, hd_aad = [], hd_payload_len = 0\<rparr>)
    (\<lambda>r _. r = \<lparr>hd_op = OP_2PC_HKDF, hd_seq = 0, hd_aad = [], hd_payload_len = 0\<rparr>)"
  by (rule header_run) simp

lemma length_reference_traffic:
  assumes "hash_env_ok H" and "length ikm = 32" and "length sh = 32" and "length sf = 32"
    and "reference_tls13_client_traffic H ikm sh sf = (k_tx, tx_iv, k_rx, rx_iv)"
  shows "length k_tx = 16" "length tx_iv = 12" "length k_rx = 16" "length rx_iv = 12"
proof -
  note lens = length_extract [OF assms(1)] length_expand_label [OF assms(1)] length_empty_hash [OF assms(1)]
  show "length k_tx = 16" "length tx_iv = 12" "length k_rx = 16" "length rx_iv = 12"
    using assms(2-5) by (auto simp: reference_tls13_client_traffic_def Let_def lens)
qed

lemma session_of_shares:
  assumes W: "worker_env_ok W" "names_ok sid sn"
    and t: "traffic_shares_of (k_tx, tx_iv, k_rx, rx_iv) n c"
    and lens: "length k_tx = 16" "length tx_iv = 12" "length k_rx = 16" "length rx_iv = 12"
    and jobs: "list_all (job_ok W k_rx rx_iv) jobs" "length jobs < frames"
    and b: "bundle_with = (\<lambda>kn_tx kn_rx. session_bundle W sk \<lparr>wk_n_tx = kn_tx, wiv_tx = tx_iv, wk_n_rx = kn_rx, wiv_rx = rx_iv\<rparr>
      bind (map (job_record W k_tx tx_iv) jobs) sid sn)"
    and ser: "\<And>kn_tx kn_rx. length kn_tx = 16 \<Longrightarrow> length kn_rx = 16 \<Longrightarrow> ser_ok W (bundle_with kn_tx kn_rx)"
  shows "serves (both_ok (\<lambda>x (kc_tx, kc_rx, b). x = Some b \<and>
      (\<exists>kn_tx kn_rx. b = bundle_with kn_tx kn_rx \<and> bxor kn_tx kc_tx = k_tx \<and> bxor kn_rx kc_rx = k_rx)))
    (run_notary_worker_inner frames W (Some sk)
       \<lparr>wk_n_tx = share_k_tx n, wiv_tx = tx_iv, wk_n_rx = share_k_rx n, wiv_rx = rx_iv\<rparr> bind [],
     pbind (client_session W (share_k_tx c) (share_k_rx c) jobs sid sn) (\<lambda>b. Done (share_k_tx c, share_k_rx c, b)), [], [])"
    (is "serves ?R (?n, _, _, _)")
proof -
  obtain k where k: "frames = Suc (length jobs + k)" using jobs(2) by (auto dest: less_imp_Suc_add)
  let ?K = "\<lparr>wk_n_tx = share_k_tx n, wiv_tx = tx_iv, wk_n_rx = share_k_rx n, wiv_rx = rx_iv\<rparr>"
  let ?b = "bundle_with (share_k_tx n) (share_k_rx n)"
  have keys: "bxor (share_k_tx n) (share_k_tx c) = k_tx" "bxor (share_k_rx n) (share_k_rx c) = k_rx"
    and l: "length (share_k_tx n) = 16" "length (share_k_rx n) = 16" "length (share_k_tx c) = 16" "length (share_k_rx c) = 16"
    using t lens by (auto simp: traffic_shares_of_def shares_of_def)
  have "\<exists>kn_tx kn_rx. ?b = bundle_with kn_tx kn_rx \<and> bxor kn_tx (share_k_tx c) = k_tx \<and> bxor kn_rx (share_k_rx c) = k_rx"
    using keys by blast
  then have fin: "serves ?R (Done (Some ?b), Done (share_k_tx c, share_k_rx c, ?b), [], [])"
    by (intro serves.final [OF outcome.simps(1) outcome.simps(1)]) (auto simp: both_ok_def)
  have wf: "keys_wf ?K (share_k_tx c) (share_k_rx c)" using l lens by (simp add: keys_wf_def)
  have "?b = session_bundle W sk ?K bind ([] @ map (job_record W k_tx tx_iv) jobs) sid sn"
    using b by simp
  then have "serves (both_ok (\<lambda>x y. x = Some ?b \<and> y = ?b)) (?n, client_session W (share_k_tx c) (share_k_rx c) jobs sid sn, [], [])"
    unfolding k by (intro session_serves [OF W(1) wf W(2)])
      (use jobs(1) ser [OF l(1,2)] keys in \<open>simp_all add: both_ok_def\<close>)
  then have "serves ?R (pbind ?n Done,
     pbind (client_session W (share_k_tx c) (share_k_rx c) jobs sid sn) (\<lambda>b. Done (share_k_tx c, share_k_rx c, b)), [], [])"
    by (rule serves_pbind) (elim conjE ssubst, rule fin)
  then show ?thesis by simp
qed

lemma worker_session_delivers:
  assumes "worker_env_ok W" and "names_ok sid sn" and "length (tp_ikm_n setup) = 32" and "length ikm_c = 32"
    and "tp_ikm_full setup = bxor (tp_ikm_n setup) ikm_c"
    and "length (tp_after_sh setup) = 32" and "length (tp_after_sf setup) = 32"
    and "reference_tls13_client_traffic (we_hash W) (tp_ikm_full setup) (tp_after_sh setup) (tp_after_sf setup) =
      (k_tx, tx_iv, k_rx, rx_iv)"
    and "list_all (job_ok W k_rx rx_iv) jobs" and "length jobs < frames"
    and "bundle_with = (\<lambda>kn_tx kn_rx. session_bundle W sk \<lparr>wk_n_tx = kn_tx, wiv_tx = tx_iv, wk_n_rx = kn_rx, wiv_rx = rx_iv\<rparr>
      (tp_binding setup) (map (job_record W k_tx tx_iv) jobs) sid sn)"
    and "\<And>kn_tx kn_rx. length kn_tx = 16 \<Longrightarrow> length kn_rx = 16 \<Longrightarrow> ser_ok W (bundle_with kn_tx kn_rx)"
  shows "delivers (run_notary_worker_attested_2pc frames W sk setup)
    (pbind (client_run_2pc_traffic_hkdf W ikm_c (tp_after_sh setup) (tp_after_sf setup)) (\<lambda>t.
     pbind (client_session W (share_k_tx t) (share_k_rx t) jobs sid sn) (\<lambda>b.
     Done (share_k_tx t, share_k_rx t, b)))) (\<lambda>x (kc_tx, kc_rx, b). x = Some b \<and>
      (\<exists>kn_tx kn_rx. b = bundle_with kn_tx kn_rx \<and> bxor kn_tx kc_tx = k_tx \<and> bxor kn_rx kc_rx = k_rx))"
proof -
  have H: "hash_env_ok (we_hash W)" using assms(1) by (simp add: worker_env_ok_def)
  have ikm: "shares_of (tp_ikm_full setup) (tp_ikm_n setup) ikm_c" "length (tp_ikm_full setup) = 32"
    using assms(3-5) by (simp_all add: shares_of_def)
  note lens = length_reference_traffic [OF H ikm(2) assms(6,7,8)]
  have run: "delivers (notary_tls13_client_traffic_from_ikm_shares (we_hash W) (tp_ikm_n setup) (tp_after_sh setup) (tp_after_sf setup))
      (client_tls13_client_traffic_from_ikm_shares (we_hash W) ikm_c (tp_after_sh setup) (tp_after_sf setup))
      (traffic_shares_of (k_tx, tx_iv, k_rx, rx_iv))"
    using key_schedule_run [OF H ikm assms(6,6,7,7)] assms(8) by simp
  have op: "\<not> OP_2PC_HKDF \<noteq> OP_2PC_HKDF" by simp
  show ?thesis
    unfolding delivers_def run_notary_worker_attested_2pc_def client_run_2pc_traffic_hkdf_def pbind_assoc
  proof (rule serves_bind [OF two_pc_header], elim ssubst, unfold header.simps if_not_P [OF op])
  qed (unfold Let_def assms(8) prod.case, rule serves_bind [OF run], rule session_of_shares [OF assms(1,2) _ lens assms(9-12)])
qed


text \<open>For the instance: bundles told apart by the notary's key shares.\<close>

definition keyed_bundle :: "bytes \<Rightarrow> bytes \<Rightarrow> record_commit list \<Rightarrow> bytes \<Rightarrow> bytes \<Rightarrow> notary_bundle" where
  "keyed_bundle tx_iv rx_iv recs kn_tx kn_rx =
     sign toy_ed25519 5 [1] [97] [98] recs kn_tx tx_iv kn_rx rx_iv session_binding_default"

definition shares_env :: "(bytes \<Rightarrow> bytes \<Rightarrow> notary_bundle) \<Rightarrow> worker_env" where
  "shares_env f = \<lparr>we_cipher = xor_cipher, we_hash = xor_hash, we_ed = toy_ed25519, we_now = 5,
                   bundle_ser = (\<lambda>b. k_n_tx b @ k_n_rx b), bundle_de = (\<lambda>bs. Some (f (take 16 bs) (drop 16 bs)))\<rparr>"

definition sample_setup :: two_pc_traffic_setup where
  "sample_setup = \<lparr>tp_ikm_n = replicate 32 1, tp_after_sh = replicate 32 3, tp_after_sf = replicate 32 4,
     tp_ikm_full = bxor (replicate 32 1) (replicate 32 2), tp_binding = session_binding_default\<rparr>"


section \<open>The worker against any client\<close>

lemma yields_read_header: "yields (\<lambda>h. length (hd_aad h) < 65536) read_header"
proof -
  have "from_be bs < 65536" if "length bs = 2" for bs
    using from_be_less [of bs] that by simp
  then show ?thesis by (simp add: read_header_def)
qed

lemma yields_read_commit: "worker_env_ok W \<Longrightarrow> yields (\<lambda>h. length h = 32) (read_commit W n)"
  by (simp add: read_commit_def worker_env_ok_def length_sha256_of)

definition keys_typed :: "worker_keys \<Rightarrow> bool" where
  "keys_typed K \<longleftrightarrow> length (wk_n_tx K) = 16 \<and> length (wk_n_rx K) = 16 \<and> length (wiv_tx K) = 12 \<and> length (wiv_rx K) = 12"

text \<open>What a bundle of the worker is: well-formed, signed, and a log of at most \<open>m\<close> record operations.\<close>

definition bundle_typed :: "worker_env \<Rightarrow> session_binding \<Rightarrow> nat \<Rightarrow> notary_bundle \<Rightarrow> bool" where
  "bundle_typed W bind m b \<longleftrightarrow> binding b = bind \<and> bundle_wf b \<and> verify (we_ed W) b \<and> utf8_valid (session_id b) \<and> utf8_valid (server_name b) \<and>
     length (records b) \<le> m \<and> list_all (\<lambda>r. rc_op r = OP_ENCRYPT \<or> rc_op r = OP_DECRYPT) (records b)"

definition log_typed :: "record_commit list \<Rightarrow> bool" where
  "log_typed recs \<longleftrightarrow> list_all record_wf recs \<and> list_all (\<lambda>r. rc_op r = OP_ENCRYPT \<or> rc_op r = OP_DECRYPT) recs"

definition signer_ok :: "worker_env \<Rightarrow> bytes \<Rightarrow> bool" where
  "signer_ok W sk \<longleftrightarrow> ed25519_ok (we_ed W) sk \<and> length (verifying_key (we_ed W) sk) = 32"

lemma worker_finish_typed:
  assumes "signer_ok W sk" and "keys_typed K" and "binding_wf bind" and "log_typed recs" and "length recs \<le> m" and "m < 2 ^ 32"
  shows "yields (\<lambda>x. \<forall>b. x = Some b \<longrightarrow> bundle_typed W bind m b) (worker_finish W (Some sk) K bind recs)"
proof -
  have lens: "from_be bs < 65536" if "length bs = 2" for bs
    using from_be_less [of bs] that by simp
  have "bundle_typed W bind m (sign (we_ed W) (we_now W) sk sid sn recs (wk_n_tx K) (wiv_tx K) (wk_n_rx K) (wiv_rx K) bind)"
    if "utf8_valid sid" "utf8_valid sn" "length sid < 65536" "length sn < 65536" for sid sn
  proof -
    let ?b = "sign (we_ed W) (we_now W) sk sid sn recs (wk_n_tx K) (wiv_tx K) (wk_n_rx K) (wiv_rx K) bind"
    have "verify (we_ed W) ?b"
      using assms(1) unfolding sign_def signer_ok_def
      by (simp add: verify_def sign_with_version_def ed25519_ok_def Let_def)
    moreover have "bundle_wf ?b"
      using assms that by (simp add: bundle_wf_def arrays_wf_def sign_def sign_with_version_def signer_ok_def keys_typed_def
          log_typed_def Let_def)
    ultimately show ?thesis
      using assms that by (simp add: bundle_typed_def sign_def sign_with_version_def log_typed_def Let_def)
  qed
  then show ?thesis
    using lens by (simp add: worker_finish_def Let_def)
qed

lemma worker_typed:
  assumes W: "worker_env_ok W" "signer_ok W sk" and K: "keys_typed K" "binding_wf bind" and n: "length recs + frames \<le> m" "m < 2 ^ 32"
    and log: "log_typed recs"
  shows "yields (\<lambda>x. \<forall>b. x = Some b \<longrightarrow> bundle_typed W bind m b) (run_notary_worker_inner frames W (Some sk) K bind recs)"
  using n(1) log
proof (induction frames arbitrary: recs)
  case (Suc frames)
  have next_frame: "yields (\<lambda>x. \<forall>b. x = Some b \<longrightarrow> bundle_typed W bind m b)
      (run_notary_worker_inner frames W (Some sk) K bind (recs @ [worker_record h commit]))"
    if "length (hd_aad h) < 65536" "length commit = 32" "hd_op h = OP_ENCRYPT \<or> hd_op h = OP_DECRYPT" for h commit
    using that Suc.prems by (intro Suc.IH) (auto simp: log_typed_def worker_record_def record_wf_def)
  have finish: "yields (\<lambda>x. \<forall>b. x = Some b \<longrightarrow> bundle_typed W bind m b) (worker_finish W (Some sk) K bind recs)"
    by (rule worker_finish_typed [OF W(2) K Suc.prems(2) _ n(2)]) (use Suc.prems in simp)
  show ?case
    unfolding run_notary_worker_inner.simps
    by (rule yields_pbind [OF yields_read_header])
      (auto intro!: finish yields_pbind [OF yields_True] yields_pbind [OF yields_read_commit [OF W(1)]] next_frame)
qed simp




end
