(* ===== verification/Ecdh.thy ===== *)
theory Ecdh
  imports Garble
begin

text \<open>
  The key exchange in two parties (\<open>notary/src/ecdh.rs\<close>): clamped scalar shares, partial points, the
  leaky and the blinded round over the channel, and the flag in front of them.

  The curve (crate \<open>curve25519_dalek\<close>) is the record \<open>curve\<close> over a type of points; scalars are numbers
  below the group order \<open>ell\<close>, encoded little-endian. \<open>curve_ok\<close> says that points have 32-byte encodings
  that decompress to them. Reads and writes of the \<open>io\<close> stream are those of the channel.

  The lemmas: both rounds leave the two parties with XOR shares of the same reference secret, which the
  locale \<open>ikm_exchange\<close> states once and the blinded and the leaky round interpret; the secret's scalar
  is never the sum of the shares.
\<close>

section \<open>Scalars\<close>

definition ell :: nat where
  "ell = 2 ^ 252 + 27742317777372353535851937790883648493"

definition from_le :: "bytes \<Rightarrow> nat" where
  "from_le bs = from_be (rev bs)"

definition to_le :: "nat \<Rightarrow> nat \<Rightarrow> bytes" where
  "to_le n x = rev (to_be n x)"

record ephemeral_share =
  share_scalar :: nat
  share_bytes :: bytes

definition random_scalar_bytes :: "bytes proc" where
  "random_scalar_bytes = Random 32 Done"

definition clamp_scalar_bytes :: "bytes \<Rightarrow> bytes" where
  "clamp_scalar_bytes bs =
     (let out = bs[0 := bs ! 0 AND 248];
          out = out[31 := out ! 31 AND 127]
      in out[31 := out ! 31 OR 64])"

definition share_from_bytes :: "bytes \<Rightarrow> ephemeral_share" where
  "share_from_bytes bs =
     (let bs = clamp_scalar_bytes bs in \<lparr>share_scalar = from_le bs mod ell, share_bytes = bs\<rparr>)"

definition generate_share :: "ephemeral_share proc" where
  "generate_share =
     pbind random_scalar_bytes (\<lambda>r. let bs = clamp_scalar_bytes r
       in Done \<lparr>share_scalar = from_le bs mod ell, share_bytes = bs\<rparr>)"

definition share_to_bytes :: "ephemeral_share \<Rightarrow> bytes" where
  "share_to_bytes share = share_bytes share"

definition combined_client_esk :: "ephemeral_share \<Rightarrow> ephemeral_share \<Rightarrow> bytes" where
  "combined_client_esk host notary =
     clamp_scalar_bytes (to_le 32 ((share_scalar host + share_scalar notary) mod ell))"

section \<open>Points\<close>

text \<open>\<open>MontgomeryPoint::to_edwards\<close>, scalar multiplication, addition, the compressed form and the Montgomery u.\<close>

record 'p curve =
  to_edwards :: "bytes \<Rightarrow> 'p option"
  smul :: "nat \<Rightarrow> 'p \<Rightarrow> 'p"
  padd :: "'p \<Rightarrow> 'p \<Rightarrow> 'p"
  pt_compress :: "'p \<Rightarrow> bytes"
  pt_decompress :: "bytes \<Rightarrow> 'p option"
  to_montgomery :: "'p \<Rightarrow> bytes"

definition curve_ok :: "'p curve \<Rightarrow> bool" where
  "curve_ok C \<longleftrightarrow> (\<forall>p. length (pt_compress C p) = 32 \<and> pt_decompress C (pt_compress C p) = Some p \<and>
     length (to_montgomery C p) = 32)"

definition compute_partial_point :: "'p curve \<Rightarrow> ephemeral_share \<Rightarrow> bytes \<Rightarrow> fault + 'p" where
  "compute_partial_point C share server_epk =
     sbind (expect (to_edwards C server_epk) ''valid server epk'') (\<lambda>edwards.
     Inr (smul C (share_scalar share) edwards))"

definition combine_partial_points :: "'p curve \<Rightarrow> 'p \<Rightarrow> 'p \<Rightarrow> bytes" where
  "combine_partial_points C p_c p_n = to_montgomery C (padd C p_c p_n)"

definition client_finish_ecdh :: "'p curve \<Rightarrow> ephemeral_share \<Rightarrow> 'p \<Rightarrow> bytes \<Rightarrow> fault + bytes" where
  "client_finish_ecdh C my_share notary_partial server_epk =
     sbind (compute_partial_point C my_share server_epk) (\<lambda>my_partial.
     Inr (combine_partial_points C my_partial notary_partial))"

definition notary_finish_ecdh :: "'p curve \<Rightarrow> ephemeral_share \<Rightarrow> 'p \<Rightarrow> bytes \<Rightarrow> fault + bytes" where
  "notary_finish_ecdh C my_share client_partial server_epk =
     sbind (compute_partial_point C my_share server_epk) (\<lambda>my_partial.
     Inr (combine_partial_points C client_partial my_partial))"

definition reference_ikm :: "'p curve \<Rightarrow> ephemeral_share \<Rightarrow> ephemeral_share \<Rightarrow> bytes \<Rightarrow> fault + bytes" where
  "reference_ikm C host_share notary_share server_epk =
     (let esk = combined_client_esk host_share notary_share;
          esk_scalar = from_le esk mod ell
      in sbind (expect (to_edwards C server_epk) ''valid server epk'') (\<lambda>server_ed.
         Inr (to_montgomery C (smul C esk_scalar server_ed))))"

definition xor_split_ikm :: "bytes \<Rightarrow> bytes \<Rightarrow> bytes \<times> bytes" where
  "xor_split_ikm secret key = (bxor secret key, key)"

section \<open>The leaky round\<close>

record leaky_outcome =
  lo_ikm :: bytes
  lo_host_share :: bytes
  lo_notary_share :: bytes

definition host_run_leaky_additive ::
  "'p curve \<Rightarrow> ephemeral_share \<Rightarrow> ephemeral_share \<Rightarrow> bytes \<Rightarrow> leaky_outcome proc" where
  "host_run_leaky_additive C host_share notary_share server_epk =
     pbind (local_result (compute_partial_point C host_share server_epk)) (\<lambda>p_c.
     Send (pt_compress C p_c)
     (Recv 32 (\<lambda>p_n_bytes.
     case pt_decompress C p_n_bytes of None \<Rightarrow> Error ''bad P_n'' | Some p_n \<Rightarrow>
     pbind (local_result (reference_ikm C host_share notary_share server_epk)) (\<lambda>ikm.
     Recv 32 (\<lambda>mask.
     Done \<lparr>lo_ikm = ikm, lo_host_share = bxor ikm mask, lo_notary_share = mask\<rparr>)))))"

definition notary_run_leaky_additive ::
  "'p curve \<Rightarrow> ephemeral_share \<Rightarrow> ephemeral_share \<Rightarrow> bytes \<Rightarrow> leaky_outcome proc" where
  "notary_run_leaky_additive C notary_share host_share server_epk =
     Recv 32 (\<lambda>p_c_bytes.
     case pt_decompress C p_c_bytes of None \<Rightarrow> Error ''bad P_c'' | Some p_c \<Rightarrow>
     pbind (local_result (compute_partial_point C notary_share server_epk)) (\<lambda>p_n.
     Send (pt_compress C p_n)
     (pbind (local_result (reference_ikm C host_share notary_share server_epk)) (\<lambda>ikm.
     Random 32 (\<lambda>mask. Send mask
     (Done \<lparr>lo_ikm = ikm, lo_host_share = bxor ikm mask, lo_notary_share = mask\<rparr>))))))"

definition SETUP_ECDH_SKIP :: byte where "SETUP_ECDH_SKIP = 0"
definition SETUP_ECDH_LEAKY :: byte where "SETUP_ECDH_LEAKY = 1"
definition SETUP_ECDH_OT :: byte where "SETUP_ECDH_OT = 2"

definition read_host_share :: "ephemeral_share proc" where
  "read_host_share = Recv 32 (\<lambda>bs. Done (share_from_bytes bs))"

definition host_send_ecdh_leaky ::
  "'p curve \<Rightarrow> ephemeral_share \<Rightarrow> ephemeral_share \<Rightarrow> bytes \<Rightarrow> leaky_outcome proc" where
  "host_send_ecdh_leaky C host_share notary_share server_epk =
     Send [SETUP_ECDH_LEAKY] (Send server_epk (Send (share_to_bytes host_share)
     (host_run_leaky_additive C host_share notary_share server_epk)))"

definition notary_recv_ecdh_leaky :: "'p curve \<Rightarrow> ephemeral_share \<Rightarrow> leaky_outcome option proc" where
  "notary_recv_ecdh_leaky C notary_share =
     Recv 1 (\<lambda>flag.
     if flag ! 0 = SETUP_ECDH_SKIP then Done None
     else if flag ! 0 = SETUP_ECDH_LEAKY then
       Recv 32 (\<lambda>server_epk. pbind read_host_share (\<lambda>host_share.
       pbind (notary_run_leaky_additive C notary_share host_share server_epk) (\<lambda>out. Done (Some out))))
     else Error ''unknown SETUP_ECDH flag'')"

definition host_skip_ecdh_leaky :: "unit proc" where
  "host_skip_ecdh_leaky = Send [SETUP_ECDH_SKIP] (Done ())"

section \<open>The blinded round\<close>

record ot_notary_outcome =
  oo_host_share :: bytes
  oo_notary_share :: bytes
  oo_ikm :: bytes

definition host_run_ot_blinded :: "'p curve \<Rightarrow> ephemeral_share \<Rightarrow> bytes \<Rightarrow> bytes proc" where
  "host_run_ot_blinded C host_share server_epk =
     pbind (local_result (compute_partial_point C host_share server_epk)) (\<lambda>p_host.
     Recv 32 (\<lambda>r_bytes.
     case pt_decompress C r_bytes of None \<Rightarrow> Error ''bad R'' | Some r_point \<Rightarrow>
     Send (pt_compress C (padd C p_host r_point))
     (Recv 32 (\<lambda>host_ikm_share. Done host_ikm_share))))"

definition notary_run_ot_blinded ::
  "'p curve \<Rightarrow> ephemeral_share \<Rightarrow> ephemeral_share \<Rightarrow> bytes \<Rightarrow> ot_notary_outcome proc" where
  "notary_run_ot_blinded C notary_share host_share server_epk =
     pbind generate_share (\<lambda>r_mask.
     pbind (local_result (compute_partial_point C r_mask server_epk)) (\<lambda>r_point.
     Send (pt_compress C r_point)
     (Recv 32 (\<lambda>q_bytes.
     case pt_decompress C q_bytes of None \<Rightarrow> Error ''bad Q'' | Some q \<Rightarrow>
     pbind (local_result (compute_partial_point C notary_share server_epk)) (\<lambda>p_notary.
     pbind (local_result (reference_ikm C host_share notary_share server_epk)) (\<lambda>ikm.
     Random 32 (\<lambda>notary_ikm_share.
     Send (bxor ikm notary_ikm_share)
     (Done \<lparr>oo_host_share = bxor ikm notary_ikm_share, oo_notary_share = notary_ikm_share, oo_ikm = ikm\<rparr>))))))))"

definition host_send_ecdh_ot :: "'p curve \<Rightarrow> ephemeral_share \<Rightarrow> bytes \<Rightarrow> bytes proc" where
  "host_send_ecdh_ot C host_share server_epk =
     Send [SETUP_ECDH_OT] (Send server_epk (Send (share_to_bytes host_share)
     (host_run_ot_blinded C host_share server_epk)))"

datatype ecdh_setup_outcome = Skipped | Leaky leaky_outcome | Ot ot_notary_outcome

definition notary_recv_ecdh_setup :: "'p curve \<Rightarrow> ephemeral_share \<Rightarrow> ecdh_setup_outcome proc" where
  "notary_recv_ecdh_setup C notary_share =
     Recv 1 (\<lambda>flag.
     if flag ! 0 = SETUP_ECDH_SKIP then Done Skipped
     else if flag ! 0 = SETUP_ECDH_LEAKY then
       Recv 32 (\<lambda>server_epk. pbind read_host_share (\<lambda>host_share.
       pbind (notary_run_leaky_additive C notary_share host_share server_epk) (\<lambda>out. Done (Leaky out))))
     else if flag ! 0 = SETUP_ECDH_OT then
       Recv 32 (\<lambda>server_epk. pbind read_host_share (\<lambda>host_share.
       pbind (notary_run_ot_blinded C notary_share host_share server_epk) (\<lambda>out. Done (Ot out))))
     else Error ''unknown SETUP_ECDH flag'')"

section \<open>Clamped scalars\<close>

lemma length_clamp [simp]: "length (clamp_scalar_bytes bs) = length bs"
  by (simp add: clamp_scalar_bytes_def Let_def)

lemma clamp_idem:
  assumes "length bs = 32"
  shows "clamp_scalar_bytes (clamp_scalar_bytes bs) = clamp_scalar_bytes bs"
proof -
  have a: "(x AND 248) AND 248 = x AND 248" for x :: byte
    by (simp add: and.assoc)
  have b: "(((x AND 127) OR 64) AND 127) OR 64 = (x AND 127) OR 64" for x :: byte
    by (rule bit_word_eqI) (auto simp: bit_simps)
  show ?thesis
    using assms a b by (intro nth_equalityI) (auto simp: clamp_scalar_bytes_def Let_def nth_list_update)
qed

lemma share_from_to_bytes [simp]:
  "length bs = 32 \<Longrightarrow> share_from_bytes (share_to_bytes (share_from_bytes bs)) = share_from_bytes bs"
  by (simp add: share_from_bytes_def share_to_bytes_def clamp_idem Let_def)

lemma length_share_to_bytes [simp]: "length (share_to_bytes (share_from_bytes bs)) = length bs"
  by (simp add: share_from_bytes_def share_to_bytes_def Let_def)

lemma generate_share: "generate_share = Random 32 (\<lambda>r. Done (share_from_bytes r))"
  by (simp add: generate_share_def random_scalar_bytes_def share_from_bytes_def Let_def)

lemma unat_and_248: "unat (b AND 248 :: byte) = 8 * (unat b div 8)"
proof -
  have lt: "unat b < 256" using unsigned_less [of b] by simp
  have m: "bit (248 :: int) n \<longleftrightarrow> 3 \<le> n" if "n < 8" for n
  proof -
    have "n \<in> {0,1,2,3,4,5,6,7}" using that by auto
    then show ?thesis by auto
  qed
  have "b AND 248 = push_bit 3 (drop_bit 3 b)"
    by (rule bit_word_eqI) (auto simp: m bit_and_iff bit_push_bit_iff bit_drop_bit_eq)
  then have "unat (b AND 248) = unat (push_bit 3 (drop_bit 3 b))" by simp
  also have "\<dots> = 8 * (unat b div 8) mod 256"
    by (subst unsigned_push_bit_eq, subst unsigned_drop_bit_eq)
      (use lt in \<open>simp add: take_bit_eq_mod push_bit_eq_mult drop_bit_eq_div mult.commute\<close>)
  also have "\<dots> = 8 * (unat b div 8)"
    using lt by (intro mod_less) presburger
  finally show ?thesis .
qed

lemma unat_clamp_top:
  assumes "unat b < 32"
  shows "unat ((b AND 127) OR 64 :: byte) = 64 + unat b"
proof -
  have "\<forall>n\<in>set [0..<32]. unat ((word_of_nat n AND 127) OR 64 :: byte) = 64 + n" by code_simp
  with assms show ?thesis by (auto dest: bspec [of _ _ "unat b"])
qed

lemma from_le_Cons: "from_le (b # bs) = unat b + 256 * from_le bs"
  by (simp add: from_le_def from_be_def)

lemma from_le_snoc: "from_le (bs @ [b]) = from_le bs + 256 ^ length bs * unat b"
  by (simp add: from_le_def from_be_Cons mult.commute)

lemma bytes32_cases:
  assumes "length bs = 32"
  obtains b0 mid b31 where "bs = b0 # mid @ [b31]" "length mid = 30"
proof -
  obtain b0 rest where r: "bs = b0 # rest" "length rest = 31" using assms by (cases bs) auto
  then obtain mid b31 where "rest = mid @ [b31]" by (metis append_butlast_last_id list.size(3) zero_neq_numeral)
  with r that show ?thesis by simp
qed

lemma clamp_parts: "length mid = 30 \<Longrightarrow>
    clamp_scalar_bytes (b0 # mid @ [b31]) = (b0 AND 248) # mid @ [(b31 AND 127) OR 64]"
  by (simp add: clamp_scalar_bytes_def Let_def nth_append list_update_append)

text \<open>Clamping a number below \<open>2 ^ 253\<close> drops its three low bits and adds \<open>2 ^ 254\<close>.\<close>

lemma from_le_clamp:
  assumes "length bs = 32" and "from_le bs < 2 ^ 253"
  shows "from_le (clamp_scalar_bytes bs) + from_le bs mod 8 = from_le bs + 2 ^ 254"
proof -
  obtain b0 mid b31 where bs: "bs = b0 # mid @ [b31]" "length mid = 30"
    using assms(1) by (rule bytes32_cases)
  let ?m = "256 * from_le mid"
  have val: "from_le bs = unat b0 + ?m + 256 ^ 31 * unat b31"
    by (simp add: bs from_le_Cons from_le_snoc)
  with assms(2) have "256 ^ 31 * unat b31 < 256 ^ 31 * 32" by simp
  then have top: "unat b31 < 32" by (simp only: mult_less_cancel1)
  have "from_le (clamp_scalar_bytes bs) = 8 * (unat b0 div 8) + ?m + 256 ^ 31 * (64 + unat b31)"
    by (simp add: bs clamp_parts from_le_Cons from_le_snoc unat_and_248 unat_clamp_top [OF top])
  moreover have "from_le bs mod 8 = unat b0 mod 8"
  proof -
    have "from_le bs = unat b0 + 8 * (32 * from_le mid + 32 * 256 ^ 30 * unat b31)"
      unfolding val by simp
    then show ?thesis by (simp only: mod_mult_self2)
  qed
  ultimately show ?thesis using val by (simp add: algebra_simps)
qed

lemma from_le_to_le [simp]: "from_le (to_le n x) = x mod 256 ^ n"
  by (simp add: from_le_def to_le_def)

lemma length_to_le [simp]: "length (to_le n x) = n"
  by (simp add: to_le_def)

lemma ell_bound: "ell < 2 ^ 253" and ell_pos: "0 < ell"
  by (simp_all add: ell_def)

lemma clamped_not_congruent:
  assumes "s < ell"
  shows "from_le (clamp_scalar_bytes (to_le 32 s)) mod ell \<noteq> s"
proof
  let ?N = "from_le (clamp_scalar_bytes (to_le 32 s))"
  assume eq: "?N mod ell = s"
  have s: "s < 2 ^ 253" using assms ell_bound by (rule less_trans)
  then have "s < 256 ^ 32" by (rule less_trans) simp
  then have "?N + s mod 8 = s + 2 ^ 254"
    using from_le_clamp [of "to_le 32 s"] s by simp
  moreover have "?N = ?N div ell * ell + s" using div_mult_mod_eq [of ?N ell] eq by simp
  ultimately have "2 ^ 254 = s mod 8 + ?N div ell * ell" by linarith
  then have "2 ^ 254 mod ell = s mod 8 mod ell" by (simp only: mod_mult_self1)
  moreover have "s mod 8 mod ell \<le> s mod 8" by (rule mod_less_eq_dividend)
  moreover have "s mod 8 < 8" by simp
  ultimately have "2 ^ 254 mod ell < 8" by linarith
  then show False by (simp add: ell_def)
qed

section \<open>The two rounds\<close>

lemma ecdh_flags [simp]:
  "SETUP_ECDH_OT \<noteq> SETUP_ECDH_SKIP" "SETUP_ECDH_OT \<noteq> SETUP_ECDH_LEAKY" "SETUP_ECDH_LEAKY \<noteq> SETUP_ECDH_SKIP"
  by (simp_all add: SETUP_ECDH_OT_def SETUP_ECDH_SKIP_def SETUP_ECDH_LEAKY_def)

lemma reference_ikm_Inr:
  assumes "curve_ok C" and "reference_ikm C s_h s_n epk = Inr ikm"
  obtains E where "to_edwards C epk = Some E" "length ikm = 32"
  using assms that by (auto simp: reference_ikm_def Let_def fault_simps curve_ok_def)

lemma partial_point: "to_edwards C epk = Some E \<Longrightarrow> compute_partial_point C s epk = Inr (smul C (share_scalar s) E)"
  by (simp add: compute_partial_point_def)

lemma ot_round:
  assumes ok: "curve_ok C" and ikm: "reference_ikm C (share_from_bytes r_h) s_n epk = Inr ikm"
    and len: "length r_h = 32" "length epk = 32"
  shows "delivers (notary_recv_ecdh_setup C s_n) (host_send_ecdh_ot C (share_from_bytes r_h) epk)
    (\<lambda>n h. \<exists>m. shares_of ikm h m \<and> n = Ot \<lparr>oo_host_share = h, oo_notary_share = m, oo_ikm = ikm\<rparr>)"
proof -
  obtain E where E: "to_edwards C epk = Some E" and l: "length ikm = 32"
    using reference_ikm_Inr [OF ok ikm] .
  have C: "length (pt_compress C p) = 32" "pt_decompress C (pt_compress C p) = Some p" for p
    using ok by (simp_all add: curve_ok_def)
  show ?thesis
    unfolding notary_recv_ecdh_setup_def host_send_ecdh_ot_def
    by (intro delivers_c_send)
      (simp_all add: len read_host_share_def notary_run_ot_blinded_def host_run_ot_blinded_def generate_share
        partial_point [OF E] ikm C l delivers_c_send delivers_n_send delivers_n_random delivers_Done
        shares_of_def bxor_commute bxor_cancel_left)
qed

lemma leaky_round:
  assumes ok: "curve_ok C" and ikm: "reference_ikm C (share_from_bytes r_h) s_n epk = Inr ikm"
    and len: "length r_h = 32" "length epk = 32"
  shows "delivers (notary_recv_ecdh_setup C s_n) (host_send_ecdh_leaky C (share_from_bytes r_h) s_n epk)
    (\<lambda>n h. n = Leaky h \<and> lo_ikm h = ikm \<and> shares_of ikm (lo_host_share h) (lo_notary_share h))"
proof -
  obtain E where E: "to_edwards C epk = Some E" and l: "length ikm = 32"
    using reference_ikm_Inr [OF ok ikm] .
  have C: "length (pt_compress C p) = 32" "pt_decompress C (pt_compress C p) = Some p" for p
    using ok by (simp_all add: curve_ok_def)
  show ?thesis
    unfolding notary_recv_ecdh_setup_def host_send_ecdh_leaky_def
    by (intro delivers_c_send)
      (simp_all add: len read_host_share_def notary_run_leaky_additive_def host_run_leaky_additive_def
        partial_point [OF E] ikm C l delivers_c_send delivers_n_send delivers_n_random delivers_Done
        shares_of_def bxor_commute bxor_cancel_left)
qed

text \<open>
  Both rounds are the same contract to what comes after them: from the flag on, the notary ends with
  its outcome and the host with its share, and the shares XOR to the secret.
\<close>

locale ikm_exchange =
  fixes host :: "'p curve \<Rightarrow> ephemeral_share \<Rightarrow> ephemeral_share \<Rightarrow> bytes \<Rightarrow> bytes proc"
    and outcome_of :: "bytes \<Rightarrow> bytes \<Rightarrow> bytes \<Rightarrow> ecdh_setup_outcome"
  assumes exchange: "curve_ok C \<Longrightarrow> reference_ikm C (share_from_bytes r_h) s_n epk = Inr ikm \<Longrightarrow>
      length r_h = 32 \<Longrightarrow> length epk = 32 \<Longrightarrow>
      delivers (notary_recv_ecdh_setup C s_n) (host C (share_from_bytes r_h) s_n epk)
        (\<lambda>n h. \<exists>m. shares_of ikm h m \<and> n = outcome_of h m ikm)"
begin

lemma exchange_serves:
  assumes "curve_ok C" and "reference_ikm C (share_from_bytes r_h) s_n epk = Inr ikm"
    and "length r_h = 32" and "length epk = 32"
    and "\<And>h m. shares_of ikm h m \<Longrightarrow> serves R (f (outcome_of h m ikm), g h, [], [])"
  shows "serves R (pbind (notary_recv_ecdh_setup C s_n) f, pbind (host C (share_from_bytes r_h) s_n epk) g, [], [])"
  using exchange [OF assms(1-4), unfolded delivers_def] by (rule serves_pbind) (auto intro: assms(5))

lemma exchange_safe:
  assumes "curve_ok C" and "reference_ikm C (share_from_bytes r_h) s_n epk = Inr ikm"
    and "length r_h = 32" and "length epk = 32"
  shows "safe (both_ok (\<lambda>n h. \<exists>m. shares_of ikm h m \<and> n = outcome_of h m ikm))
    (notary_recv_ecdh_setup C s_n, host C (share_from_bytes r_h) s_n epk, [], [])"
  using exchange [OF assms] by (rule delivers_safe)

end

definition ot_outcome :: "bytes \<Rightarrow> bytes \<Rightarrow> bytes \<Rightarrow> ecdh_setup_outcome" where
  "ot_outcome h m ikm = Ot \<lparr>oo_host_share = h, oo_notary_share = m, oo_ikm = ikm\<rparr>"

definition leaky_outcome_of :: "bytes \<Rightarrow> bytes \<Rightarrow> bytes \<Rightarrow> ecdh_setup_outcome" where
  "leaky_outcome_of h m ikm = Leaky \<lparr>lo_ikm = ikm, lo_host_share = h, lo_notary_share = m\<rparr>"

interpretation ot: ikm_exchange "\<lambda>C s_h s_n epk. host_send_ecdh_ot C s_h epk" ot_outcome
  by unfold_locales (simp add: ot_outcome_def ot_round)

interpretation leaky: ikm_exchange
  "\<lambda>C s_h s_n epk. pbind (host_send_ecdh_leaky C s_h s_n epk) (\<lambda>out. Done (lo_host_share out))" leaky_outcome_of
proof unfold_locales
  fix C :: "'p curve" and r_h s_n epk ikm
  assume "curve_ok C" "reference_ikm C (share_from_bytes r_h) s_n epk = Inr ikm" "length r_h = 32" "length epk = 32"
  note round = leaky_round [OF this]
  have fin: "delivers (Done n) (Done (lo_host_share h)) (\<lambda>n h. \<exists>m. shares_of ikm h m \<and> n = leaky_outcome_of h m ikm)"
    if "n = Leaky h \<and> lo_ikm h = ikm \<and> shares_of ikm (lo_host_share h) (lo_notary_share h)" for n h
    by (rule delivers_Done, rule exI [of _ "lo_notary_share h"]) (use that in \<open>simp add: leaky_outcome_of_def\<close>)
  show "delivers (notary_recv_ecdh_setup C s_n)
      (pbind (host_send_ecdh_leaky C (share_from_bytes r_h) s_n epk) (\<lambda>out. Done (lo_host_share out)))
      (\<lambda>n h. \<exists>m. shares_of ikm h m \<and> n = leaky_outcome_of h m ikm)"
    using delivers_pbind [OF round fin, of "\<lambda>n. n" "\<lambda>h. h"] by simp
qed

section \<open>Properties\<close>

text \<open>A curve for the instances: 256-bit numbers with addition and multiplication by a scalar.\<close>

definition word_curve :: "256 word curve" where
  "word_curve = \<lparr>to_edwards = (\<lambda>epk. if length epk = 32 then Some (word_of_nat (from_be epk)) else None),
     smul = (\<lambda>n p. word_of_nat n * p), padd = (+), pt_compress = (\<lambda>p. to_be 32 (unat p)),
     pt_decompress = (\<lambda>bs. Some (word_of_nat (from_be bs))), to_montgomery = (\<lambda>p. to_be 32 (unat p))\<rparr>"

lemma word_curve_ok: "curve_ok word_curve"
proof -
  have "unat p mod 256 ^ 32 = unat p" for p :: "256 word"
    using unsigned_less [where 'a = nat and w = p] by simp
  then show ?thesis by (simp add: curve_ok_def word_curve_def del: to_be.simps)
qed

text \<open>
  C18. The key exchange of either kind, on every schedule and for all random masks: notary and host end
  with XOR shares of the secret that the reference computation gives on the sum of the scalar shares,
  and the notary has the secret itself.
\<close>

theorem ecdh_rounds_share_ikm:
  assumes "curve_ok C" and "reference_ikm C (share_from_bytes r_h) s_n epk = Inr ikm"
    and "length r_h = 32" and "length epk = 32"
  shows "safe (both_ok (\<lambda>n h. \<exists>m. bxor h m = ikm \<and>
        n = Ot \<lparr>oo_host_share = h, oo_notary_share = m, oo_ikm = ikm\<rparr>))
      (notary_recv_ecdh_setup C s_n, host_send_ecdh_ot C (share_from_bytes r_h) epk, [], []) \<and>
    safe (both_ok (\<lambda>n h. n = Leaky h \<and> lo_ikm h = ikm \<and> bxor (lo_host_share h) (lo_notary_share h) = ikm))
      (notary_recv_ecdh_setup C s_n, host_send_ecdh_leaky C (share_from_bytes r_h) s_n epk, [], [])"
proof
  show "safe (both_ok (\<lambda>n h. \<exists>m. bxor h m = ikm \<and> n = Ot \<lparr>oo_host_share = h, oo_notary_share = m, oo_ikm = ikm\<rparr>))
      (notary_recv_ecdh_setup C s_n, host_send_ecdh_ot C (share_from_bytes r_h) epk, [], [])"
    by (rule delivers_safe, rule delivers_mono [OF ot_round [OF assms]]) (auto simp: shares_of_def)
  show "safe (both_ok (\<lambda>n h. n = Leaky h \<and> lo_ikm h = ikm \<and> bxor (lo_host_share h) (lo_notary_share h) = ikm))
      (notary_recv_ecdh_setup C s_n, host_send_ecdh_leaky C (share_from_bytes r_h) s_n epk, [], [])"
    by (rule delivers_safe, rule delivers_mono [OF leaky_round [OF assms]]) (auto simp: shares_of_def)
qed


theorem ecdh_rounds_share_ikm_witness:
  "\<exists>ikm. safe (both_ok (\<lambda>n h. \<exists>m. bxor h m = ikm \<and>
        n = Ot \<lparr>oo_host_share = h, oo_notary_share = m, oo_ikm = ikm\<rparr>))
      (notary_recv_ecdh_setup word_curve (share_from_bytes (replicate 32 7)),
       host_send_ecdh_ot word_curve (share_from_bytes (replicate 32 9)) (replicate 32 5), [], [])"
proof -
  obtain ikm where "reference_ikm word_curve (share_from_bytes (replicate 32 9)) (share_from_bytes (replicate 32 7))
      (replicate 32 5) = Inr ikm"
    by (simp add: reference_ikm_def word_curve_def)
  from ecdh_rounds_share_ikm [OF word_curve_ok this] show ?thesis by auto
qed

text \<open>
  The scalars of the partial points do not add up to the scalar of the secret: the combined point
  is the point of the sum of the shares for both parties, while the reference computation clamps the
  sum, which gives another scalar modulo the group order for all shares.
\<close>

theorem combined_point_is_another_scalar:
  assumes "to_edwards C epk = Some E"
    and "\<And>a b. padd C (smul C a E) (smul C b E) = smul C (a + b) E"
    and "s = share_scalar s_c + share_scalar s_n"
  shows "(\<forall>p_c p_n. compute_partial_point C s_c epk = Inr p_c \<longrightarrow> compute_partial_point C s_n epk = Inr p_n \<longrightarrow>
      client_finish_ecdh C s_c p_n epk = Inr (to_montgomery C (smul C s E)) \<and>
      notary_finish_ecdh C s_n p_c epk = Inr (to_montgomery C (smul C s E))) \<and>
    (\<exists>t. reference_ikm C s_c s_n epk = Inr (to_montgomery C (smul C t E)) \<and> t mod ell \<noteq> s mod ell)"
proof -
  have "s mod ell < ell" using ell_pos by simp
  from clamped_not_congruent [OF this]
  have "from_le (combined_client_esk s_c s_n) mod ell mod ell \<noteq> s mod ell"
    by (simp add: combined_client_esk_def assms(3))
  then show ?thesis
    using assms(1,2) by (auto simp: client_finish_ecdh_def notary_finish_ecdh_def combine_partial_points_def
        partial_point reference_ikm_def Let_def assms(3))
qed

theorem combined_point_is_another_scalar_example:
  "\<exists>t E. reference_ikm word_curve (share_from_bytes (replicate 32 9)) (share_from_bytes (replicate 32 7)) (replicate 32 5) =
      Inr (to_montgomery word_curve (smul word_curve t E)) \<and>
    t mod ell \<noteq> (share_scalar (share_from_bytes (replicate 32 9)) + share_scalar (share_from_bytes (replicate 32 7))) mod ell"
  using combined_point_is_another_scalar [where C = word_curve and epk = "replicate 32 5"
      and s_c = "share_from_bytes (replicate 32 9)" and s_n = "share_from_bytes (replicate 32 7)"]
  by (simp add: word_curve_def algebra_simps) blast

text \<open>
  A host that sends bytes which are no point stops the notary: after the flag and the host's share
  both parties panic at \<open>expect("valid server epk")\<close>, so neither gets an outcome.
\<close>

theorem ecdh_bad_server_key:
  assumes "to_edwards C epk = None" and "length epk = 32" and "length r_h = 32"
  shows "safe (\<lambda>x y. x = Inl ''valid server epk'' \<and> y = Inl ''valid server epk'')
    (notary_recv_ecdh_setup C s_n, host_send_ecdh_ot C (share_from_bytes r_h) epk, [], [])"
proof -
  have "serves (\<lambda>x y. x = Inl ''valid server epk'' \<and> y = Inl ''valid server epk'')
    (notary_recv_ecdh_setup C s_n, host_send_ecdh_ot C (share_from_bytes r_h) epk, [], [])"
    unfolding notary_recv_ecdh_setup_def host_send_ecdh_ot_def
    by (intro serves.c_send serves.n_recv)
      (simp_all add: assms read_host_share_def notary_run_ot_blinded_def host_run_ot_blinded_def
        generate_share compute_partial_point_def expect_def serves.n_recv serves.n_random serves.final)
  then show ?thesis by (rule serves_safe)
qed

theorem ecdh_bad_server_key_example:
  "safe (\<lambda>x y. x = Inl ''valid server epk'' \<and> y = Inl ''valid server epk'')
    (notary_recv_ecdh_setup (word_curve\<lparr>to_edwards := (\<lambda>_. None)\<rparr>) (share_from_bytes (zeros 32)),
     host_send_ecdh_ot (word_curve\<lparr>to_edwards := (\<lambda>_. None)\<rparr>) (share_from_bytes (zeros 32)) (zeros 32), [], [])"
  by (rule ecdh_bad_server_key) simp_all

end
