(* ===== verification/Proxy.thy ===== *)
theory Proxy
  imports Notary_Tls Ecdh
begin

text \<open>
  The notary's proxy (\<open>notary/src/bin/notary_proxy.rs\<close>) and the demo client in front of it
  (\<open>notary/src/bin/notary_demo.rs\<close>): the setup frame in its three modes, the hand-over to the attested
  worker, the client's key splitting, its request and response records, and the witness it writes.

  What the demo takes from \<open>rustls\<close> and from the sockets are the fields of \<open>demo_env\<close>: the handshake
  with the traffic keys it extracts and the bytes captured, and the server's answer to the request
  record. Log output, the command line and the retries of the post-handshake reads are left out.

  The lemmas follow the setup in each mode. They show how the traffic keys are split, and that no mode
  gets past the first records of the session.
\<close>

section \<open>The handshake capture on the channel\<close>

definition send_handshake_capture :: "handshake_capture \<Rightarrow> unit proc" where
  "send_handshake_capture cap =
     (case write_handshake_capture cap of Inl e \<Rightarrow> Error e | Inr bs \<Rightarrow> Send bs (Done ()))"

definition recv_handshake_capture :: "handshake_capture proc" where
  "recv_handshake_capture =
     Recv 32 (\<lambda>epk. Recv 32 (\<lambda>cert_hash. Recv 4 (\<lambda>out_len_buf.
     if from_be out_len_buf > MAX_HANDSHAKE_BYTES then Error ''outbound handshake length exceeds limit''
     else Recv (from_be out_len_buf) (\<lambda>outbound. Recv 4 (\<lambda>in_len_buf.
     if from_be in_len_buf > MAX_HANDSHAKE_BYTES then Error ''inbound handshake length exceeds limit''
     else Recv (from_be in_len_buf) (\<lambda>inbound.
     Done \<lparr>cap_server_epk = epk, cap_cert_chain_hash = cert_hash, cap_outbound = outbound, cap_inbound = inbound\<rparr>))))))"

section \<open>The proxy\<close>

definition SETUP_LEGACY_HOST_MASKS :: byte where "SETUP_LEGACY_HOST_MASKS = 0"
definition SETUP_NOTARY_CHOOSES_XOR_MASKS :: byte where "SETUP_NOTARY_CHOOSES_XOR_MASKS = 1"
definition SETUP_2PC_TRAFFIC_KEYS :: byte where "SETUP_2PC_TRAFFIC_KEYS = 2"

datatype setup_keys =
    Pre_Split worker_keys
  | Two_Pc_Pending two_pc_traffic_setup

definition notary_ecdh_after_setup_ivs :: "'p curve \<Rightarrow> ephemeral_share \<Rightarrow> ecdh_setup_outcome proc" where
  "notary_ecdh_after_setup_ivs C notary_share = notary_recv_ecdh_setup C notary_share"

definition lift_result :: "string + 'a \<Rightarrow> 'a proc" where
  "lift_result r = (case r of Inl e \<Rightarrow> Error e | Inr a \<Rightarrow> Done a)"

definition read_setup_frame :: "'p curve \<Rightarrow> tls_env \<Rightarrow> setup_keys proc" where
  "read_setup_frame C T =
     Recv 1 (\<lambda>mode.
     if mode ! 0 = SETUP_LEGACY_HOST_MASKS then
       Recv 56 (\<lambda>frame.
       Done (Pre_Split \<lparr>wk_n_tx = take 16 frame, wiv_tx = take 12 (drop 16 frame),
                        wk_n_rx = take 16 (drop 28 frame), wiv_rx = take 12 (drop 44 frame)\<rparr>))
     else if mode ! 0 = SETUP_NOTARY_CHOOSES_XOR_MASKS then
       Random 16 (\<lambda>kn_tx. Random 16 (\<lambda>kn_rx.
       pbind generate_share (\<lambda>ecdh_share.
       Send (kn_tx @ kn_rx) (Send (share_to_bytes ecdh_share)
       (Recv 12 (\<lambda>tx_iv. Recv 12 (\<lambda>rx_iv.
       pbind (notary_ecdh_after_setup_ivs C ecdh_share) (\<lambda>_.
       Done (Pre_Split \<lparr>wk_n_tx = kn_tx, wiv_tx = tx_iv, wk_n_rx = kn_rx, wiv_rx = rx_iv\<rparr>)))))))))
     else if mode ! 0 = SETUP_2PC_TRAFFIC_KEYS then
       pbind generate_share (\<lambda>ecdh_share.
       Send (share_to_bytes ecdh_share)
       (pbind recv_handshake_capture (\<lambda>cap.
       pbind (notary_ecdh_after_setup_ivs C ecdh_share) (\<lambda>outcome.
       pbind (case outcome of
                Skipped \<Rightarrow> Error ''2PC traffic setup requires ECDH''
              | Leaky out \<Rightarrow> Done (lo_notary_share out, lo_ikm out)
              | Ot out \<Rightarrow> Done (oo_notary_share out, oo_ikm out)) (\<lambda>(ikm_n, ikm_full).
       pbind (lift_result (verify_handshake_capture T cap ikm_full)) (\<lambda>verified.
       Done (Two_Pc_Pending \<lparr>tp_ikm_n = ikm_n, tp_after_sh = vh_after_sh verified, tp_after_sf = vh_after_sf verified,
                             tp_ikm_full = ikm_full, tp_binding = vh_binding verified\<rparr>)))))))
     else Error ''unknown setup mode'')"

text \<open>The bundle, or \<open>None\<close> when the client disconnects, is what \<open>handle\<close> logs.\<close>

definition handle :: "nat \<Rightarrow> 'p curve \<Rightarrow> tls_env \<Rightarrow> worker_env \<Rightarrow> bytes \<Rightarrow> notary_bundle option proc" where
  "handle frames C T W signing_key =
     pbind (read_setup_frame C T) (\<lambda>keys.
     case keys of
       Pre_Split K \<Rightarrow> run_notary_worker_attested frames W signing_key K (production_session_binding T)
     | Two_Pc_Pending setup \<Rightarrow> run_notary_worker_attested_2pc frames W signing_key setup)"

section \<open>TLS records of the demo client\<close>

definition xor_key :: "bytes \<Rightarrow> bytes \<Rightarrow> bytes" where
  "xor_key a b = bxor a b"

definition build_tls_record :: "byte \<Rightarrow> u16 \<Rightarrow> bytes \<Rightarrow> bytes" where
  "build_tls_record ct ver pl = ct # to_be 2 (unat ver) @ to_be 2 (length pl) @ pl"

text \<open>The content type, version and payload of the next record, its raw bytes, and the rest of the stream.\<close>

definition read_tls_record :: "bytes \<Rightarrow> string + (byte \<times> u16 \<times> bytes \<times> bytes) \<times> bytes" where
  "read_tls_record s =
     sbind (read_bytes 5 s) (\<lambda>(hdr, s).
     let ct = hdr ! 0;
         ver = word_of_nat (from_be [hdr ! 1, hdr ! 2]);
         len = from_be [hdr ! 3, hdr ! 4]
     in if len > 16640 then Inl ''oversized TLS record''
        else sbind (read_bytes len s) (\<lambda>(pl, s). Inr ((ct, ver, pl, hdr @ pl), s)))"

lemma read_tls_record_shorter: "read_tls_record s = Inr (r, rest) \<Longrightarrow> length rest < length s"
  by (auto simp: read_tls_record_def read_bytes_def Let_def split: if_splits)

text \<open>\<open>while buf.last() == Some(&0)\<close>, then \<open>pop\<close>: the content and its type.\<close>

definition pop_zeros :: "bytes \<Rightarrow> bytes" where
  "pop_zeros buf = rev (dropWhile (\<lambda>b. b = 0) (rev buf))"

definition inner_plaintext :: "bytes \<Rightarrow> (bytes \<times> byte) option" where
  "inner_plaintext bs =
     (let buf = pop_zeros bs in if buf = [] then None else Some (butlast buf, last buf))"

section \<open>The demo client\<close>

record demo_traffic =
  dt_tx_key :: bytes
  dt_tx_iv :: bytes
  dt_rx_key :: bytes
  dt_rx_iv :: bytes
  dt_tx_seq :: u64
  dt_rx_seq :: u64

record demo_handshake =
  dh_inbound :: bytes
  dh_outbound :: bytes
  dh_certs :: "bytes list option"
  dh_traffic :: demo_traffic

text \<open>
  The handshake depends on the ephemeral scalar the client injects (\<open>None\<close>: the provider's own); the
  answer is the bytes the server sends once it has the request record.
\<close>

record demo_env =
  de_handshake :: "bytes option \<Rightarrow> string + demo_handshake"
  de_server :: "bytes \<Rightarrow> bytes"
  de_query_path :: string
  de_host :: string
  de_session_id :: bytes

record demo_args =
  skip_ecdh_wire :: bool
  leaky_ecdh_wire :: bool

text \<open>The response loop; a failed read and a record of another type end it, and in modes 0 and 1 an alert does.\<close>

function demo_response :: "worker_env \<Rightarrow> bool \<Rightarrow> bytes \<Rightarrow> bytes \<Rightarrow> u64 \<Rightarrow> bytes \<Rightarrow> bytes \<Rightarrow> (bytes \<times> bytes) proc" where
  "demo_response W alerts kc_rx stream rx_seq full raw_in =
     (case read_tls_record stream of
        Inl e \<Rightarrow> Done (full, raw_in)
      | Inr ((ct_kind, ver, pl, raw), rest) \<Rightarrow>
        if ct_kind \<noteq> 0x17 then Done (full, raw_in @ raw)
        else if length pl < 16 then Error ''short record''
        else
          let tag_start = length pl - 16
          in pbind (decrypt_one W kc_rx (take tag_start pl) (drop tag_start pl) (tls13_aad (length pl)) rx_seq) (\<lambda>plain.
             case inner_plaintext plain of
               None \<Rightarrow> Error ''empty decrypted record''
             | Some (buf, inner_ct) \<Rightarrow>
               if alerts \<and> inner_ct = 0x15 then Done (full, raw_in @ raw)
               else demo_response W alerts kc_rx rest (rx_seq + 1) (if inner_ct = 0x17 then full @ buf else full) (raw_in @ raw)))"
  by pat_completeness auto
termination
  by (relation "measure (\<lambda>(W, alerts, kc_rx, stream, rx_seq, full, raw_in). length stream)")
    (auto dest: read_tls_record_shorter)

declare demo_response.simps [simp del]

record demo_result =
  dr_full :: bytes
  dr_bundle :: notary_bundle
  dr_inbound :: bytes
  dr_outbound :: bytes
  dr_kc_tx :: bytes
  dr_kc_rx :: bytes

definition http_request :: "string \<Rightarrow> string \<Rightarrow> bytes" where
  "http_request query_path host =
     ascii_bytes (''GET '' @ query_path @ '' HTTP/1.1'') @ [13, 10] @ ascii_bytes (''Host: '' @ host) @ [13, 10] @
     ascii_bytes ''Connection: close'' @ [13, 10] @ ascii_bytes ''Accept: */*'' @ [13, 10, 13, 10]"

text \<open>From the request to the bundle.\<close>

definition demo_session ::
  "worker_env \<Rightarrow> demo_env \<Rightarrow> bool \<Rightarrow> bytes \<Rightarrow> bytes \<Rightarrow> u64 \<Rightarrow> u64 \<Rightarrow> demo_handshake \<Rightarrow> demo_result proc" where
  "demo_session W D alerts kc_tx kc_rx tx_seq rx_seq hs =
     (let inner = http_request (de_query_path D) (de_host D) @ [0x17]
      in pbind (encrypt_one W kc_tx inner (tls13_aad (length inner + 16)) tx_seq) (\<lambda>(ct, tag).
         let req_raw = build_tls_record 0x17 0x0303 (ct @ tag)
         in pbind (demo_response W alerts kc_rx (de_server D req_raw) rx_seq [] (dh_inbound hs)) (\<lambda>(full, raw_in).
            pbind (client_finish_session W (de_session_id D) (ascii_bytes (de_host D))) (\<lambda>bundle.
            Done \<lparr>dr_full = full, dr_bundle = bundle, dr_inbound = raw_in, dr_outbound = dh_outbound hs @ req_raw,
                  dr_kc_tx = kc_tx, dr_kc_rx = kc_rx\<rparr>))))"


text \<open>The setup in mode 0: the keys are split before the masks are drawn.\<close>

definition demo_legacy_setup :: "demo_env \<Rightarrow> (demo_handshake \<times> bytes \<times> bytes) proc" where
  "demo_legacy_setup D =
     (let kn_tx = zeros 16;
          kn_rx = zeros 16
      in pbind (lift_result (de_handshake D None)) (\<lambda>hs.
         let kc_tx = xor_key (dt_tx_key (dh_traffic hs)) kn_tx;
             kc_rx = xor_key (dt_rx_key (dh_traffic hs)) kn_rx
         in Random 16 (\<lambda>kn_tx. Random 16 (\<lambda>kn_rx.
            Send [SETUP_LEGACY_HOST_MASKS]
            (Send (kn_tx @ dt_tx_iv (dh_traffic hs) @ kn_rx @ dt_rx_iv (dh_traffic hs))
            (Done (hs, kc_tx, kc_rx)))))))"

text \<open>The setup in mode 1.\<close>

definition demo_mode_1_setup :: "'p curve \<Rightarrow> demo_env \<Rightarrow> demo_args \<Rightarrow> (demo_handshake \<times> bytes \<times> bytes) proc" where
  "demo_mode_1_setup C D args =
     Send [SETUP_NOTARY_CHOOSES_XOR_MASKS]
     (Recv 32 (\<lambda>kn. Recv 32 (\<lambda>notary_scalar.
     let kn_tx = take 16 kn;
         kn_rx = take 16 (drop 16 kn);
         notary_share = share_from_bytes notary_scalar
     in pbind generate_share (\<lambda>host_share.
        pbind (lift_result (de_handshake D (Some (combined_client_esk host_share notary_share)))) (\<lambda>hs.
        let kc_tx = xor_key (dt_tx_key (dh_traffic hs)) kn_tx;
            kc_rx = xor_key (dt_rx_key (dh_traffic hs)) kn_rx
        in Send (dt_tx_iv (dh_traffic hs)) (Send (dt_rx_iv (dh_traffic hs))
           (pbind (if skip_ecdh_wire args then host_skip_ecdh_leaky
                   else case notary_parse_server_hello_key_share (dh_inbound hs) of
                          None \<Rightarrow> host_skip_ecdh_leaky
                        | Some epk \<Rightarrow>
                          if leaky_ecdh_wire args
                          then pbind (host_send_ecdh_leaky C host_share notary_share epk) (\<lambda>_. Done ())
                          else pbind (host_send_ecdh_ot C host_share epk) (\<lambda>_. Done ())) (\<lambda>_.
            Done (hs, kc_tx, kc_rx)))))))))"

definition run_legacy_demo :: "bool \<Rightarrow> 'p curve \<Rightarrow> worker_env \<Rightarrow> demo_env \<Rightarrow> demo_args \<Rightarrow> demo_result proc" where
  "run_legacy_demo legacy_host_xor_masks C W D args =
     pbind (if legacy_host_xor_masks then demo_legacy_setup D else demo_mode_1_setup C D args) (\<lambda>(hs, kc_tx, kc_rx).
     demo_session W D True kc_tx kc_rx (dt_tx_seq (dh_traffic hs)) (dt_rx_seq (dh_traffic hs)) hs)"

text \<open>Mode 2.\<close>

definition run_two_pc_traffic_demo :: "'p curve \<Rightarrow> tls_env \<Rightarrow> worker_env \<Rightarrow> demo_env \<Rightarrow> demo_result proc" where
  "run_two_pc_traffic_demo C T W D =
     Send [SETUP_2PC_TRAFFIC_KEYS]
     (Recv 32 (\<lambda>notary_scalar.
     let notary_share = share_from_bytes notary_scalar
     in pbind generate_share (\<lambda>host_share.
        pbind (lift_result (de_handshake D (Some (combined_client_esk host_share notary_share)))) (\<lambda>hs.
        case notary_parse_server_hello_key_share (dh_inbound hs) of None \<Rightarrow> Error ''no server epk'' | Some epk \<Rightarrow>
        let cert_hash = (case dh_certs hs of None \<Rightarrow> zeros 32 | Some certs \<Rightarrow> cert_chain_hash_of (hash T) certs)
        in pbind (local_result (reference_ikm C host_share notary_share epk)) (\<lambda>ikm_oracle.
           case transcript_hashes_with_ikm T (dh_outbound hs) (dh_inbound hs) ikm_oracle of
             None \<Rightarrow> Error ''transcript hashes''
           | Some (after_sh, after_sf) \<Rightarrow>
             pbind (send_handshake_capture \<lparr>cap_server_epk = epk, cap_cert_chain_hash = cert_hash,
                      cap_outbound = dh_outbound hs, cap_inbound = dh_inbound hs\<rparr>) (\<lambda>_.
             pbind (host_send_ecdh_ot C host_share epk) (\<lambda>host_ikm_share.
             pbind (client_tls13_client_traffic_from_ikm_shares (we_hash W) host_ikm_share after_sh after_sf) (\<lambda>traffic.
             demo_session W D False (share_k_tx traffic) (share_k_rx traffic) 0 0 hs))))))))"

text \<open>The witness the demo writes for the guest.\<close>

definition demo_witness :: "demo_env \<Rightarrow> bytes \<Rightarrow> f64 \<Rightarrow> demo_result \<Rightarrow> tls_witness" where
  "demo_witness D field thr result =
     \<lparr>esk_client = zeros 32, raw_inbound = dr_inbound result, raw_outbound = dr_outbound result,
      hostname = ascii_bytes (de_host D), json_field = field, threshold = thr,
      notary = Some \<lparr>att_bundle = dr_bundle result, k_c_tx = dr_kc_tx result, k_c_rx = dr_kc_rx result\<rparr>\<rparr>"

section \<open>The handshake capture\<close>

lemma capture_run:
  assumes "capture_wf cap" and "length (cap_outbound cap) \<le> MAX_HANDSHAKE_BYTES" and "length (cap_inbound cap) \<le> MAX_HANDSHAKE_BYTES"
  shows "delivers recv_handshake_capture (send_handshake_capture cap) (\<lambda>x _. x = cap)"
proof -
  have small: "length (cap_outbound cap) mod 4294967296 = length (cap_outbound cap)"
    "length (cap_inbound cap) mod 4294967296 = length (cap_inbound cap)"
    using assms(1) by (simp_all add: capture_wf_def)
  show ?thesis
    unfolding delivers_def recv_handshake_capture_def send_handshake_capture_def write_handshake_capture_def
    using assms small
    by (auto intro!: serves.c_send serves.n_recv serves_Done simp: capture_wf_def both_ok_def simp del: to_be.simps)
qed

lemma setup_modes [simp]:
  "SETUP_NOTARY_CHOOSES_XOR_MASKS \<noteq> SETUP_LEGACY_HOST_MASKS" "SETUP_2PC_TRAFFIC_KEYS \<noteq> SETUP_LEGACY_HOST_MASKS"
  "SETUP_2PC_TRAFFIC_KEYS \<noteq> SETUP_NOTARY_CHOOSES_XOR_MASKS"
  by (simp_all add: SETUP_LEGACY_HOST_MASKS_def SETUP_NOTARY_CHOOSES_XOR_MASKS_def SETUP_2PC_TRAFFIC_KEYS_def)

section \<open>The setup in modes 0 and 1\<close>

definition traffic_wf :: "demo_traffic \<Rightarrow> bool" where
  "traffic_wf t \<longleftrightarrow> length (dt_tx_key t) = 16 \<and> length (dt_rx_key t) = 16 \<and> length (dt_tx_iv t) = 12 \<and> length (dt_rx_iv t) = 12"

text \<open>A handshake that succeeds for every ephemeral scalar, with a server key that is a point.\<close>

definition handshakes_ok :: "'p curve \<Rightarrow> demo_env \<Rightarrow> bool" where
  "handshakes_ok C D \<longleftrightarrow> (\<forall>esk. \<exists>hs. de_handshake D esk = Inr hs \<and> traffic_wf (dh_traffic hs) \<and>
     (\<forall>epk. notary_parse_server_hello_key_share (dh_inbound hs) = Some epk \<longrightarrow> length epk = 32 \<and> to_edwards C epk \<noteq> None))"

text \<open>The notary's keys have the IVs and, with the host's shares, the keys of the traffic.\<close>

definition keys_split :: "setup_keys \<Rightarrow> demo_handshake \<times> bytes \<times> bytes \<Rightarrow> bool" where
  "keys_split keys h \<longleftrightarrow>
     (case (keys, h) of
        (Pre_Split K, hs, kc_tx, kc_rx) \<Rightarrow> let t = dh_traffic hs in
          traffic_wf t \<and> wiv_tx K = dt_tx_iv t \<and> wiv_rx K = dt_rx_iv t \<and>
          shares_of (dt_tx_key t) (wk_n_tx K) kc_tx \<and> shares_of (dt_rx_key t) (wk_n_rx K) kc_rx
      | _ \<Rightarrow> False)"

lemma reference_ikm_total: "to_edwards C epk = Some E \<Longrightarrow> \<exists>ikm. reference_ikm C s_h s_n epk = Inr ikm"
  by (simp add: reference_ikm_def Let_def)

lemma skip_run: "delivers (notary_recv_ecdh_setup C s) host_skip_ecdh_leaky (\<lambda>_ _. True)"
  unfolding notary_recv_ecdh_setup_def host_skip_ecdh_leaky_def
  by (simp add: delivers_c_send delivers_Done)

lemma ecdh_run:
  assumes "curve_ok C" and "length r_h = 32"
    and "\<And>epk. parsed = Some epk \<Longrightarrow> length epk = 32 \<and> to_edwards C epk \<noteq> None"
  shows "delivers (notary_ecdh_after_setup_ivs C s_n)
    (if skip then host_skip_ecdh_leaky
     else case parsed of
            None \<Rightarrow> host_skip_ecdh_leaky
          | Some epk \<Rightarrow>
            if leaky then pbind (host_send_ecdh_leaky C (share_from_bytes r_h) s_n epk) (\<lambda>_. Done ())
            else pbind (host_send_ecdh_ot C (share_from_bytes r_h) epk) (\<lambda>_. Done ())) (\<lambda>_ _. True)"
proof (cases parsed)
  case None
  then show ?thesis using skip_run by (simp add: notary_ecdh_after_setup_ivs_def)
next
  case (Some epk)
  with assms(3) obtain E where epk: "length epk = 32" "to_edwards C epk = Some E" by auto
  then obtain ikm where ikm: "reference_ikm C (share_from_bytes r_h) s_n epk = Inr ikm"
    using reference_ikm_total [OF epk(2)] by blast
  have fin: "delivers (Done n) (Done ()) (\<lambda>_ _. True)" for n :: ecdh_setup_outcome
    by (rule delivers_Done) simp
  show ?thesis
    using skip_run [of C s_n] delivers_pbind [OF ot_round [OF assms(1) ikm assms(2) epk(1)] fin, of "\<lambda>n. n"]
      delivers_pbind [OF leaky_round [OF assms(1) ikm assms(2) epk(1)] fin, of "\<lambda>n. n"]
    by (simp add: notary_ecdh_after_setup_ivs_def Some)
qed

lemma mode_1_setup_run:
  assumes "curve_ok C" and "handshakes_ok C D"
  shows "delivers (read_setup_frame C T) (demo_mode_1_setup C D args) keys_split"
proof -
  have ecdh: "delivers (pbind (notary_ecdh_after_setup_ivs C s_n) (\<lambda>_. Done (Pre_Split K)))
      (pbind (if skip_ecdh_wire args then host_skip_ecdh_leaky
              else case notary_parse_server_hello_key_share (dh_inbound hs) of
                     None \<Rightarrow> host_skip_ecdh_leaky
                   | Some epk \<Rightarrow>
                     if leaky_ecdh_wire args
                     then pbind (host_send_ecdh_leaky C (share_from_bytes r) s_n epk) (\<lambda>_. Done ())
                     else pbind (host_send_ecdh_ot C (share_from_bytes r) epk) (\<lambda>_. Done ())) (\<lambda>_.
       Done (hs, kc_tx, kc_rx))) keys_split"
    if "de_handshake D esk = Inr hs" "length r = 32" "keys_split (Pre_Split K) (hs, kc_tx, kc_rx)" for s_n K hs kc_tx kc_rx r esk
    using assms(2) that unfolding handshakes_ok_def
    by (intro delivers_pbind [OF ecdh_run [OF assms(1)]] delivers_Done) (auto dest: spec [of _ esk])
  show ?thesis
    unfolding read_setup_frame_def demo_mode_1_setup_def Let_def generate_share
  proof (rule delivers_c_send, simp, simp, intro delivers_n_random delivers_n_send delivers_c_random, goal_cases)
    case (3 kn_tx kn_rx r_n r_h)
    obtain hs where hs: "de_handshake D (Some (combined_client_esk (share_from_bytes r_h) (share_from_bytes r_n))) = Inr hs"
      and wf: "traffic_wf (dh_traffic hs)"
      using assms(2) unfolding handshakes_ok_def by blast
    let ?t = "dh_traffic hs"
    have "keys_split (Pre_Split \<lparr>wk_n_tx = kn_tx, wiv_tx = dt_tx_iv ?t, wk_n_rx = kn_rx, wiv_rx = dt_rx_iv ?t\<rparr>)
        (hs, xor_key (dt_tx_key ?t) kn_tx, xor_key (dt_rx_key ?t) kn_rx)"
      using 3 wf by (simp add: keys_split_def traffic_wf_def Let_def xor_key_def shares_ofI)
    from ecdh [OF hs 3(4) this, of "share_from_bytes r_n"] show ?case
      unfolding share_from_to_bytes [OF 3(3)] using 3 wf by (simp add: hs lift_result_def traffic_wf_def delivers_c_send split del: if_split)
  qed simp_all
qed

lemma legacy_setup_run:
  assumes "handshakes_ok C D"
  shows "delivers (read_setup_frame C T) (demo_legacy_setup D)
    (\<lambda>keys (hs, kc_tx, kc_rx). \<exists>K. keys = Pre_Split K \<and> length (wk_n_tx K) = 16 \<and> length (wk_n_rx K) = 16 \<and>
       wiv_tx K = dt_tx_iv (dh_traffic hs) \<and> wiv_rx K = dt_rx_iv (dh_traffic hs) \<and> traffic_wf (dh_traffic hs) \<and>
       kc_tx = dt_tx_key (dh_traffic hs) \<and> kc_rx = dt_rx_key (dh_traffic hs))"
proof -
  obtain hs where hs: "de_handshake D None = Inr hs" and wf: "traffic_wf (dh_traffic hs)"
    using assms unfolding handshakes_ok_def by blast
  note len = wf [unfolded traffic_wf_def]
  show ?thesis
    unfolding read_setup_frame_def demo_legacy_setup_def Let_def
    by (simp add: hs lift_result_def, intro delivers_c_random delivers_c_send delivers_Done)
      (use len in \<open>simp_all add: xor_key_def wf, intro delivers_c_send delivers_Done, simp_all add: wf\<close>)
qed

section \<open>The session\<close>

lemma encrypt_one_gets_stuck:
  assumes ok: "worker_env_ok W" "keys_wf K kc_tx kc_rx" and pt: "pt \<noteq> []" "length pt < 2 ^ 32" and aad: "length aad < 65536"
  shows "gets_stuck (run_notary_worker_inner (Suc n) W sk K bind recs, pbind (encrypt_one W kc_tx pt aad seq) g, [], [])"
proof -
  have len: "unat (word_of_nat (length pt) :: u32) = length pt"
    using pt(2) by (simp add: unsigned_of_nat take_bit_nat_eq_self)
  show ?thesis
    unfolding run_notary_worker_inner.simps encrypt_one_def pbind_assoc
    by (rule gets_stuck_bind [OF header_run])
      (use aad ok pt in \<open>auto intro!: encrypt_gets_stuck simp: len worker_env_ok_def keys_wf_def\<close>)
qed

lemma length_http_request: "length (http_request q h) = length q + length h + 57"
  by (simp add: http_request_def ascii_bytes_def)

lemma length_tls13_aad [simp]: "length (tls13_aad n) = 5"
  by (simp add: tls13_aad_def)

lemma demo_session_gets_stuck:
  assumes "worker_env_ok W" and "keys_wf K kc_tx kc_rx" and "length (de_query_path D) + length (de_host D) < 2 ^ 31" and "0 < frames"
  shows "gets_stuck (run_notary_worker_attested frames W sk K bind, demo_session W D alerts kc_tx kc_rx tx_seq rx_seq hs, [], [])"
proof -
  obtain n where n: "frames = Suc n" using assms(4) by (cases frames) auto
  show ?thesis
    unfolding run_notary_worker_attested_def demo_session_def Let_def n
    by (rule encrypt_one_gets_stuck [OF assms(1,2)]) (use assms(3) in \<open>simp_all add: length_http_request\<close>)
qed

lemma keys_split_Pre:
  assumes "keys_split keys (hs, kc_tx, kc_rx)"
  obtains K where "keys = Pre_Split K" "keys_wf K kc_tx kc_rx"
  using assms by (cases keys) (auto simp: keys_split_def keys_wf_def traffic_wf_def shares_of_def Let_def)

lemma mode_1_gets_stuck:
  assumes "curve_ok C" and "worker_env_ok W" and "handshakes_ok C D"
    and "length (de_query_path D) + length (de_host D) < 2 ^ 31" and "0 < frames"
  shows "gets_stuck (handle frames C T W sk, run_legacy_demo False C W D args, [], [])"
  unfolding handle_def run_legacy_demo_def if_False
  by (rule gets_stuck_bind [OF mode_1_setup_run [OF assms(1,3)]])
    (auto elim!: keys_split_Pre intro!: demo_session_gets_stuck [OF assms(2) _ assms(4,5)])

lemma legacy_gets_stuck:
  assumes "worker_env_ok W" and "handshakes_ok C D"
    and "length (de_query_path D) + length (de_host D) < 2 ^ 31" and "0 < frames"
  shows "gets_stuck (handle frames C T W sk, run_legacy_demo True C W D args, [], [])"
  unfolding handle_def run_legacy_demo_def if_True
  by (rule gets_stuck_bind [OF legacy_setup_run [OF assms(2)]])
    (auto intro!: demo_session_gets_stuck [OF assms(1) _ assms(3,4)] simp: keys_wf_def traffic_wf_def)

lemma schedule_evaluates:
  "\<exists>d ys g. pbind (client_tls13_client_traffic_from_ikm_shares H ikm sh sf) f = Evaluate d ys g"
  by (simp add: client_tls13_client_traffic_from_ikm_shares_def client_hkdf_extract_xor_ikm_def client_hmac_sha256_xor_msg_def
      client_sha256_compress_xor_def compress_xor_client_wrk17_def wrk17_client_masked_run_def Let_def)

text \<open>In mode 2 the notary waits for the header of the key schedule, which the client does not send.\<close>

lemma recv_capture_waits: "stuck (pbind recv_handshake_capture f, Error e, [], [])"
  by (simp add: recv_handshake_capture_def stuck_recv_error)

lemma unannounced_schedule_stuck:
  "gets_stuck (pbind (pbind (lift_result r) (\<lambda>verified. Done (Two_Pc_Pending (s verified))))
      (case_setup_keys f (run_notary_worker_attested_2pc frames W sk)),
    pbind (client_tls13_client_traffic_from_ikm_shares H ikm sh sf) g, [], [])"
proof -
  obtain d ys q where "pbind (client_tls13_client_traffic_from_ikm_shares H ikm sh sf) g = Evaluate d ys q"
    using schedule_evaluates by blast
  then show ?thesis
    by (cases r) (simp_all add: lift_result_def run_notary_worker_attested_2pc_def read_header_def gets_stuck_now
        stuck_error_evaluate stuck_recv_evaluate)
qed

text \<open>The part after the scalar share, as both programs have it.\<close>

lemma mode_2_after_share:
  assumes "curve_ok C" and epk_ok: "\<And>epk. parsed = Some epk \<Longrightarrow> length epk = 32 \<and> to_edwards C epk \<noteq> None"
    and r: "length r_h = 32" and cert: "length cert_hash = 32" and small: "length out \<le> MAX_HANDSHAKE_BYTES" "length inb \<le> MAX_HANDSHAKE_BYTES"
    and rest: "\<And>cap ikm h m sh sf. gets_stuck (f cap (Ot \<lparr>oo_host_share = h, oo_notary_share = m, oo_ikm = ikm\<rparr>), g h sh sf, [], [])"
  shows "gets_stuck (pbind recv_handshake_capture (\<lambda>cap. pbind (notary_ecdh_after_setup_ivs C s_n) (f cap)),
    case parsed of None \<Rightarrow> Error ''no server epk''
    | Some epk \<Rightarrow> pbind (local_result (reference_ikm C (share_from_bytes r_h) s_n epk)) (\<lambda>ikm_oracle.
      case transcript_hashes_with_ikm T out inb ikm_oracle of None \<Rightarrow> Error ''transcript hashes''
      | Some (after_sh, after_sf) \<Rightarrow>
        pbind (send_handshake_capture \<lparr>cap_server_epk = epk, cap_cert_chain_hash = cert_hash, cap_outbound = out, cap_inbound = inb\<rparr>) (\<lambda>_.
        pbind (host_send_ecdh_ot C (share_from_bytes r_h) epk) (\<lambda>h. g h after_sh after_sf))), [], [])"
proof (cases parsed)
  case (Some epk)
  with epk_ok obtain E where epk: "length epk = 32" "to_edwards C epk = Some E" by auto
  then obtain ikm where ikm: "reference_ikm C (share_from_bytes r_h) s_n epk = Inr ikm"
    using reference_ikm_total [OF epk(2)] by blast
  show ?thesis
  proof (cases "transcript_hashes_with_ikm T out inb ikm")
    case None
    then show ?thesis by (simp add: Some ikm gets_stuck_now recv_capture_waits)
  next
    case (Some hashes)
    obtain sh sf where h: "hashes = (sh, sf)" by (cases hashes)
    have wf: "capture_wf \<lparr>cap_server_epk = epk, cap_cert_chain_hash = cert_hash, cap_outbound = out, cap_inbound = inb\<rparr>"
      using epk(1) cert small by (simp add: capture_wf_def MAX_HANDSHAKE_BYTES_def)
    have "gets_stuck (pbind (notary_ecdh_after_setup_ivs C s_n) (f cap),
        pbind (host_send_ecdh_ot C (share_from_bytes r_h) epk) (\<lambda>h. g h sh sf), [], [])" for cap
      unfolding notary_ecdh_after_setup_ivs_def
      by (rule gets_stuck_bind [OF ot_round [OF assms(1) ikm r epk(1)]]) (use rest in auto)
    then have "gets_stuck (pbind recv_handshake_capture (\<lambda>cap. pbind (notary_ecdh_after_setup_ivs C s_n) (f cap)),
        pbind (send_handshake_capture \<lparr>cap_server_epk = epk, cap_cert_chain_hash = cert_hash, cap_outbound = out, cap_inbound = inb\<rparr>) (\<lambda>_.
        pbind (host_send_ecdh_ot C (share_from_bytes r_h) epk) (\<lambda>h. g h sh sf)), [], [])"
      by (intro gets_stuck_bind [OF capture_run [OF wf]]) (use small in simp_all)
    then show ?thesis by (simp add: \<open>parsed = Some epk\<close> ikm Some h)
  qed
qed (simp add: gets_stuck_now recv_capture_waits)

lemma mode_2_gets_stuck:
  assumes "curve_ok C" and "handshakes_ok C D"
    and cap: "\<And>esk hs. de_handshake D esk = Inr hs \<Longrightarrow> length (dh_outbound hs) \<le> MAX_HANDSHAKE_BYTES \<and>
      length (dh_inbound hs) \<le> MAX_HANDSHAKE_BYTES"
    and hash: "\<And>certs. length (cert_chain_hash_of (hash T) certs) = 32"
  shows "gets_stuck (handle frames C T W sk, run_two_pc_traffic_demo C T W D, [], [])"
proof -
  let ?s = "share_from_bytes (zeros 32)"
  obtain hs where hs: "de_handshake D (Some (combined_client_esk ?s ?s)) = Inr hs"
    and epk_ok: "\<And>epk. notary_parse_server_hello_key_share (dh_inbound hs) = Some epk \<Longrightarrow> length epk = 32 \<and> to_edwards C epk \<noteq> None"
    using assms(2) unfolding handshakes_ok_def by blast
  have round: "share_from_bytes (share_to_bytes ?s) = ?s" by (rule share_from_to_bytes) simp
  have cert: "length (case dh_certs hs of None \<Rightarrow> zeros 32 | Some x \<Rightarrow> cert_chain_hash_of (hash T) x) = 32"
    using hash by (simp split: option.split)
  show ?thesis
    unfolding handle_def run_two_pc_traffic_demo_def read_setup_frame_def generate_share Let_def
    by (simp, rule gets_stuck_to_notary, simp, simp, rule gets_stuck_random, rule gets_stuck_to_client, simp,
        rule gets_stuck_c_random, simp only: hs round lift_result_def [of "Inr _"] pbind_assoc sum.case pbind.simps,
        rule mode_2_after_share [OF assms(1) epk_ok _ cert], assumption)
      (use cap [OF hs] in \<open>simp_all add: unannounced_schedule_stuck\<close>)
qed

section \<open>Properties\<close>

text \<open>A small environment for the instances: a handshake with a server key, and the toy libraries.\<close>

definition sample_hs :: demo_handshake where
  "sample_hs = \<lparr>dh_inbound = record_to_bytes (hello_record (sample_server_hello (zeros 32))), dh_outbound = [], dh_certs = None,
     dh_traffic = \<lparr>dt_tx_key = replicate 16 1, dt_tx_iv = replicate 12 2, dt_rx_key = replicate 16 3, dt_rx_iv = replicate 12 4,
       dt_tx_seq = 0, dt_rx_seq = 0\<rparr>\<rparr>"

definition sample_demo :: demo_env where
  "sample_demo = \<lparr>de_handshake = (\<lambda>_. Inr sample_hs), de_server = (\<lambda>_. []), de_query_path = ''/'', de_host = ''a.b'',
     de_session_id = [115]\<rparr>"

definition sample_tls :: tls_env where
  "sample_tls = \<lparr>hash = xor_hash, gcm_open = (\<lambda>_ _ _ _ _. None), aes_circuit_hash = zeros 32, sha256_circuit_hash = zeros 32\<rparr>"

lemma sample_handshakes_ok: "handshakes_ok word_curve sample_demo"
  using sample_notary_share [of "[]"]
  by (simp add: handshakes_ok_def sample_demo_def sample_hs_def traffic_wf_def word_curve_def)





end
