(* ===== verification/Tools.thy ===== *)
theory Tools
  imports Agreement Ecdh
begin

text \<open>
  The programs around the libraries: the capturing stream and the injected key exchange of the host
  (\<open>host/src/stream.rs\<close>, \<open>host/src/crypto.rs\<close>), the two host programs that run the guest
  (\<open>host/src/bin\<close>), the bundle verifier (\<open>notary/src/bin/notary_verify.rs\<close>) and the offline ECDH check
  (\<open>notary/src/bin/ecdh_2pc_sanity.rs\<close>). Files, sockets and the arguments are parameters or arguments;
  executing the guest in SP1 is running \<open>guest_main\<close>, and a proof that verifies stands for a run.

  The lemmas show that each program accepts what the library function behind it accepts.
\<close>

section \<open>The capturing stream\<close>

record capturing =
  cs_inbound :: bytes
  cs_outbound :: bytes

text \<open>What the inner stream answers: the bytes it read into the buffer, or how many it wrote of it.\<close>

datatype io_event =
    Read_Call "string + bytes"
  | Write_Call bytes "string + nat"
  | Flush_Call "string + unit"

definition capturing_new :: capturing where
  "capturing_new = \<lparr>cs_inbound = [], cs_outbound = []\<rparr>"

fun capturing_step :: "capturing \<Rightarrow> io_event \<Rightarrow> capturing \<times> (string + nat)" where
  "capturing_step s (Read_Call (Inl e)) = (s, Inl e)"
| "capturing_step s (Read_Call (Inr got)) = (s\<lparr>cs_inbound := cs_inbound s @ got\<rparr>, Inr (length got))"
| "capturing_step s (Write_Call buf (Inl e)) = (s, Inl e)"
| "capturing_step s (Write_Call buf (Inr n)) = (s\<lparr>cs_outbound := cs_outbound s @ take n buf\<rparr>, Inr n)"
| "capturing_step s (Flush_Call r) = (s, case r of Inl e \<Rightarrow> Inl e | Inr _ \<Rightarrow> Inr 0)"

fun received :: "io_event \<Rightarrow> bytes" where
  "received (Read_Call (Inr got)) = got"
| "received _ = []"

fun sent :: "io_event \<Rightarrow> bytes" where
  "sent (Write_Call buf (Inr n)) = take n buf"
| "sent _ = []"

lemma capturing_steps:
  "foldl (\<lambda>s ev. fst (capturing_step s ev)) s evs =
     s\<lparr>cs_inbound := cs_inbound s @ concat (map received evs), cs_outbound := cs_outbound s @ concat (map sent evs)\<rparr>"
proof (induction evs arbitrary: s)
  case (Cons ev evs)
  have "fst (capturing_step s ev) = s\<lparr>cs_inbound := cs_inbound s @ received ev, cs_outbound := cs_outbound s @ sent ev\<rparr>"
    by (cases "(s, ev)" rule: capturing_step.cases) simp_all
  then show ?case by (simp add: Cons)
qed simp

section \<open>The injected key exchange\<close>

record external_active_kx =
  kx_secret :: bytes
  kx_public :: bytes

definition external_start :: "'j guest_env \<Rightarrow> bytes \<Rightarrow> external_active_kx" where
  "external_start E esk = \<lparr>kx_secret = esk, kx_public = x25519_public E esk\<rparr>"

definition external_complete :: "'j guest_env \<Rightarrow> external_active_kx \<Rightarrow> bytes \<Rightarrow> string + bytes" where
  "external_complete E kx peer_pub_key =
     (if length peer_pub_key \<noteq> 32 then Inl ''X25519: peer key must be 32 bytes''
      else Inr (x25519_dh E (kx_secret kx) peer_pub_key))"

text \<open>A ClientHello with the public key of the exchange passes the guest's check of the injected key.\<close>

lemma external_kx_accepted:
  assumes "kx_public (external_start E (esk_client w)) = k" and "parse_client_hello_key_share (raw_outbound w) = Inr (Some k')"
    and "guest_key_schedule E w = Inr gk"
  shows "k = k'"
  using assms by (auto simp: guest_key_schedule_def external_start_def fault_simps)

section \<open>The host programs\<close>

text \<open>\<open>host/src/bin/main.rs\<close>: the TLS session is a function of the injected secret and of the request.\<close>

record host_args =
  ha_host :: bytes
  ha_query_path :: string
  ha_field :: bytes
  ha_threshold :: f64

definition host_request :: "host_args \<Rightarrow> bytes" where
  "host_request args =
     ascii_bytes (''GET '' @ ha_query_path args @ '' HTTP/1.1'') @ [13, 10] @ ascii_bytes ''Host: '' @ ha_host args @ [13, 10] @
     ascii_bytes ''Connection: close'' @ [13, 10] @ ascii_bytes ''Accept: application/json'' @ [13, 10, 13, 10]"

definition host_witness :: "host_args \<Rightarrow> bytes \<Rightarrow> capturing \<Rightarrow> tls_witness" where
  "host_witness args esk stream =
     \<lparr>esk_client = esk, raw_inbound = cs_inbound stream, raw_outbound = cs_outbound stream, hostname = ha_host args,
      json_field = ha_field args, threshold = ha_threshold args, notary = None\<rparr>"

definition host_main ::
  "'j guest_env \<Rightarrow> (bytes \<Rightarrow> bytes \<Rightarrow> string + capturing) \<Rightarrow> host_args \<Rightarrow> bytes \<Rightarrow> string + public_claim" where
  "host_main E session args esk =
     (case session esk (host_request args) of
        Inl e \<Rightarrow> Inl e
      | Inr stream \<Rightarrow>
        (case guest_main E (host_witness args esk stream) of
           Inl _ \<Rightarrow> Inl ''guest execution failed''
         | Inr claim \<Rightarrow> Inr claim))"

text \<open>\<open>host/src/bin/notarized.rs\<close>; \<open>decode\<close> is \<open>bincode::deserialize\<close>.\<close>

definition notarized :: "'j guest_env \<Rightarrow> (bytes \<Rightarrow> tls_witness option) \<Rightarrow> bytes \<Rightarrow> string + public_claim" where
  "notarized E decode bs =
     (case decode bs of
        None \<Rightarrow> Inl ''decode TlsWitness''
      | Some w \<Rightarrow>
        if (case notary w of None \<Rightarrow> False | Some att \<Rightarrow> \<not> verify (ed_env E) (att_bundle att))
        then Inl ''notary bundle signature did not verify''
        else (case guest_main E w of Inl _ \<Rightarrow> Inl ''guest execution failed'' | Inr claim \<Rightarrow> Inr claim))"

lemma notarized_iff: "notarized E decode bs = Inr claim \<longleftrightarrow> (\<exists>w. decode bs = Some w \<and> guest_main E w = Inr claim)"
proof -
  have "verify (ed_env E) (att_bundle att)" if "notary w = Some att" "guest_main E w = Inr claim" for w att
    using that by (auto simp: guest_main_def run_notary_path_def fault_simps Let_def)
  then show ?thesis
    by (auto simp: notarized_def split: option.splits sum.splits)
qed

lemma host_main_iff:
  "host_main E session args esk = Inr claim \<longleftrightarrow>
     (\<exists>stream. session esk (host_request args) = Inr stream \<and> run_self_prove E (host_witness args esk stream) = Inr claim)"
  by (auto simp: host_main_def guest_main_def host_witness_def split: sum.splits)

section \<open>The bundle verifier\<close>

definition mode_label :: "byte \<Rightarrow> string" where
  "mode_label m =
     (if m = 3 then ''WRK17 HKDF+AES+GHASH'' else if m = 2 then ''WRK17 HKDF+AES (GHASH semi-honest)''
      else if m = 1 then ''WRK17 HKDF only'' else ''legacy/semi-honest'')"

text \<open>The contents of the files of the arguments; without both of them there is no cross-check.\<close>

definition notary_verify ::
  "hash_env \<Rightarrow> ed25519 \<Rightarrow> (bytes \<Rightarrow> notary_bundle option) \<Rightarrow> bytes \<Rightarrow> bytes option \<Rightarrow> bytes option \<Rightarrow> string + unit" where
  "notary_verify H ed decode raw outbound inbound =
     (case decode raw of
        None \<Rightarrow> Inl ''bincode deserialize NotaryBundle''
      | Some b \<Rightarrow>
        if \<not> verify ed b then Inl ''bundle signature verification failed''
        else if bundle_version b \<ge> BUNDLE_VERSION_BINDING then
          (case (outbound, inbound) of
             (Some outb, Some inb) \<Rightarrow>
               if handshake_transcript_hash_of H outb inb \<noteq> handshake_transcript_hash (binding b)
               then Inl ''handshake_transcript_hash mismatch''
               else (case notary_parse_server_hello_key_share inb of
                       None \<Rightarrow> Inl ''parse ServerHello epk''
                     | Some epk \<Rightarrow> if epk \<noteq> server_epk (binding b) then Inl ''server_epk mismatch'' else Inr ())
           | _ \<Rightarrow> Inr ())
        else Inr ())"

lemma notary_verify_iff:
  "notary_verify H ed decode raw (Some outb) (Some inb) = Inr () \<longleftrightarrow>
     (\<exists>b. decode raw = Some b \<and> verify ed b \<and>
       (bundle_version b \<ge> BUNDLE_VERSION_BINDING \<longrightarrow>
          handshake_transcript_hash_of H outb inb = handshake_transcript_hash (binding b) \<and>
          notary_parse_server_hello_key_share inb = Some (server_epk (binding b))))"
  by (auto simp: notary_verify_def split: option.splits)

lemma notary_verify_no_files:
  "outbound = None \<or> inbound = None \<Longrightarrow>
     notary_verify H ed decode raw outbound inbound = Inr () \<longleftrightarrow> (\<exists>b. decode raw = Some b \<and> verify ed b)"
  by (auto simp: notary_verify_def split: option.splits)

text \<open>
  What the verifier accepts for the traffic of a witness, the guest accepts, if its parser finds the
  same key share.
\<close>

lemma notary_verify_guest:
  assumes "notary_verify H (ed_env E) decode raw (Some (raw_outbound w)) (Some (raw_inbound w)) = Inr ()"
    and "decode raw = Some b" and "sha256 E = sha256_of H"
    and "\<And>k. notary_parse_server_hello_key_share (raw_inbound w) = Some k \<Longrightarrow>
      parse_server_hello_key_share (raw_inbound w) = Inr (Some k)"
  shows "verify (ed_env E) b \<and> check_binding E w b = Inr ()"
  using assms
  by (auto simp: notary_verify_iff check_binding_def witness_hash_def handshake_transcript_hash_of_def fault_simps)

section \<open>The offline ECDH check\<close>

text \<open>Each side returns what it prints.\<close>

definition sanity_run_notary :: "'p curve \<Rightarrow> leaky_outcome proc" where
  "sanity_run_notary C =
     Recv 32 (\<lambda>epk. Recv 32 (\<lambda>b.
     let host_share = share_from_bytes b
     in pbind generate_share (\<lambda>share.
        Send (share_to_bytes share)
        (notary_run_leaky_additive C share host_share epk))))"

definition sanity_run_host :: "'p curve \<Rightarrow> bytes \<Rightarrow> leaky_outcome proc" where
  "sanity_run_host C epk =
     Send epk
     (pbind generate_share (\<lambda>k_c.
      Send (share_to_bytes k_c)
      (Recv 32 (\<lambda>notary_share_bytes.
      let k_n = share_from_bytes notary_share_bytes
      in pbind (host_run_leaky_additive C k_c k_n epk) (\<lambda>out.
         let recon = bxor (lo_host_share out) (lo_notary_share out)
         in if recon \<noteq> lo_ikm out then Error ''XOR IKM shares must reconstruct IKM'' else Done out)))))"

definition self_test_ot :: "bytes \<Rightarrow> ecdh_setup_outcome \<Rightarrow> bytes \<Rightarrow> fault + unit" where
  "self_test_ot expected notary_out host_ikm_share =
     (case notary_out of
        Ot out \<Rightarrow>
          sbind (ensure (oo_ikm out = expected) ''notary_out.ikm'') (\<lambda>_.
          ensure (host_ikm_share = oo_host_share out) ''host_ikm_share'')
      | _ \<Rightarrow> Inl (Explicit ''expected OT ECDH''))"

definition self_test_leaky :: "bytes \<Rightarrow> ecdh_setup_outcome \<Rightarrow> leaky_outcome \<Rightarrow> fault + unit" where
  "self_test_leaky expected notary_out host_out =
     (case notary_out of
        Leaky out \<Rightarrow>
          sbind (ensure (lo_ikm host_out = expected) ''host_out.ikm'') (\<lambda>_.
          ensure (lo_ikm out = expected) ''notary_out.ikm'')
      | _ \<Rightarrow> Inl (Explicit ''expected leaky ECDH''))"

text \<open>The self tests pass, on every schedule.\<close>

lemma self_tests_pass:
  assumes "curve_ok C" and "reference_ikm C (share_from_bytes r_h) s_n epk = Inr ikm"
    and "length r_h = 32" and "length epk = 32"
  shows "delivers (notary_recv_ecdh_setup C s_n) (host_send_ecdh_ot C (share_from_bytes r_h) epk)
      (\<lambda>n h. self_test_ot ikm n h = Inr ())"
    and "delivers (notary_recv_ecdh_setup C s_n) (host_send_ecdh_leaky C (share_from_bytes r_h) s_n epk)
      (\<lambda>n h. self_test_leaky ikm n h = Inr ())"
  by (rule delivers_mono [OF ot_round [OF assms]]; auto simp: self_test_ot_def fault_simps)
    (rule delivers_mono [OF leaky_round [OF assms]]; auto simp: self_test_leaky_def fault_simps)

lemma sanity_run:
  assumes ok: "curve_ok C" and E: "to_edwards C epk = Some E" and len: "length epk = 32"
  shows "delivers (sanity_run_notary C) (sanity_run_host C epk)
    (\<lambda>n h. n = h \<and> bxor (lo_host_share h) (lo_notary_share h) = lo_ikm h)"
proof -
  have C: "length (pt_compress C p) = 32" "pt_decompress C (pt_compress C p) = Some p" "length (to_montgomery C p) = 32" for p
    using ok by (simp_all add: curve_ok_def)
  have ikm: "reference_ikm C s t epk = Inr (to_montgomery C (smul C (from_le (combined_client_esk s t) mod ell) E))" for s t
    by (simp add: reference_ikm_def E Let_def)
  show ?thesis
    unfolding sanity_run_notary_def sanity_run_host_def generate_share Let_def
    by (simp add: delivers_c_send delivers_n_send delivers_n_random delivers_c_random delivers_Done len C ikm partial_point [OF E]
        notary_run_leaky_additive_def host_run_leaky_additive_def bxor_commute bxor_cancel_left)
qed

end
