(* ===== verification/Wrk17.thy ===== *)
theory Wrk17
  imports Garble
begin

text \<open>
  The garbling protocol under the runs of the theory \<open>Garble\<close>: the vendored authenticated garbling of
  \<open>notary/deps/swanky-authenticated-garbling\<close>, with the preprocessing of a circuit, the garbler, the
  evaluator and the two halves of a run of \<open>notary/src/garble.rs\<close>.

  A circuit is the sequence of calls it makes on its backend; three backends run it, the preprocessor,
  the garbler and the evaluator. Authenticated shares and AND triples come from the \<open>swanky\<close> crates
  outside the repository and are a parameter: a record of the functions per party.

  The laws the protocol relies on and the proofs are in the theory \<open>Wrk17_Correct\<close>.
\<close>

unbundle bit_operations_syntax

section \<open>The library of authenticated shares\<close>

type_synonym label = "128 word"

text \<open>A product of a bit with a label in \<open>F128b\<close>.\<close>

definition gate_mul :: "bool \<Rightarrow> label \<Rightarrow> label" where
  "gate_mul b d = (if b then d else 0)"

definition lsb :: "label \<Rightarrow> bool" where
  "lsb x = bit x 0"

text \<open>The hash of a label with a tweak, and what the channel makes of labels and bits.\<close>

record label_env =
  hash_label :: "label \<Rightarrow> nat \<Rightarrow> label"
  label_bytes :: "label \<Rightarrow> bytes"
  bytes_label :: "bytes \<Rightarrow> label"
  bit_bytes :: "bool \<Rightarrow> bytes"
  bytes_bit :: "bytes \<Rightarrow> bool option"

text \<open>
  One party's \<open>AuthShare\<close>, \<open>AuthShareGenerator\<close> and \<open>AndTripleGenerator\<close>: shares \<open>'s\<close>, triples \<open>'t\<close>,
  the state of the generator \<open>'g\<close>.
\<close>

record ('s, 't, 'g) auth_lib =
  share_bit :: "'s \<Rightarrow> bool"
  share_mac :: "'s \<Rightarrow> label"
  share_key :: "'s \<Rightarrow> label"
  share_xor :: "'s \<Rightarrow> 's \<Rightarrow> 's"
  share_mul :: "'s \<Rightarrow> bool \<Rightarrow> 's"
  share_constant :: "bool \<Rightarrow> label \<Rightarrow> 's"
  open_shares :: "label \<Rightarrow> 's list \<Rightarrow> bool list proc"
  open_my_shares :: "'s list \<Rightarrow> unit proc"
  open_their_shares :: "label \<Rightarrow> 's list \<Rightarrow> bool list proc"
  valid_delta :: "label proc"
  generator_new :: "'g proc"
  generator_with_delta :: "label \<Rightarrow> 'g proc"
  generator_delta :: "'g \<Rightarrow> label"
  generate_triples :: "'g \<Rightarrow> nat \<Rightarrow> ('g \<times> 't list) proc"
  generate_shares :: "'g \<Rightarrow> nat \<Rightarrow> ('g \<times> 's list) proc"
  known_triples :: "'g \<Rightarrow> 't list \<Rightarrow> 's list \<Rightarrow> 's list \<Rightarrow> ('g \<times> 's list) proc"

section \<open>Circuits and backends\<close>

text \<open>A call adds a wire behind the wires there are.\<close>

datatype call = Call_And nat nat | Call_Xor nat nat | Call_Negate nat | Call_Constant bool

record call_circuit =
  cc_inputs :: nat
  cc_calls :: "call list"
  cc_outputs :: "nat list"

record ('st, 'w) backend =
  be_and :: "'st \<Rightarrow> 'w \<Rightarrow> 'w \<Rightarrow> ('st \<times> 'w) proc"
  be_xor :: "'st \<Rightarrow> 'w \<Rightarrow> 'w \<Rightarrow> 'w"
  be_negate :: "'st \<Rightarrow> 'w \<Rightarrow> 'w"
  be_constant :: "'st \<Rightarrow> bool \<Rightarrow> ('st \<times> 'w) proc"

definition in_range :: "nat \<Rightarrow> 'w list \<Rightarrow> 'a proc \<Rightarrow> 'a proc" where
  "in_range i ws p = (if i < length ws then p else Error ''index out of bounds'')"

fun call_step :: "('st, 'w) backend \<Rightarrow> call \<Rightarrow> 'st \<Rightarrow> 'w list \<Rightarrow> ('st \<times> 'w) proc" where
  "call_step B (Call_And i j) s ws = in_range i ws (in_range j ws (be_and B s (ws ! i) (ws ! j)))"
| "call_step B (Call_Xor i j) s ws = in_range i ws (in_range j ws (Done (s, be_xor B s (ws ! i) (ws ! j))))"
| "call_step B (Call_Negate i) s ws = in_range i ws (Done (s, be_negate B s (ws ! i)))"
| "call_step B (Call_Constant v) s ws = be_constant B s v"

primrec execute :: "('st, 'w) backend \<Rightarrow> call list \<Rightarrow> 'st \<Rightarrow> 'w list \<Rightarrow> ('st \<times> 'w list) proc" where
  "execute B [] s ws = Done (s, ws)"
| "execute B (c # cs) s ws = pbind (call_step B c s ws) (\<lambda>(s, w). execute B cs s (ws @ [w]))"

definition execute_circuit :: "('st, 'w) backend \<Rightarrow> call_circuit \<Rightarrow> 'st \<Rightarrow> 'w list \<Rightarrow> ('st \<times> 'w list) proc" where
  "execute_circuit B c s inputs =
     pbind (execute B (cc_calls c) s inputs) (\<lambda>(s, ws).
       if list_all (\<lambda>i. i < length ws) (cc_outputs c) then Done (s, map ((!) ws) (cc_outputs c))
       else Error ''index out of bounds'')"

text \<open>What the circuit computes.\<close>

fun call_value :: "bool list \<Rightarrow> call \<Rightarrow> bool" where
  "call_value vs (Call_And i j) = (vs ! i \<and> vs ! j)"
| "call_value vs (Call_Xor i j) = (vs ! i \<noteq> vs ! j)"
| "call_value vs (Call_Negate i) = (\<not> vs ! i)"
| "call_value vs (Call_Constant v) = v"

primrec run_calls :: "call list \<Rightarrow> bool list \<Rightarrow> bool list" where
  "run_calls [] vs = vs"
| "run_calls (c # cs) vs = run_calls cs (vs @ [call_value vs c])"

definition circuit_value :: "call_circuit \<Rightarrow> bool list \<Rightarrow> bool list" where
  "circuit_value c vs = map ((!) (run_calls (cc_calls c) vs)) (cc_outputs c)"

text \<open>The counts of \<open>CircuitAnalyzer\<close>.\<close>

definition nands :: "call list \<Rightarrow> nat" where
  "nands cs = length (filter (\<lambda>c. case c of Call_And i j \<Rightarrow> True | _ \<Rightarrow> False) cs)"

definition nconstants :: "call list \<Rightarrow> nat" where
  "nconstants cs = length (filter (\<lambda>c. case c of Call_Constant v \<Rightarrow> True | _ \<Rightarrow> False) cs)"

section \<open>Preprocessing\<close>

record 's wire_preprocessor =
  wp_auth_shares :: "'s list"
  wp_auth_shares_index :: nat
  wp_and_gate_left_inputs :: "'s list"
  wp_and_gate_right_inputs :: "'s list"
  wp_delta :: label

definition wp_new :: "'s list \<Rightarrow> label \<Rightarrow> 's wire_preprocessor" where
  "wp_new shares delta =
     \<lparr>wp_auth_shares = shares, wp_auth_shares_index = 0, wp_and_gate_left_inputs = [],
      wp_and_gate_right_inputs = [], wp_delta = delta\<rparr>"

definition wp_next_auth_share :: "'s wire_preprocessor \<Rightarrow> ('s wire_preprocessor \<times> 's) proc" where
  "wp_next_auth_share s =
     in_range (wp_auth_shares_index s) (wp_auth_shares s)
       (Done (s\<lparr>wp_auth_shares_index := wp_auth_shares_index s + 1\<rparr>, wp_auth_shares s ! wp_auth_shares_index s))"

primrec wp_receive_many :: "'s wire_preprocessor \<Rightarrow> nat \<Rightarrow> ('s wire_preprocessor \<times> 's list) proc" where
  "wp_receive_many s 0 = Done (s, [])"
| "wp_receive_many s (Suc n) =
     pbind (wp_receive_many s n) (\<lambda>(s, xs). pbind (wp_next_auth_share s) (\<lambda>(s, x). Done (s, xs @ [x])))"

definition wp_and :: "'s wire_preprocessor \<Rightarrow> 's \<Rightarrow> 's \<Rightarrow> ('s wire_preprocessor \<times> 's) proc" where
  "wp_and s x y =
     wp_next_auth_share
       (s\<lparr>wp_and_gate_left_inputs := wp_and_gate_left_inputs s @ [x],
          wp_and_gate_right_inputs := wp_and_gate_right_inputs s @ [y]\<rparr>)"

definition wp_backend :: "('s, 't, 'g) auth_lib \<Rightarrow> ('s wire_preprocessor, 's) backend" where
  "wp_backend L =
     \<lparr>be_and = wp_and, be_xor = (\<lambda>s x y. share_xor L x y), be_negate = (\<lambda>s x. x),
      be_constant = (\<lambda>s v. Done (s, share_constant L False (wp_delta s)))\<rparr>"

definition wp_encode_many :: "'s wire_preprocessor \<Rightarrow> nat list \<Rightarrow> nat \<Rightarrow> ('s wire_preprocessor \<times> 's list) proc" where
  "wp_encode_many s values moduli = Error ''Preprocessor cannot encode values''"

definition wp_output :: "'s wire_preprocessor \<Rightarrow> 's \<Rightarrow> bool option proc" where
  "wp_output s x = Done None"

definition preprocess_circuit ::
  "('s, 't, 'g) auth_lib \<Rightarrow> call_circuit \<Rightarrow> 'g \<Rightarrow> ('g \<times> 's list \<times> 's list) proc" where
  "preprocess_circuit L circ g =
     (let n = nands (cc_calls circ); ninputs = cc_inputs circ; nconst = nconstants (cc_calls circ);
          nand_triples = (if 0 < n \<and> n < 320 then 320 else n)
      in pbind (if n > 0 then generate_triples L g nand_triples else Done (g, [])) (\<lambda>(g, rand_and_triples).
         pbind (generate_shares L g (n + ninputs + nconst)) (\<lambda>(g, auth_shares).
         pbind (wp_receive_many (wp_new auth_shares (generator_delta L g)) ninputs) (\<lambda>(wp, inputs).
         pbind (execute_circuit (wp_backend L) circ wp inputs) (\<lambda>(wp, _).
         if n > 0 then
           (if n \<le> length rand_and_triples then
              pbind (known_triples L g (take n rand_and_triples) (wp_and_gate_left_inputs wp) (wp_and_gate_right_inputs wp))
                (\<lambda>(g, known). Done (g, auth_shares, known))
            else Error ''index out of bounds'')
         else Done (g, auth_shares, []))))))"

section \<open>Wires, and the channel\<close>

record 's auth_wire =
  masked_value :: bool
  wire_label :: label
  auth_share :: 's

primrec write_each :: "('x \<Rightarrow> bytes) \<Rightarrow> 'x list \<Rightarrow> unit proc" where
  "write_each enc [] = Done ()"
| "write_each enc (x # xs) = Send (enc x) (write_each enc xs)"

definition read_label :: "label_env \<Rightarrow> (label \<Rightarrow> 'a proc) \<Rightarrow> 'a proc" where
  "read_label W f = Recv 16 (\<lambda>bs. f (bytes_label W bs))"

definition read_bit :: "label_env \<Rightarrow> (bool \<Rightarrow> 'a proc) \<Rightarrow> 'a proc" where
  "read_bit W f = Recv 1 (\<lambda>bs. case bytes_bit W bs of None \<Rightarrow> Error ''read'' | Some b \<Rightarrow> f b)"

primrec read_labels :: "label_env \<Rightarrow> nat \<Rightarrow> label list proc" where
  "read_labels W 0 = Done []"
| "read_labels W (Suc n) = read_label W (\<lambda>x. pbind (read_labels W n) (\<lambda>xs. Done (x # xs)))"

primrec read_bits :: "label_env \<Rightarrow> nat \<Rightarrow> bool list proc" where
  "read_bits W 0 = Done []"
| "read_bits W (Suc n) = read_bit W (\<lambda>x. pbind (read_bits W n) (\<lambda>xs. Done (x # xs)))"

text \<open>\<open>WireMod2::rand\<close>.\<close>

primrec rand_labels :: "label_env \<Rightarrow> nat \<Rightarrow> label list proc" where
  "rand_labels W 0 = Done []"
| "rand_labels W (Suc n) = Random 16 (\<lambda>bs. pbind (rand_labels W n) (\<lambda>xs. Done (bytes_label W bs # xs)))"

text \<open>\<open>F2::try_from\<close> on a value, for all values of a list.\<close>

definition bit_values :: "string \<Rightarrow> nat list \<Rightarrow> bool list proc" where
  "bit_values msg values = (if list_all (\<lambda>v. v < 2) values then Done (map (\<lambda>v. v = 1) values) else Error msg)"

section \<open>The garbler\<close>

record 's garbler =
  gb_delta :: label
  gb_zero :: label
  gb_and_gate_index :: nat
  gb_auth_shares :: "'s list"
  gb_auth_shares_index :: nat
  gb_and_auth_shares :: "'s list"
  gb_and_auth_shares_index :: nat

text \<open>The common rest of \<open>Garbler::new\<close> and \<open>new_with_and_generator\<close>.\<close>

definition garbler_preprocessed ::
  "('s, 't, 'g) auth_lib \<Rightarrow> label_env \<Rightarrow> call_circuit \<Rightarrow> label \<Rightarrow> label \<Rightarrow> 'g \<Rightarrow> ('g \<times> 's garbler) proc" where
  "garbler_preprocessed L W circ delta zero g =
     (let one = zero XOR delta
      in pbind (preprocess_circuit L circ g) (\<lambda>(g, auth_shares, known_triples).
         Send (label_bytes W one)
         (Done (g, \<lparr>gb_delta = delta, gb_zero = zero, gb_and_gate_index = 0,
                    gb_auth_shares = auth_shares, gb_auth_shares_index = 0,
                    gb_and_auth_shares = known_triples, gb_and_auth_shares_index = 0\<rparr>))))"

definition garbler_new :: "('s, 't, 'g) auth_lib \<Rightarrow> label_env \<Rightarrow> call_circuit \<Rightarrow> ('g \<times> 's garbler) proc" where
  "garbler_new L W circ =
     pbind (valid_delta L) (\<lambda>delta.
     Random 16 (\<lambda>zero.
     pbind (generator_with_delta L delta) (\<lambda>g.
     garbler_preprocessed L W circ delta (bytes_label W zero) g)))"

definition garbler_new_with_and_generator ::
  "('s, 't, 'g) auth_lib \<Rightarrow> label_env \<Rightarrow> call_circuit \<Rightarrow> 'g \<Rightarrow> ('g \<times> 's garbler) proc" where
  "garbler_new_with_and_generator L W circ g =
     (let delta = generator_delta L g
      in Random 16 (\<lambda>zero. garbler_preprocessed L W circ delta (bytes_label W zero) g))"

definition next_and_gate_index :: "'s garbler \<Rightarrow> 's garbler \<times> nat" where
  "next_and_gate_index st = (st\<lparr>gb_and_gate_index := gb_and_gate_index st + 1\<rparr>, gb_and_gate_index st)"

definition next_auth_share :: "'s garbler \<Rightarrow> ('s garbler \<times> 's) proc" where
  "next_auth_share st =
     in_range (gb_auth_shares_index st) (gb_auth_shares st)
       (Done (st\<lparr>gb_auth_shares_index := gb_auth_shares_index st + 1\<rparr>, gb_auth_shares st ! gb_auth_shares_index st))"

definition next_and_auth_share :: "'s garbler \<Rightarrow> ('s garbler \<times> 's) proc" where
  "next_and_auth_share st =
     in_range (gb_and_auth_shares_index st) (gb_and_auth_shares st)
       (Done (st\<lparr>gb_and_auth_shares_index := gb_and_auth_shares_index st + 1\<rparr>,
              gb_and_auth_shares st ! gb_and_auth_shares_index st))"

primrec next_auth_shares :: "'s garbler \<Rightarrow> nat \<Rightarrow> ('s garbler \<times> 's list) proc" where
  "next_auth_shares st 0 = Done (st, [])"
| "next_auth_shares st (Suc n) =
     pbind (next_auth_shares st n) (\<lambda>(st, xs). pbind (next_auth_share st) (\<lambda>(st, x). Done (st, xs @ [x])))"

definition encode_wirelabels :: "label_env \<Rightarrow> 's garbler \<Rightarrow> bool list \<Rightarrow> 's list \<Rightarrow> 's auth_wire list proc" where
  "encode_wirelabels W st masked_values auth_shares =
     pbind (rand_labels W (length masked_values)) (\<lambda>zeros.
     pbind (write_each (\<lambda>(masked_value, zero). label_bytes W (zero XOR gate_mul masked_value (gb_delta st)))
              (zip masked_values zeros)) (\<lambda>_.
     Done (map (\<lambda>(masked_value, zero, share). \<lparr>masked_value = masked_value, wire_label = zero, auth_share = share\<rparr>)
             (zip masked_values (zip zeros auth_shares)))))"

definition validation_share ::
  "('s, 't, 'g) auth_lib \<Rightarrow> label \<Rightarrow> 's auth_wire \<Rightarrow> 's auth_wire \<Rightarrow> bool \<Rightarrow> 's \<Rightarrow> 's \<Rightarrow> 's" where
  "validation_share L delta la lb lc_value lc_triple lc_share =
     (let la_value = masked_value la; lb_value = masked_value lb;
          share_masks = share_constant L ((la_value \<and> lb_value) \<noteq> lc_value) delta
      in share_xor L (share_xor L (share_xor L (share_xor L share_masks
           (share_mul L (auth_share la) lb_value)) (share_mul L (auth_share lb) la_value)) lc_triple) lc_share)"

definition garbler_and ::
  "('s, 't, 'g) auth_lib \<Rightarrow> label_env \<Rightarrow> 's garbler \<Rightarrow> 's auth_wire \<Rightarrow> 's auth_wire \<Rightarrow> ('s garbler \<times> 's auth_wire) proc" where
  "garbler_and L W st la0 lb0 =
     (let (st, index) = next_and_gate_index st
      in pbind (next_auth_share st) (\<lambda>(st, lc_share).
         pbind (next_and_auth_share st) (\<lambda>(st, lc_triple).
         let delta = gb_delta st;
             la1 = wire_label la0 XOR delta;
             lb1 = wire_label lb0 XOR delta;
             h_la0 = hash_label W (wire_label la0) index;
             h_lb0 = hash_label W (wire_label lb0) index;
             h_la1 = hash_label W la1 index;
             h_lb1 = hash_label W lb1 index;
             key_a = share_key L (auth_share la0);
             key_b = share_key L (auth_share lb0);
             key_c = share_key L lc_share;
             key_c_triple = share_key L lc_triple;
             delta_bit_a = gate_mul (share_bit L (auth_share la0)) delta;
             delta_bit_b = gate_mul (share_bit L (auth_share lb0)) delta;
             delta_bit_c = gate_mul (share_bit L lc_share) delta;
             delta_bit_c_triple = gate_mul (share_bit L lc_triple) delta;
             gate0 = h_la0 XOR h_la1 XOR key_b XOR delta_bit_b;
             gate1 = h_lb0 XOR h_lb1 XOR key_a XOR delta_bit_a XOR wire_label la0;
             lc0 = h_la0 XOR h_lb0 XOR key_c XOR delta_bit_c XOR key_c_triple XOR delta_bit_c_triple;
             bit_c = lsb lc0
         in Send (label_bytes W gate0)
           (Send (label_bytes W gate1)
           (Send (bit_bytes W bit_c)
           (read_bit W (\<lambda>lc_value.
            pbind (open_shares L delta [validation_share L delta la0 lb0 lc_value lc_triple lc_share]) (\<lambda>validation_bit.
            if validation_bit ! 0 \<noteq> False then Error ''Garbler's authentication validation check failed''
            else Done (st, \<lparr>masked_value = lc_value, wire_label = lc0, auth_share = lc_share\<rparr>))))))))) "

definition garbler_xor :: "('s, 't, 'g) auth_lib \<Rightarrow> 's garbler \<Rightarrow> 's auth_wire \<Rightarrow> 's auth_wire \<Rightarrow> 's auth_wire" where
  "garbler_xor L st x y =
     \<lparr>masked_value = (masked_value x \<noteq> masked_value y), wire_label = wire_label x XOR wire_label y,
      auth_share = share_xor L (auth_share x) (auth_share y)\<rparr>"

definition garbler_negate :: "'s garbler \<Rightarrow> 's auth_wire \<Rightarrow> 's auth_wire" where
  "garbler_negate st x =
     \<lparr>masked_value = (masked_value x \<noteq> True), wire_label = wire_label x XOR gb_zero st, auth_share = auth_share x\<rparr>"

definition garbler_constant ::
  "('s, 't, 'g) auth_lib \<Rightarrow> label_env \<Rightarrow> 's garbler \<Rightarrow> bool \<Rightarrow> ('s garbler \<times> 's auth_wire) proc" where
  "garbler_constant L W st value =
     (let share = share_constant L False (gb_delta st)
      in Random 16 (\<lambda>zero.
         let zero = bytes_label W zero
         in Send (label_bytes W (zero XOR gate_mul value (gb_delta st)))
           (Done (st, \<lparr>masked_value = value, wire_label = zero, auth_share = share\<rparr>))))"

definition garbler_backend :: "('s, 't, 'g) auth_lib \<Rightarrow> label_env \<Rightarrow> ('s garbler, 's auth_wire) backend" where
  "garbler_backend L W =
     \<lparr>be_and = garbler_and L W, be_xor = garbler_xor L, be_negate = garbler_negate, be_constant = garbler_constant L W\<rparr>"

definition garbler_encode_many ::
  "('s, 't, 'g) auth_lib \<Rightarrow> label_env \<Rightarrow> 's garbler \<Rightarrow> nat list \<Rightarrow> nat \<Rightarrow> ('s garbler \<times> 's auth_wire list) proc" where
  "garbler_encode_many L W st values moduli =
     (if length values \<noteq> moduli then Error ''assertion failed''
      else pbind (next_auth_shares st (length values)) (\<lambda>(st, my_auth_shares).
        pbind (open_their_shares L (gb_delta st) my_auth_shares) (\<lambda>their_bits.
        pbind (bit_values ''Invalid value, must be boolean'' values) (\<lambda>vals.
        let my_masked_values = map (\<lambda>(theirs, mine, v). (theirs \<noteq> share_bit L mine) \<noteq> v) (zip their_bits (zip my_auth_shares vals))
        in pbind (write_each (bit_bytes W) my_masked_values) (\<lambda>_.
           pbind (encode_wirelabels W st my_masked_values my_auth_shares) (\<lambda>ws. Done (st, ws)))))))"

definition garbler_receive_many ::
  "('s, 't, 'g) auth_lib \<Rightarrow> label_env \<Rightarrow> 's garbler \<Rightarrow> nat \<Rightarrow> ('s garbler \<times> 's auth_wire list) proc" where
  "garbler_receive_many L W st moduli =
     pbind (next_auth_shares st moduli) (\<lambda>(st, my_auth_shares).
     pbind (open_my_shares L my_auth_shares) (\<lambda>_.
     pbind (read_bits W moduli) (\<lambda>their_masked_values.
     pbind (encode_wirelabels W st their_masked_values my_auth_shares) (\<lambda>ws. Done (st, ws)))))"

definition garbler_outputs :: "('s, 't, 'g) auth_lib \<Rightarrow> 's auth_wire list \<Rightarrow> bool list option proc" where
  "garbler_outputs L xs = pbind (open_my_shares L (map auth_share xs)) (\<lambda>_. Done None)"

definition garbler_output :: "('s, 't, 'g) auth_lib \<Rightarrow> 's auth_wire \<Rightarrow> bool option proc" where
  "garbler_output L x = pbind (garbler_outputs L [x]) (\<lambda>out. Done (map_option (\<lambda>xs. xs ! 0) out))"

section \<open>The evaluator\<close>

record 's evaluator =
  ev_delta :: label
  ev_one :: label
  ev_and_wire_index :: nat
  ev_auth_shares :: "'s list"
  ev_auth_shares_index :: nat
  ev_and_auth_shares :: "'s list"
  ev_and_auth_shares_index :: nat

definition evaluator_preprocessed ::
  "('s, 't, 'g) auth_lib \<Rightarrow> label_env \<Rightarrow> call_circuit \<Rightarrow> label \<Rightarrow> 'g \<Rightarrow> ('g \<times> 's evaluator) proc" where
  "evaluator_preprocessed L W circ delta g =
     pbind (preprocess_circuit L circ g) (\<lambda>(g, auth_shares, and_auth_shares).
     read_label W (\<lambda>one.
     Done (g, \<lparr>ev_delta = delta, ev_one = one, ev_and_wire_index = 0,
               ev_auth_shares = auth_shares, ev_auth_shares_index = 0,
               ev_and_auth_shares = and_auth_shares, ev_and_auth_shares_index = 0\<rparr>)))"

definition evaluator_new :: "('s, 't, 'g) auth_lib \<Rightarrow> label_env \<Rightarrow> call_circuit \<Rightarrow> ('g \<times> 's evaluator) proc" where
  "evaluator_new L W circ =
     pbind (valid_delta L) (\<lambda>delta.
     pbind (generator_with_delta L delta) (\<lambda>g.
     evaluator_preprocessed L W circ delta g))"

definition evaluator_new_with_and_generator ::
  "('s, 't, 'g) auth_lib \<Rightarrow> label_env \<Rightarrow> call_circuit \<Rightarrow> 'g \<Rightarrow> ('g \<times> 's evaluator) proc" where
  "evaluator_new_with_and_generator L W circ g =
     (let delta = generator_delta L g in evaluator_preprocessed L W circ delta g)"

definition next_and_wire_index :: "'s evaluator \<Rightarrow> 's evaluator \<times> nat" where
  "next_and_wire_index ev = (ev\<lparr>ev_and_wire_index := ev_and_wire_index ev + 1\<rparr>, ev_and_wire_index ev)"

definition ev_next_auth_share :: "'s evaluator \<Rightarrow> ('s evaluator \<times> 's) proc" where
  "ev_next_auth_share ev =
     in_range (ev_auth_shares_index ev) (ev_auth_shares ev)
       (Done (ev\<lparr>ev_auth_shares_index := ev_auth_shares_index ev + 1\<rparr>, ev_auth_shares ev ! ev_auth_shares_index ev))"

definition ev_next_and_auth_share :: "'s evaluator \<Rightarrow> ('s evaluator \<times> 's) proc" where
  "ev_next_and_auth_share ev =
     in_range (ev_and_auth_shares_index ev) (ev_and_auth_shares ev)
       (Done (ev\<lparr>ev_and_auth_shares_index := ev_and_auth_shares_index ev + 1\<rparr>,
              ev_and_auth_shares ev ! ev_and_auth_shares_index ev))"

primrec ev_next_auth_shares :: "'s evaluator \<Rightarrow> nat \<Rightarrow> ('s evaluator \<times> 's list) proc" where
  "ev_next_auth_shares ev 0 = Done (ev, [])"
| "ev_next_auth_shares ev (Suc n) =
     pbind (ev_next_auth_shares ev n) (\<lambda>(ev, xs). pbind (ev_next_auth_share ev) (\<lambda>(ev, x). Done (ev, xs @ [x])))"

definition receive_wirelabels :: "label_env \<Rightarrow> bool list \<Rightarrow> 's list \<Rightarrow> 's auth_wire list proc" where
  "receive_wirelabels W masked_values auth_shares =
     (let pairs = zip masked_values auth_shares
      in pbind (read_labels W (length pairs)) (\<lambda>labels.
         Done (map (\<lambda>((masked_value, share), lab). \<lparr>masked_value = masked_value, wire_label = lab, auth_share = share\<rparr>)
                 (zip pairs labels))))"

definition evaluator_and ::
  "('s, 't, 'g) auth_lib \<Rightarrow> label_env \<Rightarrow> 's evaluator \<Rightarrow> 's auth_wire \<Rightarrow> 's auth_wire \<Rightarrow> ('s evaluator \<times> 's auth_wire) proc" where
  "evaluator_and L W ev la lb =
     (let (ev, index) = next_and_wire_index ev
      in pbind (ev_next_auth_share ev) (\<lambda>(ev, lc_share).
         pbind (ev_next_and_auth_share ev) (\<lambda>(ev, lc_triple).
         let mac_share = share_mac L lc_share;
             mac_triple = share_mac L lc_triple
         in read_label W (\<lambda>gate_c0.
            read_label W (\<lambda>gate_c1.
            read_bit W (\<lambda>bit_c.
            let gate0 = gate_c0 XOR share_mac L (auth_share lb);
                gate1 = gate_c1 XOR share_mac L (auth_share la);
                h_la = hash_label W (wire_label la) index;
                h_lb = hash_label W (wire_label lb) index;
                la_value = masked_value la;
                lb_value = masked_value lb;
                gate0_muxed = gate_mul la_value gate0;
                gate1_muxed = gate_mul lb_value (gate1 XOR wire_label la);
                lc_label = h_la XOR h_lb XOR mac_share XOR mac_triple XOR gate0_muxed XOR gate1_muxed;
                lc_value = (lsb lc_label \<noteq> bit_c)
            in Send (bit_bytes W lc_value)
              (pbind (open_shares L (ev_delta ev) [validation_share L (ev_delta ev) la lb lc_value lc_triple lc_share]) (\<lambda>validation_bit.
               if validation_bit ! 0 \<noteq> False then Error ''Evaluator's authentication validation check failed''
               else Done (ev, \<lparr>masked_value = lc_value, wire_label = lc_label, auth_share = lc_share\<rparr>))))))))) "

definition evaluator_xor :: "('s, 't, 'g) auth_lib \<Rightarrow> 's evaluator \<Rightarrow> 's auth_wire \<Rightarrow> 's auth_wire \<Rightarrow> 's auth_wire" where
  "evaluator_xor L ev x y =
     \<lparr>masked_value = (masked_value x \<noteq> masked_value y), wire_label = wire_label x XOR wire_label y,
      auth_share = share_xor L (auth_share x) (auth_share y)\<rparr>"

definition evaluator_negate :: "'s evaluator \<Rightarrow> 's auth_wire \<Rightarrow> 's auth_wire" where
  "evaluator_negate ev x =
     \<lparr>masked_value = (masked_value x \<noteq> True), wire_label = wire_label x XOR ev_one ev, auth_share = auth_share x\<rparr>"

definition evaluator_constant ::
  "('s, 't, 'g) auth_lib \<Rightarrow> label_env \<Rightarrow> 's evaluator \<Rightarrow> bool \<Rightarrow> ('s evaluator \<times> 's auth_wire) proc" where
  "evaluator_constant L W ev value =
     (let share = share_constant L False (ev_delta ev)
      in read_label W (\<lambda>wirelabel. Done (ev, \<lparr>masked_value = value, wire_label = wirelabel, auth_share = share\<rparr>)))"

definition evaluator_backend :: "('s, 't, 'g) auth_lib \<Rightarrow> label_env \<Rightarrow> ('s evaluator, 's auth_wire) backend" where
  "evaluator_backend L W =
     \<lparr>be_and = evaluator_and L W, be_xor = evaluator_xor L, be_negate = evaluator_negate, be_constant = evaluator_constant L W\<rparr>"

definition evaluator_encode_many ::
  "('s, 't, 'g) auth_lib \<Rightarrow> label_env \<Rightarrow> 's evaluator \<Rightarrow> nat list \<Rightarrow> nat \<Rightarrow> ('s evaluator \<times> 's auth_wire list) proc" where
  "evaluator_encode_many L W ev values moduli =
     (if length values \<noteq> moduli then Error ''assertion failed''
      else pbind (ev_next_auth_shares ev moduli) (\<lambda>(ev, my_auth_shares).
        pbind (open_their_shares L (ev_delta ev) my_auth_shares) (\<lambda>their_bits.
        pbind (bit_values ''Invalid value, must be boolean'' values) (\<lambda>vals.
        let my_masked_values = map (\<lambda>(theirs, mine, v). (v \<noteq> share_bit L mine) \<noteq> theirs) (zip their_bits (zip my_auth_shares vals))
        in pbind (write_each (bit_bytes W) my_masked_values) (\<lambda>_.
           pbind (receive_wirelabels W my_masked_values my_auth_shares) (\<lambda>ws. Done (ev, ws)))))))"

definition evaluator_receive_many ::
  "('s, 't, 'g) auth_lib \<Rightarrow> label_env \<Rightarrow> 's evaluator \<Rightarrow> nat \<Rightarrow> ('s evaluator \<times> 's auth_wire list) proc" where
  "evaluator_receive_many L W ev moduli =
     pbind (ev_next_auth_shares ev moduli) (\<lambda>(ev, my_auth_shares).
     pbind (open_my_shares L my_auth_shares) (\<lambda>_.
     pbind (read_bits W moduli) (\<lambda>masked_values.
     pbind (receive_wirelabels W masked_values my_auth_shares) (\<lambda>ws. Done (ev, ws)))))"

definition evaluator_outputs :: "('s, 't, 'g) auth_lib \<Rightarrow> 's evaluator \<Rightarrow> 's auth_wire list \<Rightarrow> bool list option proc" where
  "evaluator_outputs L ev xs =
     pbind (open_their_shares L (ev_delta ev) (map auth_share xs)) (\<lambda>masks.
     Done (Some (map (\<lambda>(mask, out). (mask \<noteq> masked_value out) \<noteq> share_bit L (auth_share out)) (zip masks xs))))"

definition evaluator_output :: "('s, 't, 'g) auth_lib \<Rightarrow> 's evaluator \<Rightarrow> 's auth_wire \<Rightarrow> bool option proc" where
  "evaluator_output L ev x = pbind (evaluator_outputs L ev [x]) (\<lambda>out. Done (map_option (\<lambda>xs. xs ! 0) out))"

section \<open>A run\<close>

text \<open>\<open>wrk17_notary_garbler\<close>: with the OT material of a session, or without.\<close>

definition wrk17_notary_garbler ::
  "('s, 't, 'g) auth_lib \<Rightarrow> label_env \<Rightarrow> call_circuit \<Rightarrow> 'g option \<Rightarrow> ('g \<times> 's garbler) proc" where
  "wrk17_notary_garbler L W circ session =
     (case session of Some g \<Rightarrow> garbler_new_with_and_generator L W circ g | None \<Rightarrow> garbler_new L W circ)"

definition wrk17_client_evaluator ::
  "('s, 't, 'g) auth_lib \<Rightarrow> label_env \<Rightarrow> call_circuit \<Rightarrow> 'g option \<Rightarrow> ('g \<times> 's evaluator) proc" where
  "wrk17_client_evaluator L W circ session =
     (case session of Some g \<Rightarrow> evaluator_new_with_and_generator L W circ g | None \<Rightarrow> evaluator_new L W circ)"

definition garbler_run ::
  "('s, 't, 'g) auth_lib \<Rightarrow> label_env \<Rightarrow> call_circuit \<Rightarrow> nat \<Rightarrow> nat \<Rightarrow> nat list \<Rightarrow> 'g option \<Rightarrow> 'g proc" where
  "garbler_run L W circ n_gb n_ev gb_vals session =
     pbind (wrk17_notary_garbler L W circ session) (\<lambda>(g, gb).
     pbind (garbler_encode_many L W gb gb_vals n_gb) (\<lambda>(gb, mine).
     pbind (garbler_receive_many L W gb n_ev) (\<lambda>(gb, theirs).
     pbind (execute_circuit (garbler_backend L W) circ gb (mine @ theirs)) (\<lambda>(gb, out).
     pbind (garbler_outputs L out) (\<lambda>_. Done g)))))"

definition evaluator_run ::
  "('s, 't, 'g) auth_lib \<Rightarrow> label_env \<Rightarrow> call_circuit \<Rightarrow> nat \<Rightarrow> nat \<Rightarrow> nat list \<Rightarrow> 'g option \<Rightarrow> ('g \<times> bool list) proc" where
  "evaluator_run L W circ n_gb n_ev ev_vals session =
     pbind (wrk17_client_evaluator L W circ session) (\<lambda>(g, ev).
     pbind (evaluator_receive_many L W ev n_gb) (\<lambda>(ev, notary).
     pbind (evaluator_encode_many L W ev ev_vals n_ev) (\<lambda>(ev, mine).
     pbind (execute_circuit (evaluator_backend L W) circ ev (notary @ mine)) (\<lambda>(ev, out).
     pbind (evaluator_outputs L ev out) (\<lambda>vals.
     case vals of None \<Rightarrow> Error ''WRK17 evaluator receives circuit output'' | Some zs \<Rightarrow> Done (g, zs))))))"

end
