(* ===== verification/Wrk17_Correct.thy ===== *)
theory Wrk17_Correct
  imports Wrk17
begin

text \<open>
  Correctness of the garbling protocol of the theory \<open>Wrk17\<close>. The library of authenticated shares is
  bound to laws (\<open>auth_ok\<close>): shares are linear, the two shares of a bit satisfy the MAC equation, opening
  a share gives its bit, the known triples are the products of the given bits.

  The lemmas carry the invariant of a wire through every call: the evaluator's label is the garbler's
  plus the masked value times the offset, and the masked value is the value xor the mask that the two
  authenticated shares stand for. The preprocessing gives products of the right masks, the label and
  the validation bit of an AND gate come out right, and a run gives the evaluator the outputs of the
  circuit on both inputs.
\<close>

section \<open>The laws of the library\<close>

record ('s, 't, 'g) parties =
  gb_lib :: "('s, 't, 'g) auth_lib"
  ev_lib :: "('s, 't, 'g) auth_lib"
  labels :: label_env
  same_session :: "'g \<Rightarrow> 'g \<Rightarrow> bool"
  triple_ok :: "'t \<Rightarrow> 't \<Rightarrow> bool"

text \<open>The bit two shares stand for, and the MAC equations of both halves.\<close>

definition shared_bit :: "('s, 't, 'g) parties \<Rightarrow> 's \<Rightarrow> 's \<Rightarrow> bool" where
  "shared_bit P s t = (share_bit (gb_lib P) s \<noteq> share_bit (ev_lib P) t)"

definition paired :: "('s, 't, 'g) parties \<Rightarrow> label \<Rightarrow> label \<Rightarrow> 's \<Rightarrow> 's \<Rightarrow> bool" where
  "paired P dg de s t \<longleftrightarrow>
     share_mac (ev_lib P) t = share_key (gb_lib P) s XOR gate_mul (share_bit (ev_lib P) t) dg \<and>
     share_mac (gb_lib P) s = share_key (ev_lib P) t XOR gate_mul (share_bit (gb_lib P) s) de"

abbreviation "all_paired P dg de \<equiv> list_all2 (paired P dg de)"

abbreviation "shared_bits P \<equiv> map2 (shared_bit P)"

definition labels_ok :: "label_env \<Rightarrow> bool" where
  "labels_ok W \<longleftrightarrow>
     (\<forall>x. length (label_bytes W x) = 16 \<and> bytes_label W (label_bytes W x) = x) \<and>
     (\<forall>b. length (bit_bytes W b) = 1 \<and> bytes_bit W (bit_bytes W b) = Some b)"

definition linear :: "('s, 't, 'g) auth_lib \<Rightarrow> bool" where
  "linear L \<longleftrightarrow>
     (\<forall>s t. share_bit L (share_xor L s t) = (share_bit L s \<noteq> share_bit L t) \<and>
            share_mac L (share_xor L s t) = share_mac L s XOR share_mac L t \<and>
            share_key L (share_xor L s t) = share_key L s XOR share_key L t) \<and>
     (\<forall>s b. share_bit L (share_mul L s b) = (share_bit L s \<and> b) \<and>
            share_mac L (share_mul L s b) = gate_mul b (share_mac L s) \<and>
            share_key L (share_mul L s b) = gate_mul b (share_key L s))"

definition constants_ok :: "('s, 't, 'g) parties \<Rightarrow> bool" where
  "constants_ok P \<longleftrightarrow>
     (\<forall>b dg de. paired P dg de (share_constant (gb_lib P) b dg) (share_constant (ev_lib P) b de) \<and>
        shared_bit P (share_constant (gb_lib P) b dg) (share_constant (ev_lib P) b de) = b)"

definition openings_ok :: "('s, 't, 'g) parties \<Rightarrow> bool" where
  "openings_ok P \<longleftrightarrow>
     (\<forall>dg de ss ts. all_paired P dg de ss ts \<longrightarrow>
        delivers (open_shares (gb_lib P) dg ss) (open_shares (ev_lib P) de ts)
          (\<lambda>x y. x = shared_bits P ss ts \<and> y = shared_bits P ss ts) \<and>
        delivers (open_their_shares (gb_lib P) dg ss) (open_my_shares (ev_lib P) ts) (\<lambda>x _. x = map (share_bit (ev_lib P)) ts) \<and>
        delivers (open_my_shares (gb_lib P) ss) (open_their_shares (ev_lib P) de ts) (\<lambda>_ y. y = map (share_bit (gb_lib P)) ss))"

text \<open>The generators of both parties, from one bootstrap, after the same requests.\<close>

definition generators_paired :: "('s, 't, 'g) parties \<Rightarrow> label \<Rightarrow> label \<Rightarrow> 'g \<Rightarrow> 'g \<Rightarrow> bool" where
  "generators_paired P dg de g h \<longleftrightarrow>
     same_session P g h \<and> generator_delta (gb_lib P) g = dg \<and> generator_delta (ev_lib P) h = de \<and> lsb dg"

definition generators_ok :: "('s, 't, 'g) parties \<Rightarrow> bool" where
  "generators_ok P \<longleftrightarrow>
     delivers (generator_new (gb_lib P)) (generator_new (ev_lib P)) (\<lambda>g h. \<exists>dg de. generators_paired P dg de g h) \<and>
     delivers (valid_delta (gb_lib P)) (valid_delta (ev_lib P))
       (\<lambda>dg de. delivers (generator_with_delta (gb_lib P) dg) (generator_with_delta (ev_lib P) de) (generators_paired P dg de)) \<and>
     (\<forall>dg de g h. generators_paired P dg de g h \<longrightarrow>
        (\<forall>n. delivers (generate_triples (gb_lib P) g n) (generate_triples (ev_lib P) h n)
           (\<lambda>(g, x) (h, y). generators_paired P dg de g h \<and> length x = n \<and> list_all2 (triple_ok P) x y)) \<and>
        (\<forall>n. delivers (generate_shares (gb_lib P) g n) (generate_shares (ev_lib P) h n)
           (\<lambda>(g, x) (h, y). generators_paired P dg de g h \<and> length x = n \<and> all_paired P dg de x y)) \<and>
        (\<forall>x y ls ls' rs rs'. list_all2 (triple_ok P) x y \<longrightarrow> all_paired P dg de ls ls' \<longrightarrow> all_paired P dg de rs rs' \<longrightarrow>
           length ls = length x \<longrightarrow> length rs = length x \<longrightarrow>
           delivers (known_triples (gb_lib P) g x ls rs) (known_triples (ev_lib P) h y ls' rs')
             (\<lambda>(g, ks) (h, ks'). generators_paired P dg de g h \<and> all_paired P dg de ks ks' \<and>
                shared_bits P ks ks' = map2 (\<and>) (shared_bits P ls ls') (shared_bits P rs rs'))))"

definition auth_ok :: "('s, 't, 'g) parties \<Rightarrow> bool" where
  "auth_ok P \<longleftrightarrow> labels_ok (labels P) \<and> linear (gb_lib P) \<and> linear (ev_lib P) \<and> constants_ok P \<and> openings_ok P \<and> generators_ok P"

section \<open>The channel\<close>

lemma delivers_n_local:
  assumes "delivers p (Done ()) (\<lambda>x _. Q x)" and "\<And>x. Q x \<Longrightarrow> delivers (f x) q R"
  shows "delivers (pbind p f) q R"
  using delivers_pbind [of p "Done ()" "\<lambda>x _. Q x" f "\<lambda>_. q" R] assms by simp

lemma labels_okD:
  assumes "labels_ok W"
  shows "length (label_bytes W x) = 16" "bytes_label W (label_bytes W x) = x"
    "length (bit_bytes W b) = 1" "bytes_bit W (bit_bytes W b) = Some b"
  using assms by (simp_all add: labels_ok_def)

text \<open>A label or a bit from one party to the other.\<close>

lemma delivers_label:
  assumes "labels_ok W"
  shows "delivers p (g x) R \<Longrightarrow> delivers (Send (label_bytes W x) p) (read_label W g) R"
    and "delivers p (g' b) R \<Longrightarrow> delivers (Send (bit_bytes W b) p) (read_bit W g') R"
    and "delivers (f b) q R \<Longrightarrow> delivers (read_bit W f) (Send (bit_bytes W b) q) R"
  by (simp_all add: read_label_def read_bit_def delivers_n_send delivers_c_send labels_okD [OF assms])

lemma read_bind [simp]:
  "pbind (read_label W f) k = read_label W (\<lambda>x. pbind (f x) k)"
  "pbind (read_bit W f') k = read_bit W (\<lambda>x. pbind (f' x) k)"
  by (auto simp: read_label_def read_bit_def fun_eq_iff split: option.splits)

lemma delivers_labels:
  "labels_ok W \<Longrightarrow> delivers (write_each (\<lambda>x. label_bytes W (f x)) xs) (read_labels W (length xs)) (\<lambda>_ ys. ys = map f xs)"
proof (induction xs)
  case (Cons x xs)
  have "delivers (pbind (write_each (\<lambda>x. label_bytes W (f x)) xs) Done)
      (pbind (read_labels W (length xs)) (\<lambda>ys. Done (f x # ys))) (\<lambda>_ ys. ys = map f (x # xs))"
    by (rule delivers_pbind [OF Cons.IH [OF Cons.prems]]) (simp add: delivers_Done)
  with Cons.prems show ?case by (simp add: delivers_label)
qed (simp add: delivers_Done)

lemma delivers_bits:
  "labels_ok W \<Longrightarrow> delivers (write_each (bit_bytes W) xs) (read_bits W (length xs)) (\<lambda>_ ys. ys = xs)"
proof (induction xs)
  case (Cons x xs)
  have "delivers (pbind (write_each (bit_bytes W) xs) Done) (pbind (read_bits W (length xs)) (\<lambda>ys. Done (x # ys))) (\<lambda>_ ys. ys = x # xs)"
    by (rule delivers_pbind [OF Cons.IH [OF Cons.prems]]) (simp add: delivers_Done)
  with Cons.prems show ?case by (simp add: delivers_label)
qed (simp add: delivers_Done)

lemma delivers_bits_back:
  "labels_ok W \<Longrightarrow> delivers (read_bits W (length xs)) (write_each (bit_bytes W) xs) (\<lambda>ys _. ys = xs)"
proof (induction xs)
  case (Cons x xs)
  have "delivers (pbind (read_bits W (length xs)) (\<lambda>ys. Done (x # ys))) (pbind (write_each (bit_bytes W) xs) Done) (\<lambda>ys _. ys = x # xs)"
    by (rule delivers_pbind [OF Cons.IH [OF Cons.prems]]) (simp add: delivers_Done)
  with Cons.prems show ?case by (simp add: delivers_label)
qed (simp add: delivers_Done)

lemma rand_labels: "delivers (rand_labels W n) (Done ()) (\<lambda>xs _. length xs = n)"
proof (induction n)
  case (Suc n)
  show ?case
    unfolding rand_labels.simps
    by (rule delivers_n_random, rule delivers_n_local [where Q = "\<lambda>xs. length xs = n"]) (simp_all add: Suc delivers_Done)
qed (simp add: delivers_Done)

section \<open>The masks of the wires\<close>

text \<open>
  The mask of every wire, from the masks of the shares that AND gates take, and the masks of the
  inputs of the AND gates.
\<close>

fun call_mask :: "bool list \<Rightarrow> bool list \<Rightarrow> call \<Rightarrow> bool" where
  "call_mask fresh ls (Call_And i j) = hd fresh"
| "call_mask fresh ls (Call_Xor i j) = (ls ! i \<noteq> ls ! j)"
| "call_mask fresh ls (Call_Negate i) = ls ! i"
| "call_mask fresh ls (Call_Constant v) = False"

fun takes_share :: "call \<Rightarrow> bool" where
  "takes_share (Call_And i j) = True"
| "takes_share _ = False"

definition left_over :: "call \<Rightarrow> 'x list \<Rightarrow> 'x list" where
  "left_over c xs = (if takes_share c then tl xs else xs)"

fun and_masks :: "bool list \<Rightarrow> call \<Rightarrow> (bool \<times> bool) list" where
  "and_masks ls (Call_And i j) = [(ls ! i, ls ! j)]"
| "and_masks ls _ = []"

primrec mask_pairs :: "call list \<Rightarrow> bool list \<Rightarrow> bool list \<Rightarrow> (bool \<times> bool) list" where
  "mask_pairs [] fresh ls = []"
| "mask_pairs (c # cs) fresh ls = and_masks ls c @ mask_pairs cs (left_over c fresh) (ls @ [call_mask fresh ls c])"

fun wf_call :: "nat \<Rightarrow> call \<Rightarrow> bool" where
  "wf_call n (Call_And i j) \<longleftrightarrow> i < n \<and> j < n"
| "wf_call n (Call_Xor i j) \<longleftrightarrow> i < n \<and> j < n"
| "wf_call n (Call_Negate i) \<longleftrightarrow> i < n"
| "wf_call n (Call_Constant v) \<longleftrightarrow> True"

primrec wf_calls :: "nat \<Rightarrow> call list \<Rightarrow> bool" where
  "wf_calls n [] \<longleftrightarrow> True"
| "wf_calls n (c # cs) \<longleftrightarrow> wf_call n c \<and> wf_calls (Suc n) cs"

lemma nands_Cons [simp]: "nands [] = 0" "nands (c # cs) = of_bool (takes_share c) + nands cs"
  by (cases c; simp add: nands_def)+

lemma length_mask_pairs: "length (mask_pairs cs fresh ls) = nands cs"
proof (induction cs arbitrary: fresh ls)
  case (Cons c cs)
  then show ?case by (cases c) simp_all
qed simp

section \<open>Shares of lists of bits\<close>

definition shares_bit :: "('s, 't, 'g) parties \<Rightarrow> label \<Rightarrow> label \<Rightarrow> bool \<Rightarrow> 's \<Rightarrow> 's \<Rightarrow> bool" where
  "shares_bit P dg de l s t \<longleftrightarrow> paired P dg de s t \<and> shared_bit P s t = l"

definition sharing :: "('s, 't, 'g) parties \<Rightarrow> label \<Rightarrow> label \<Rightarrow> bool list \<Rightarrow> 's list \<Rightarrow> 's list \<Rightarrow> bool" where
  "sharing P dg de ls ss ts \<longleftrightarrow> all_paired P dg de ss ts \<and> shared_bits P ss ts = ls"

lemma sharing_lengths: "sharing P dg de ls ss ts \<Longrightarrow> length ss = length ls \<and> length ts = length ls"
  by (auto simp: sharing_def dest: list_all2_lengthD)

lemma sharing_nth: "sharing P dg de ls ss ts \<Longrightarrow> i < length ls \<Longrightarrow> shares_bit P dg de (ls ! i) (ss ! i) (ts ! i)"
  by (auto simp: sharing_def shares_bit_def list_all2_conv_all_nth)

lemma sharing_Nil [simp]: "sharing P dg de [] ss ts \<longleftrightarrow> ss = [] \<and> ts = []"
  by (auto simp: sharing_def dest: list_all2_lengthD)

lemma sharing_append:
  "sharing P dg de ls ss ts \<Longrightarrow> sharing P dg de ms us vs \<Longrightarrow> sharing P dg de (ls @ ms) (ss @ us) (ts @ vs)"
  by (auto simp: sharing_def list_all2_appendI dest: list_all2_lengthD)

lemma sharing_snoc:
  "sharing P dg de ls ss ts \<Longrightarrow> shares_bit P dg de l s t \<Longrightarrow> sharing P dg de (ls @ [l]) (ss @ [s]) (ts @ [t])"
  by (rule sharing_append) (auto simp: sharing_def shares_bit_def)

lemma sharing_next:
  assumes "sharing P dg de (l # ls) (drop i ss) (drop j ts)"
  shows "i < length ss" "j < length ts" "shares_bit P dg de l (ss ! i) (ts ! j)" "sharing P dg de ls (drop (Suc i) ss) (drop (Suc j) ts)"
proof -
  obtain s ss' where s: "drop i ss = s # ss'" using sharing_lengths [OF assms] by (cases "drop i ss") auto
  obtain t ts' where t: "drop j ts = t # ts'" using sharing_lengths [OF assms] by (cases "drop j ts") auto
  show l: "i < length ss" "j < length ts" using s t by (auto simp: not_le [symmetric] simp del: drop_eq_Nil)
  have "s = ss ! i" "ss' = drop (Suc i) ss" "t = ts ! j" "ts' = drop (Suc j) ts"
    using s t Cons_nth_drop_Suc [OF l(1)] Cons_nth_drop_Suc [OF l(2)] by auto
  with assms s t show "shares_bit P dg de l (ss ! i) (ts ! j)" "sharing P dg de ls (drop (Suc i) ss) (drop (Suc j) ts)"
    by (auto simp: sharing_def shares_bit_def)
qed

lemma gate_mul_xor: "gate_mul (a = (\<not> b)) d = gate_mul a d XOR gate_mul b d"
  by (cases a; cases b) (simp_all add: gate_mul_def)

lemma linear_simps:
  assumes "linear L"
  shows "share_bit L (share_xor L s t) = (share_bit L s \<noteq> share_bit L t)"
    "share_mac L (share_xor L s t) = share_mac L s XOR share_mac L t"
    "share_key L (share_xor L s t) = share_key L s XOR share_key L t"
    "share_bit L (share_mul L s b) = (share_bit L s \<and> b)"
    "share_mac L (share_mul L s b) = gate_mul b (share_mac L s)"
    "share_key L (share_mul L s b) = gate_mul b (share_key L s)"
  using assms by (simp_all add: linear_def)

lemma shares_bit_xor:
  assumes "linear (gb_lib P)" "linear (ev_lib P)" "shares_bit P dg de l s t" "shares_bit P dg de m u v"
  shows "shares_bit P dg de (l \<noteq> m) (share_xor (gb_lib P) s u) (share_xor (ev_lib P) t v)"
proof -
  note [simp] = linear_simps [OF assms(1)] linear_simps [OF assms(2)]
  have "shared_bit P (share_xor (gb_lib P) s u) (share_xor (ev_lib P) t v) = (shared_bit P s t \<noteq> shared_bit P u v)"
    by (auto simp: shared_bit_def)
  with assms(3,4) show ?thesis
    by (simp add: shares_bit_def paired_def gate_mul_xor ac_simps)
qed

lemma shares_bit_mul:
  assumes "linear (gb_lib P)" "linear (ev_lib P)" "shares_bit P dg de l s t"
  shows "shares_bit P dg de (l \<and> b) (share_mul (gb_lib P) s b) (share_mul (ev_lib P) t b)"
  using assms(3) linear_simps [OF assms(1)] linear_simps [OF assms(2)]
  by (auto simp: shares_bit_def paired_def shared_bit_def gate_mul_def)

lemma shares_bit_constant:
  "constants_ok P \<Longrightarrow> shares_bit P dg de b (share_constant (gb_lib P) b dg) (share_constant (ev_lib P) b de)"
  by (simp add: constants_ok_def shares_bit_def)

section \<open>Preprocessing\<close>

definition wp_ok ::
  "('s, 't, 'g) parties \<Rightarrow> label \<Rightarrow> label \<Rightarrow> bool list \<Rightarrow> (bool \<times> bool) list \<Rightarrow> 's wire_preprocessor \<Rightarrow> 's wire_preprocessor \<Rightarrow> bool" where
  "wp_ok P dg de fresh prs p q \<longleftrightarrow>
     wp_delta p = dg \<and> wp_delta q = de \<and>
     sharing P dg de fresh (drop (wp_auth_shares_index p) (wp_auth_shares p)) (drop (wp_auth_shares_index q) (wp_auth_shares q)) \<and>
     sharing P dg de (map fst prs) (wp_and_gate_left_inputs p) (wp_and_gate_left_inputs q) \<and>
     sharing P dg de (map snd prs) (wp_and_gate_right_inputs p) (wp_and_gate_right_inputs q)"

lemma wp_next:
  assumes "wp_ok P dg de (l # fresh) prs p q"
  shows "delivers (wp_next_auth_share p) (wp_next_auth_share q)
    (\<lambda>(p, s) (q, t). wp_ok P dg de fresh prs p q \<and> shares_bit P dg de l s t)"
proof -
  have s: "sharing P dg de (l # fresh) (drop (wp_auth_shares_index p) (wp_auth_shares p)) (drop (wp_auth_shares_index q) (wp_auth_shares q))"
    using assms by (simp add: wp_ok_def)
  from assms sharing_next [OF s] show ?thesis
    by (simp add: wp_next_auth_share_def in_range_def wp_ok_def delivers_Done)
qed

lemma wp_receive_many:
  assumes "wp_ok P dg de (ls @ fresh) prs p q" and "length ls = n"
  shows "delivers (wp_receive_many p n) (wp_receive_many q n)
    (\<lambda>(p, ss) (q, ts). wp_ok P dg de fresh prs p q \<and> sharing P dg de ls ss ts)"
  using assms
proof (induction n arbitrary: ls fresh)
  case (Suc n)
  then obtain ms l where ls: "ls = ms @ [l]" "length ms = n" by (cases ls rule: rev_cases) auto
  show ?case
    unfolding wp_receive_many.simps
  proof (rule delivers_pbind [OF Suc.IH [of ms "l # fresh"]], goal_cases)
    case (3 x y)
    then show ?case
      by (cases x; cases y) (auto intro!: delivers_pbind [OF wp_next] delivers_Done simp: ls sharing_snoc)
  qed (use Suc.prems ls in auto)
qed (auto intro: delivers_Done)

lemma wp_call:
  assumes ok: "auth_ok P" "wp_ok P dg de fresh prs p q" and ws: "sharing P dg de ls ss ts"
    and wf: "wf_call (length ls) c" "of_bool (takes_share c) \<le> length fresh"
  shows "delivers (call_step (wp_backend (gb_lib P)) c p ss) (call_step (wp_backend (ev_lib P)) c q ts)
    (\<lambda>(p, s) (q, t). wp_ok P dg de (left_over c fresh) (prs @ and_masks ls c) p q \<and>
      shares_bit P dg de (call_mask fresh ls c) s t)"
proof (cases c)
  case (Call_And i j)
  then obtain l fresh' where fresh: "fresh = l # fresh'" using wf(2) by (cases fresh) auto
  have ij: "i < length ls" "j < length ls" using wf(1) Call_And by simp_all
  let ?p = "p\<lparr>wp_and_gate_left_inputs := wp_and_gate_left_inputs p @ [ss ! i], wp_and_gate_right_inputs := wp_and_gate_right_inputs p @ [ss ! j]\<rparr>"
  let ?q = "q\<lparr>wp_and_gate_left_inputs := wp_and_gate_left_inputs q @ [ts ! i], wp_and_gate_right_inputs := wp_and_gate_right_inputs q @ [ts ! j]\<rparr>"
  have "wp_ok P dg de (l # fresh') (prs @ [(ls ! i, ls ! j)]) ?p ?q"
    using ok(2) sharing_nth [OF ws ij(1)] sharing_nth [OF ws ij(2)] by (simp add: wp_ok_def fresh sharing_snoc)
  from wp_next [OF this] show ?thesis
    using sharing_lengths [OF ws] ij by (simp add: Call_And wp_backend_def wp_and_def in_range_def fresh left_over_def)
next
  case (Call_Xor i j)
  with wf have ij: "i < length ls" "j < length ls" by simp_all
  then have "shares_bit P dg de (ls ! i \<noteq> ls ! j) (share_xor (gb_lib P) (ss ! i) (ss ! j)) (share_xor (ev_lib P) (ts ! i) (ts ! j))"
    using ok(1) sharing_nth [OF ws] by (intro shares_bit_xor) (simp_all add: auth_ok_def)
  with Call_Xor ok ij sharing_lengths [OF ws] show ?thesis
    by (simp add: wp_backend_def in_range_def left_over_def delivers_Done)
next
  case (Call_Negate i)
  with ok ws wf show ?thesis
    using sharing_lengths [OF ws] sharing_nth [OF ws]
    by (auto simp: wp_backend_def in_range_def left_over_def intro!: delivers_Done)
next
  case (Call_Constant v)
  with ok ws wf show ?thesis
    by (auto simp: wp_backend_def left_over_def auth_ok_def wp_ok_def intro!: delivers_Done shares_bit_constant)
qed

lemma wp_execute:
  assumes "auth_ok P" "wp_ok P dg de fresh prs p q" "sharing P dg de ls ss ts"
    and "wf_calls (length ls) cs" "nands cs \<le> length fresh"
  shows "delivers (execute (wp_backend (gb_lib P)) cs p ss) (execute (wp_backend (ev_lib P)) cs q ts)
    (\<lambda>(p, ss) (q, ts). (\<exists>fresh'. wp_ok P dg de fresh' (prs @ mask_pairs cs fresh ls) p q) \<and>
       length ss = length ls + length cs \<and> length ts = length ls + length cs)"
  using assms(2-)
proof (induction cs arbitrary: p q ss ts ls fresh prs)
  case Nil
  then show ?case by (auto intro!: delivers_Done dest: sharing_lengths)
next
  case (Cons c cs)
  have n: "of_bool (takes_share c) \<le> length fresh" "nands cs \<le> length (left_over c fresh)"
    using Cons.prems(4) by (auto simp: left_over_def)
  show ?case
    unfolding execute.simps
  proof (rule delivers_pbind [OF wp_call [OF assms(1) Cons.prems(1,2) _ n(1)]], goal_cases)
    case 1
    then show ?case using Cons.prems by simp
  next
    case (2 x y)
    obtain p' s q' t where x: "x = (p', s)" and y: "y = (q', t)" by (cases x; cases y)
    have h: "wp_ok P dg de (left_over c fresh) (prs @ and_masks ls c) p' q'" "shares_bit P dg de (call_mask fresh ls c) s t"
      using 2 x y by simp_all
    have "delivers (execute (wp_backend (gb_lib P)) cs p' (ss @ [s])) (execute (wp_backend (ev_lib P)) cs q' (ts @ [t]))
        (\<lambda>(p, ss) (q, ts). (\<exists>fresh'. wp_ok P dg de fresh' ((prs @ and_masks ls c) @
            mask_pairs cs (left_over c fresh) (ls @ [call_mask fresh ls c])) p q) \<and>
          length ss = length (ls @ [call_mask fresh ls c]) + length cs \<and> length ts = length (ls @ [call_mask fresh ls c]) + length cs)"
      by (rule Cons.IH [OF h(1) sharing_snoc [OF Cons.prems(2) h(2)] _ n(2)]) (use Cons.prems in simp)
    then show ?case by (simp add: x y)
  qed
qed

definition wf_circuit :: "call_circuit \<Rightarrow> bool" where
  "wf_circuit c \<longleftrightarrow> wf_calls (cc_inputs c) (cc_calls c) \<and>
     list_all (\<lambda>i. i < cc_inputs c + length (cc_calls c)) (cc_outputs c)"

lemma wf_circuitD:
  assumes "wf_circuit c"
  shows "wf_calls (cc_inputs c) (cc_calls c)" "n = cc_inputs c + length (cc_calls c) \<Longrightarrow> list_all (\<lambda>i. i < n) (cc_outputs c)"
  using assms by (simp_all add: wf_circuit_def)

text \<open>What the preprocessing leaves: shares of masks, and of the products of the masks of the AND inputs.\<close>

definition preprocessed ::
  "('s, 't, 'g) parties \<Rightarrow> label \<Rightarrow> label \<Rightarrow> call_circuit \<Rightarrow> 's list \<Rightarrow> 's list \<Rightarrow> 's list \<Rightarrow> 's list \<Rightarrow> bool" where
  "preprocessed P dg de c ss ks ts ks' \<longleftrightarrow>
     (\<exists>ls fresh. length ls = cc_inputs c \<and> nands (cc_calls c) \<le> length fresh \<and> sharing P dg de (ls @ fresh) ss ts \<and>
        sharing P dg de (map (\<lambda>(a, b). a \<and> b) (mask_pairs (cc_calls c) fresh ls)) ks ks')"

lemma generators_okD:
  assumes "auth_ok P" and "generators_paired P dg de g h"
  shows "delivers (generate_triples (gb_lib P) g n) (generate_triples (ev_lib P) h n)
           (\<lambda>(g, x) (h, y). generators_paired P dg de g h \<and> length x = n \<and> list_all2 (triple_ok P) x y)"
    and "delivers (generate_shares (gb_lib P) g n) (generate_shares (ev_lib P) h n)
           (\<lambda>(g, x) (h, y). generators_paired P dg de g h \<and> length x = n \<and> all_paired P dg de x y)"
    and "list_all2 (triple_ok P) x y \<Longrightarrow> all_paired P dg de ls ls' \<Longrightarrow> all_paired P dg de rs rs' \<Longrightarrow>
           length ls = length x \<Longrightarrow> length rs = length x \<Longrightarrow>
           delivers (known_triples (gb_lib P) g x ls rs) (known_triples (ev_lib P) h y ls' rs')
             (\<lambda>(g, ks) (h, ks'). generators_paired P dg de g h \<and> all_paired P dg de ks ks' \<and>
                shared_bits P ks ks' = map2 (\<and>) (shared_bits P ls ls') (shared_bits P rs rs'))"
  using assms by (simp_all add: auth_ok_def generators_ok_def)

lemma map2_fst_snd: "map2 (\<and>) (map fst prs) (map snd prs) = map (\<lambda>(a, b). a \<and> b) prs"
  by (induction prs) auto

lemma known_delivers:
  assumes "auth_ok P" and "generators_paired P dg de g h" and "list_all2 (triple_ok P) x y"
    and "sharing P dg de (map fst prs) ls ls'" and "sharing P dg de (map snd prs) rs rs'" and "length prs = length x"
  shows "delivers (known_triples (gb_lib P) g x ls rs) (known_triples (ev_lib P) h y ls' rs')
    (\<lambda>(g, ks) (h, ks'). generators_paired P dg de g h \<and> sharing P dg de (map (\<lambda>(a, b). a \<and> b) prs) ks ks')"
proof (rule delivers_mono [OF generators_okD(3) [OF assms(1-3)]])
  show "all_paired P dg de ls ls'" "all_paired P dg de rs rs'" using assms(4,5) by (auto simp: sharing_def)
  show "length ls = length x" "length rs = length x" using assms(4-6) by (auto dest: sharing_lengths)
qed (use assms(4,5) in \<open>auto simp: sharing_def map2_fst_snd\<close>)

lemma delivers_bind2:
  assumes "delivers p q (\<lambda>(a, x) (b, y). Q a x b y)" and "\<And>a x b y. Q a x b y \<Longrightarrow> delivers (f a x) (g b y) R"
  shows "delivers (pbind p (\<lambda>(a, x). f a x)) (pbind q (\<lambda>(b, y). g b y)) R"
  using assms(1) by (rule delivers_pbind) (auto intro: assms(2))

lemma wp_execute_circuit:
  assumes "auth_ok P" "wp_ok P dg de fresh prs p q" "sharing P dg de ls ss ts"
    and "wf_circuit c" "length ls = cc_inputs c" "nands (cc_calls c) \<le> length fresh"
  shows "delivers (execute_circuit (wp_backend (gb_lib P)) c p ss) (execute_circuit (wp_backend (ev_lib P)) c q ts)
    (\<lambda>(p, _) (q, _). \<exists>fresh'. wp_ok P dg de fresh' (prs @ mask_pairs (cc_calls c) fresh ls) p q)"
  unfolding execute_circuit_def
proof (rule delivers_bind2 [OF wp_execute [OF assms(1-3) _ assms(6)]], goal_cases)
  case 1
  show ?case using assms(4,5) by (simp add: wf_circuitD)
next
  case (2 p us q vs)
  then have "list_all (\<lambda>i. i < length us) (cc_outputs c)" "list_all (\<lambda>i. i < length vs) (cc_outputs c)"
    using wf_circuitD(2) [OF assms(4)] assms(5) by simp_all
  with 2 show ?case by (auto intro!: delivers_Done)
qed

lemma preprocess_known:
  assumes ok: "auth_ok P" and gen: "generators_paired P dg de g h" and wf: "wf_circuit c"
    and ss: "length ss = nands (cc_calls c) + cc_inputs c + n" "all_paired P dg de ss ts"
    and x: "nands (cc_calls c) \<le> length x" "list_all2 (triple_ok P) x y"
  defines "tail \<equiv> \<lambda>L g ss x. pbind (wp_receive_many (wp_new ss (generator_delta L g)) (cc_inputs c)) (\<lambda>(wp, inputs).
      pbind (execute_circuit (wp_backend L) c wp inputs) (\<lambda>(wp, _).
      if nands (cc_calls c) > 0 then
        (if nands (cc_calls c) \<le> length x then
           pbind (known_triples L g (take (nands (cc_calls c)) x) (wp_and_gate_left_inputs wp) (wp_and_gate_right_inputs wp))
             (\<lambda>(g, known). Done (g, ss, known))
         else Error ''index out of bounds'')
      else Done (g, ss, [])))"
  shows "delivers (tail (gb_lib P) g ss x) (tail (ev_lib P) h ts y)
    (\<lambda>(g, ss, ks) (h, ts, ks'). generators_paired P dg de g h \<and> preprocessed P dg de c ss ks ts ks')"
proof -
  define ls where "ls = take (cc_inputs c) (shared_bits P ss ts)"
  define fresh where "fresh = drop (cc_inputs c) (shared_bits P ss ts)"
  have len: "length ls = cc_inputs c" "nands (cc_calls c) \<le> length fresh"
    using ss by (auto simp: ls_def fresh_def dest: list_all2_lengthD)
  have s: "sharing P dg de (ls @ fresh) ss ts" using ss by (simp add: sharing_def ls_def fresh_def)
  have y: "length y = length x" using x(2) by (auto dest: list_all2_lengthD)
  let ?prs = "mask_pairs (cc_calls c) fresh ls"
  have new: "wp_ok P dg de (ls @ fresh) [] (wp_new ss (generator_delta (gb_lib P) g)) (wp_new ts (generator_delta (ev_lib P) h))"
    using s gen by (simp add: wp_ok_def wp_new_def generators_paired_def)
  have pre: "preprocessed P dg de c ss ks ts ks'" if "sharing P dg de (map (\<lambda>(a, b). a \<and> b) ?prs) ks ks'" for ks ks'
    using that len s by (auto simp: preprocessed_def)
  show ?thesis
    unfolding tail_def
  proof (rule delivers_bind2 [OF wp_receive_many [OF new len(1)]], goal_cases)
    case (1 p us q vs)
    then have w: "wp_ok P dg de fresh [] p q" "sharing P dg de ls us vs" by simp_all
    show ?case
    proof (rule delivers_bind2 [OF wp_execute_circuit [OF ok w wf len]], goal_cases)
      case (1 p' us' q' vs')
      then obtain fresh' where w: "wp_ok P dg de fresh' ?prs p' q'" by auto
      show ?case
      proof (cases "nands (cc_calls c) > 0")
        case True
        have "delivers (known_triples (gb_lib P) g (take (nands (cc_calls c)) x) (wp_and_gate_left_inputs p') (wp_and_gate_right_inputs p'))
          (known_triples (ev_lib P) h (take (nands (cc_calls c)) y) (wp_and_gate_left_inputs q') (wp_and_gate_right_inputs q'))
          (\<lambda>(g, ks) (h, ks'). generators_paired P dg de g h \<and> sharing P dg de (map (\<lambda>(a, b). a \<and> b) ?prs) ks ks')"
          by (rule known_delivers [OF ok gen]) (use w x in \<open>auto simp: wp_ok_def length_mask_pairs\<close>)
        with True x(1) y show ?thesis by (simp, elim delivers_bind2) (simp add: pre delivers_Done)
      next
        case False
        then have "?prs = []" using length_mask_pairs [of "cc_calls c" fresh ls] by simp
        with False pre [of "[]" "[]"] gen show ?thesis by (simp add: delivers_Done)
      qed
    qed
  qed
qed

lemma preprocess_delivers:
  assumes ok: "auth_ok P" and gen: "generators_paired P dg de g h" and wf: "wf_circuit c"
  shows "delivers (preprocess_circuit (gb_lib P) c g) (preprocess_circuit (ev_lib P) c h)
    (\<lambda>(g, ss, ks) (h, ts, ks'). generators_paired P dg de g h \<and> preprocessed P dg de c ss ks ts ks')"
  unfolding preprocess_circuit_def Let_def
proof (rule delivers_bind2 [where Q = "\<lambda>g x h y. generators_paired P dg de g h \<and> nands (cc_calls c) \<le> length x \<and> list_all2 (triple_ok P) x y"],
    goal_cases)
  case 1
  show ?case
  proof (cases "nands (cc_calls c) > 0")
    case True
    then show ?thesis by (auto intro!: delivers_mono [OF generators_okD(1) [OF ok gen]])
  qed (use gen in \<open>simp add: delivers_Done\<close>)
next
  case (2 g x h y)
  then have gen: "generators_paired P dg de g h" by simp
  show ?case
    by (rule delivers_bind2 [OF generators_okD(2) [OF ok gen]], rule preprocess_known [OF ok _ wf]) (use 2 in auto)
qed

section \<open>The invariant of the wires\<close>

text \<open>
  The garbler's state and the evaluator's, with the masks of the shares and of the products that are
  left; the wires of both for a value \<open>z\<close> under a mask \<open>l\<close>.
\<close>

definition session_ok ::
  "('s, 't, 'g) parties \<Rightarrow> label \<Rightarrow> label \<Rightarrow> bool list \<Rightarrow> bool list \<Rightarrow> 's garbler \<Rightarrow> 's evaluator \<Rightarrow> bool" where
  "session_ok P dg de fresh known gb ev \<longleftrightarrow>
     gb_delta gb = dg \<and> ev_delta ev = de \<and> lsb dg \<and> ev_one ev = gb_zero gb XOR dg \<and> gb_and_gate_index gb = ev_and_wire_index ev \<and>
     sharing P dg de fresh (drop (gb_auth_shares_index gb) (gb_auth_shares gb)) (drop (ev_auth_shares_index ev) (ev_auth_shares ev)) \<and>
     sharing P dg de known (drop (gb_and_auth_shares_index gb) (gb_and_auth_shares gb)) (drop (ev_and_auth_shares_index ev) (ev_and_auth_shares ev))"

definition wire_ok :: "('s, 't, 'g) parties \<Rightarrow> label \<Rightarrow> label \<Rightarrow> bool \<Rightarrow> bool \<Rightarrow> 's auth_wire \<Rightarrow> 's auth_wire \<Rightarrow> bool" where
  "wire_ok P dg de z l u v \<longleftrightarrow>
     shares_bit P dg de l (auth_share u) (auth_share v) \<and> masked_value u = (z \<noteq> l) \<and> masked_value v = (z \<noteq> l) \<and>
     wire_label v = wire_label u XOR gate_mul (z \<noteq> l) dg"

definition wires_ok ::
  "('s, 't, 'g) parties \<Rightarrow> label \<Rightarrow> label \<Rightarrow> bool list \<Rightarrow> bool list \<Rightarrow> 's auth_wire list \<Rightarrow> 's auth_wire list \<Rightarrow> bool" where
  "wires_ok P dg de zs ls us vs \<longleftrightarrow>
     length ls = length zs \<and> length us = length zs \<and> length vs = length zs \<and>
     (\<forall>i < length zs. wire_ok P dg de (zs ! i) (ls ! i) (us ! i) (vs ! i))"

lemma wires_ok_snoc:
  "wires_ok P dg de zs ls us vs \<Longrightarrow> wire_ok P dg de z l u v \<Longrightarrow> wires_ok P dg de (zs @ [z]) (ls @ [l]) (us @ [u]) (vs @ [v])"
  by (auto simp: wires_ok_def nth_append less_Suc_eq)

lemma wires_ok_append:
  "wires_ok P dg de zs ls us vs \<Longrightarrow> wires_ok P dg de zs' ls' us' vs' \<Longrightarrow>
     wires_ok P dg de (zs @ zs') (ls @ ls') (us @ us') (vs @ vs')"
  by (auto simp: wires_ok_def nth_append)

lemma wires_okD:
  assumes "wires_ok P dg de zs ls us vs"
  shows "length ls = length zs" "length us = length zs" "length vs = length zs"
    "i < length zs \<Longrightarrow> wire_ok P dg de (zs ! i) (ls ! i) (us ! i) (vs ! i)"
  using assms by (simp_all add: wires_ok_def)

lemma garbler_next:
  assumes "session_ok P dg de (l # fresh) known gb ev"
  obtains gb' ev' s t where "next_auth_share gb = Done (gb', s)" "ev_next_auth_share ev = Done (ev', t)"
    "session_ok P dg de fresh known gb' ev'" "shares_bit P dg de l s t"
proof -
  have s: "sharing P dg de (l # fresh) (drop (gb_auth_shares_index gb) (gb_auth_shares gb)) (drop (ev_auth_shares_index ev) (ev_auth_shares ev))"
    using assms by (simp add: session_ok_def)
  from sharing_next [OF s] assms that show ?thesis
    by (simp add: next_auth_share_def ev_next_auth_share_def in_range_def session_ok_def)
qed

lemma garbler_next_and:
  assumes "session_ok P dg de fresh (k # known) gb ev"
  obtains gb' ev' s t where "next_and_auth_share gb = Done (gb', s)" "ev_next_and_auth_share ev = Done (ev', t)"
    "session_ok P dg de fresh known gb' ev'" "shares_bit P dg de k s t"
proof -
  have s: "sharing P dg de (k # known) (drop (gb_and_auth_shares_index gb) (gb_and_auth_shares gb)) (drop (ev_and_auth_shares_index ev) (ev_and_auth_shares ev))"
    using assms by (simp add: session_ok_def)
  from sharing_next [OF s] assms that show ?thesis
    by (simp add: next_and_auth_share_def ev_next_and_auth_share_def in_range_def session_ok_def)
qed

lemma garbler_next_many:
  assumes "session_ok P dg de (ls @ fresh) known gb ev"
  obtains gb' ev' ss ts where "next_auth_shares gb (length ls) = Done (gb', ss)" "ev_next_auth_shares ev (length ls) = Done (ev', ts)"
    "session_ok P dg de fresh known gb' ev'" "sharing P dg de ls ss ts"
proof -
  have "\<exists>gb' ev' ss ts. next_auth_shares gb (length ls) = Done (gb', ss) \<and> ev_next_auth_shares ev (length ls) = Done (ev', ts) \<and>
      session_ok P dg de fresh known gb' ev' \<and> sharing P dg de ls ss ts"
    using assms
  proof (induction ls arbitrary: fresh rule: rev_induct)
    case (snoc l ls)
    then have "session_ok P dg de (ls @ l # fresh) known gb ev" by simp
    from snoc.IH [OF this] obtain gb1 ev1 ss ts where
      1: "next_auth_shares gb (length ls) = Done (gb1, ss)" "ev_next_auth_shares ev (length ls) = Done (ev1, ts)"
        "session_ok P dg de (l # fresh) known gb1 ev1" "sharing P dg de ls ss ts" by blast
    obtain gb2 ev2 s t where "next_auth_share gb1 = Done (gb2, s)" "ev_next_auth_share ev1 = Done (ev2, t)"
      "session_ok P dg de fresh known gb2 ev2" "shares_bit P dg de l s t"
      using 1(3) by (rule garbler_next)
    with 1 show ?case by (auto intro: sharing_snoc)
  qed simp
  then show thesis using that by blast
qed

section \<open>AND gates\<close>

lemma xor_left_self: "a XOR (a XOR b) = (b :: label)"
  by (simp flip: xor.assoc)

lemma gate_mul_simps [simp]: "gate_mul True d = d" "gate_mul False d = 0"
  by (simp_all add: gate_mul_def)

text \<open>The evaluator's label of the output is the garbler's, moved by the masked value.\<close>

lemma and_gate_label:
  assumes "(rt \<noteq> st) = ((ra \<noteq> sa) \<and> (rb \<noteq> sb))" and "ma = (za \<noteq> (ra \<noteq> sa))" and "mb = (zb \<noteq> (rb \<noteq> sb))"
    and "ha = (if ma then ha1 else ha0)" and "hb = (if mb then hb1 else hb0)"
  shows "ha XOR hb XOR (kc XOR gate_mul sc d) XOR (kt XOR gate_mul st d) XOR
      gate_mul ma ((ha0 XOR ha1 XOR kb XOR gate_mul rb d) XOR (kb XOR gate_mul sb d)) XOR
      gate_mul mb (((hb0 XOR hb1 XOR ka XOR gate_mul ra d XOR la) XOR (ka XOR gate_mul sa d)) XOR (la XOR gate_mul ma d)) =
    (ha0 XOR hb0 XOR kc XOR gate_mul rc d XOR kt XOR gate_mul rt d) XOR gate_mul ((za \<and> zb) \<noteq> (rc \<noteq> sc)) d"
proof -
  have st: "st = (rt \<noteq> ((ra \<noteq> sa) \<and> (rb \<noteq> sb)))" using assms(1) by auto
  have za: "za = (ma \<noteq> (ra \<noteq> sa))" "zb = (mb \<noteq> (rb \<noteq> sb))" using assms(2,3) by auto
  show ?thesis
    unfolding st za assms(4,5)
    by (cases ma; cases mb; cases ra; cases sa; cases rb; cases sb; cases rc; cases sc; cases rt)
      (simp_all add: xor.assoc xor.left_commute [where ?'a = label] xor.commute [where ?'a = label] xor_left_self)
qed

lemma lsb_xor: "lsb (x XOR gate_mul b d) = (lsb x \<noteq> (b \<and> lsb d))"
  by (cases b) (auto simp: lsb_def bit_xor_iff)

text \<open>The validation bit of an AND gate is set if the masked value is the wrong one.\<close>

lemma validation_share_bit:
  assumes ok: "auth_ok P" and u: "wire_ok P dg de za la a a'" "wire_ok P dg de zb lb b b'"
    and s: "shares_bit P dg de (la \<and> lb) kt kt'" "shares_bit P dg de lc kc kc'"
  shows "shares_bit P dg de (v \<noteq> ((za \<and> zb) \<noteq> lc)) (validation_share (gb_lib P) dg a b v kt kc) (validation_share (ev_lib P) de a' b' v kt' kc')"
proof -
  have lin: "linear (gb_lib P)" "linear (ev_lib P)" and const: "constants_ok P" using ok by (simp_all add: auth_ok_def)
  note xor = shares_bit_xor [OF lin] and mul = shares_bit_mul [OF lin]
  have ab: "shares_bit P dg de la (auth_share a) (auth_share a')" "shares_bit P dg de lb (auth_share b) (auth_share b')"
    using u by (simp_all add: wire_ok_def)
  have m: "masked_value a = (za \<noteq> la)" "masked_value a' = (za \<noteq> la)" "masked_value b = (zb \<noteq> lb)" "masked_value b' = (zb \<noteq> lb)"
    using u by (simp_all add: wire_ok_def)
  have bit: "((((((za \<noteq> la) \<and> (zb \<noteq> lb)) \<noteq> v) \<noteq> (la \<and> (zb \<noteq> lb))) \<noteq> (lb \<and> (za \<noteq> la))) \<noteq> (la \<and> lb)) \<noteq> lc \<longleftrightarrow>
      v \<noteq> ((za \<and> zb) \<noteq> lc)"
    by blast
  show ?thesis
    unfolding validation_share_def Let_def m
    using xor [OF xor [OF xor [OF xor [OF shares_bit_constant [OF const, of dg de "((za \<noteq> la) \<and> (zb \<noteq> lb)) \<noteq> v"]
      mul [OF ab(1), of "zb \<noteq> lb"]] mul [OF ab(2), of "za \<noteq> la"]] s(1)] s(2)]
    unfolding bit .
qed

lemma openings_okD:
  assumes "auth_ok P" and "sharing P dg de ls ss ts"
  shows "delivers (open_shares (gb_lib P) dg ss) (open_shares (ev_lib P) de ts) (\<lambda>x y. x = ls \<and> y = ls)"
    and "delivers (open_their_shares (gb_lib P) dg ss) (open_my_shares (ev_lib P) ts) (\<lambda>x _. x = map (share_bit (ev_lib P)) ts)"
    and "delivers (open_my_shares (gb_lib P) ss) (open_their_shares (ev_lib P) de ts) (\<lambda>_ y. y = map (share_bit (gb_lib P)) ss)"
proof -
  have "openings_ok P" and "all_paired P dg de ss ts" and ls: "shared_bits P ss ts = ls"
    using assms by (simp_all add: auth_ok_def sharing_def)
  then show "delivers (open_shares (gb_lib P) dg ss) (open_shares (ev_lib P) de ts) (\<lambda>x y. x = ls \<and> y = ls)"
    "delivers (open_their_shares (gb_lib P) dg ss) (open_my_shares (ev_lib P) ts) (\<lambda>x _. x = map (share_bit (ev_lib P)) ts)"
    "delivers (open_my_shares (gb_lib P) ss) (open_their_shares (ev_lib P) de ts) (\<lambda>_ y. y = map (share_bit (gb_lib P)) ss)"
    unfolding openings_ok_def ls [symmetric] by blast+
qed

lemma open_one:
  assumes "auth_ok P" and "shares_bit P dg de b s t"
  shows "delivers (open_shares (gb_lib P) dg [s]) (open_shares (ev_lib P) de [t]) (\<lambda>x y. x = [b] \<and> y = [b])"
  using sharing_snoc [of P dg de "[]" "[]" "[]", OF _ assms(2)] openings_okD(1) [OF assms(1), of dg de "[b]" "[s]" "[t]"]
  by simp

lemma and_delivers:
  assumes ok: "auth_ok P" and st: "session_ok P dg de (lc # fresh) ((la \<and> lb) # known) gb ev"
    and u: "wire_ok P dg de za la a a'" "wire_ok P dg de zb lb b b'"
  shows "delivers (garbler_and (gb_lib P) (labels P) gb a b) (evaluator_and (ev_lib P) (labels P) ev a' b')
    (\<lambda>(gb, u) (ev, v). session_ok P dg de fresh known gb ev \<and> wire_ok P dg de (za \<and> zb) lc u v)"
proof -
  let ?G = "gb_lib P" and ?E = "ev_lib P" and ?W = "labels P"
  define i where "i = gb_and_gate_index gb"
  define gb0 where "gb0 = gb\<lparr>gb_and_gate_index := i + 1\<rparr>"
  define ev0 where "ev0 = ev\<lparr>ev_and_wire_index := i + 1\<rparr>"
  have index: "next_and_gate_index gb = (gb0, i)" "next_and_wire_index ev = (ev0, i)"
    using st by (simp_all add: next_and_gate_index_def next_and_wire_index_def gb0_def ev0_def i_def session_ok_def)
  have "session_ok P dg de (lc # fresh) ((la \<and> lb) # known) gb0 ev0"
    using st by (simp add: session_ok_def gb0_def ev0_def)
  then obtain gb1 ev1 kc kc' where 1: "next_auth_share gb0 = Done (gb1, kc)" "ev_next_auth_share ev0 = Done (ev1, kc')"
    "session_ok P dg de fresh ((la \<and> lb) # known) gb1 ev1" "shares_bit P dg de lc kc kc'" by (rule garbler_next)
  from 1(3) obtain gb2 ev2 kt kt' where 2: "next_and_auth_share gb1 = Done (gb2, kt)" "ev_next_and_auth_share ev1 = Done (ev2, kt')"
    "session_ok P dg de fresh known gb2 ev2" "shares_bit P dg de (la \<and> lb) kt kt'" by (rule garbler_next_and)
  have d: "gb_delta gb2 = dg" "ev_delta ev2 = de" "lsb dg" using 2(3) by (simp_all add: session_ok_def)
  have W: "labels_ok ?W" using ok by (simp add: auth_ok_def)
  define lc0 where "lc0 = hash_label ?W (wire_label a) i XOR hash_label ?W (wire_label b) i XOR share_key ?G kc XOR
    gate_mul (share_bit ?G kc) dg XOR share_key ?G kt XOR gate_mul (share_bit ?G kt) dg"
  define gate0 where "gate0 = hash_label ?W (wire_label a) i XOR hash_label ?W (wire_label a XOR dg) i XOR
    share_key ?G (auth_share b) XOR gate_mul (share_bit ?G (auth_share b)) dg"
  define gate1 where "gate1 = hash_label ?W (wire_label b) i XOR hash_label ?W (wire_label b XOR dg) i XOR
    share_key ?G (auth_share a) XOR gate_mul (share_bit ?G (auth_share a)) dg XOR wire_label a"
  define lce where "lce = hash_label ?W (wire_label a') i XOR hash_label ?W (wire_label b') i XOR share_mac ?E kc' XOR share_mac ?E kt' XOR
    gate_mul (masked_value a') (gate0 XOR share_mac ?E (auth_share b')) XOR
    gate_mul (masked_value b') ((gate1 XOR share_mac ?E (auth_share a')) XOR wire_label a')"
  have lce: "lce = lc0 XOR gate_mul ((za \<and> zb) \<noteq> lc) dg"
  proof -
    have bits: "la = (share_bit ?G (auth_share a) \<noteq> share_bit ?E (auth_share a'))"
      "lb = (share_bit ?G (auth_share b) \<noteq> share_bit ?E (auth_share b'))"
      "lc = (share_bit ?G kc \<noteq> share_bit ?E kc')" "(la \<and> lb) = (share_bit ?G kt \<noteq> share_bit ?E kt')"
      using u 1(4) 2(4) by (simp_all add: wire_ok_def shares_bit_def shared_bit_def)
    have macs: "share_mac ?E (auth_share a') = share_key ?G (auth_share a) XOR gate_mul (share_bit ?E (auth_share a')) dg"
      "share_mac ?E (auth_share b') = share_key ?G (auth_share b) XOR gate_mul (share_bit ?E (auth_share b')) dg"
      "share_mac ?E kc' = share_key ?G kc XOR gate_mul (share_bit ?E kc') dg"
      "share_mac ?E kt' = share_key ?G kt XOR gate_mul (share_bit ?E kt') dg"
      using u 1(4) 2(4) by (simp_all add: wire_ok_def shares_bit_def paired_def)
    have wl: "masked_value a' = (za \<noteq> la)" "masked_value b' = (zb \<noteq> lb)"
      "wire_label a' = wire_label a XOR gate_mul (masked_value a') dg" "wire_label b' = wire_label b XOR gate_mul (masked_value b') dg"
      using u by (simp_all add: wire_ok_def)
    have h: "hash_label ?W (x XOR gate_mul m dg) i = (if m then hash_label ?W (x XOR dg) i else hash_label ?W x i)" for x m
      by simp
    have "lce = lc0 XOR gate_mul ((za \<and> zb) \<noteq> (share_bit ?G kc \<noteq> share_bit ?E kc')) dg"
      unfolding lce_def lc0_def gate0_def gate1_def macs wl(3,4)
      by (rule and_gate_label) (use bits wl(1,2) in \<open>simp_all add: h\<close>)
    then show ?thesis unfolding bits(3) .
  qed
  define v where "v = ((za \<and> zb) \<noteq> lc)"
  have masked: "(lsb lce \<noteq> lsb lc0) = v"
    unfolding lce lsb_xor v_def using d(3) by auto
  note open_v = open_one [OF ok validation_share_bit [OF ok u 2(4) 1(4), of v, folded v_def, unfolded simp_thms]]
  have "wire_ok P dg de (za \<and> zb) lc \<lparr>masked_value = v, wire_label = lc0, auth_share = kc\<rparr>
      \<lparr>masked_value = v, wire_label = lce, auth_share = kc'\<rparr>"
    using 1(4) by (simp add: wire_ok_def lce v_def)
  with 2(3) show ?thesis
    unfolding garbler_and_def evaluator_and_def index Let_def prod.case 1 2 pbind.simps d
    apply (fold lc0_def gate0_def gate1_def)
    apply (intro delivers_label [OF W])
    apply (fold lce_def, unfold masked)
    apply (rule delivers_pbind [OF open_v])
    apply (simp add: delivers_Done)
    done
qed

section \<open>Execution\<close>

abbreviation "products prs \<equiv> map (\<lambda>(a, b). a \<and> b) prs"

lemma xor_wire_ok:
  assumes ok: "auth_ok P" and "wire_ok P dg de za la a a'" "wire_ok P dg de zb lb b b'"
  shows "wire_ok P dg de (za \<noteq> zb) (la \<noteq> lb) (garbler_xor (gb_lib P) gb a b) (evaluator_xor (ev_lib P) ev a' b')"
proof -
  have "shares_bit P dg de (la \<noteq> lb) (share_xor (gb_lib P) (auth_share a) (auth_share b)) (share_xor (ev_lib P) (auth_share a') (auth_share b'))"
    using assms by (intro shares_bit_xor) (simp_all add: auth_ok_def wire_ok_def)
  moreover have "gate_mul ((za \<noteq> zb) \<noteq> (la \<noteq> lb)) dg = gate_mul (za \<noteq> la) dg XOR gate_mul (zb \<noteq> lb) dg"
    by (cases za; cases zb; cases la; cases lb) simp_all
  ultimately show ?thesis
    using assms(2,3) by (auto simp: wire_ok_def garbler_xor_def evaluator_xor_def ac_simps)
qed

lemma negate_wire_ok:
  assumes st: "session_ok P dg de fresh known gb ev" and u: "wire_ok P dg de z l u v"
  shows "wire_ok P dg de (\<not> z) l (garbler_negate gb u) (evaluator_negate ev v)"
proof -
  have one: "ev_one ev = gb_zero gb XOR dg" using st by (simp add: session_ok_def)
  have "gate_mul ((\<not> z) \<noteq> l) dg = gate_mul (z \<noteq> l) dg XOR dg"
    by (cases z; cases l) simp_all
  with u show ?thesis
    by (auto simp: wire_ok_def garbler_negate_def evaluator_negate_def one ac_simps)
qed

lemma constant_delivers:
  assumes ok: "auth_ok P" and st: "session_ok P dg de fresh known gb ev"
  shows "delivers (garbler_constant (gb_lib P) (labels P) gb z) (evaluator_constant (ev_lib P) (labels P) ev z)
    (\<lambda>(gb, u) (ev, v). session_ok P dg de fresh known gb ev \<and> wire_ok P dg de z False u v)"
proof -
  have d: "gb_delta gb = dg" "ev_delta ev = de" using st by (simp_all add: session_ok_def)
  have s: "shares_bit P dg de False (share_constant (gb_lib P) False dg) (share_constant (ev_lib P) False de)" and W: "labels_ok (labels P)"
    using ok by (simp_all add: auth_ok_def shares_bit_constant)
  show ?thesis
    unfolding garbler_constant_def evaluator_constant_def Let_def d
    by (rule delivers_n_random, rule delivers_label [OF W]) (use s st in \<open>simp add: wire_ok_def delivers_Done\<close>)
qed

lemma call_delivers:
  assumes ok: "auth_ok P" and st: "session_ok P dg de fresh (products (and_masks ls c) @ known) gb ev"
    and ws: "wires_ok P dg de zs ls us vs" and wf: "wf_call (length zs) c" "of_bool (takes_share c) \<le> length fresh"
  shows "delivers (call_step (garbler_backend (gb_lib P) (labels P)) c gb us) (call_step (evaluator_backend (ev_lib P) (labels P)) c ev vs)
    (\<lambda>(gb, u) (ev, v). session_ok P dg de (left_over c fresh) known gb ev \<and> wire_ok P dg de (call_value zs c) (call_mask fresh ls c) u v)"
proof (cases c)
  case (Call_And i j)
  then obtain l fresh' where fresh: "fresh = l # fresh'" using wf(2) by (cases fresh) auto
  have ij: "i < length zs" "j < length zs" using wf(1) Call_And by simp_all
  have "session_ok P dg de (l # fresh') ((ls ! i \<and> ls ! j) # known) gb ev" using st by (simp add: Call_And fresh)
  from and_delivers [OF ok this wires_okD(4) [OF ws ij(1)] wires_okD(4) [OF ws ij(2)]] show ?thesis
    using wires_okD(2,3) [OF ws] ij
    by (simp add: Call_And garbler_backend_def evaluator_backend_def in_range_def fresh left_over_def)
next
  case (Call_Xor i j)
  then have ij: "i < length zs" "j < length zs" using wf(1) by simp_all
  from xor_wire_ok [OF ok wires_okD(4) [OF ws ij(1)] wires_okD(4) [OF ws ij(2)]] show ?thesis
    using wires_okD(2,3) [OF ws] ij st
    by (simp add: Call_Xor garbler_backend_def evaluator_backend_def in_range_def left_over_def delivers_Done)
next
  case (Call_Negate i)
  then have i: "i < length zs" using wf(1) by simp
  have "session_ok P dg de fresh known gb ev" using st by (simp add: Call_Negate)
  with negate_wire_ok [OF this wires_okD(4) [OF ws i]] show ?thesis
    using wires_okD(2,3) [OF ws] i
    by (simp add: Call_Negate garbler_backend_def evaluator_backend_def in_range_def left_over_def delivers_Done)
next
  case (Call_Constant v)
  with constant_delivers [OF ok, of dg de fresh known gb ev v] st show ?thesis
    by (simp add: garbler_backend_def evaluator_backend_def left_over_def)
qed

lemma execute_delivers:
  assumes "auth_ok P" "session_ok P dg de fresh (products (mask_pairs cs fresh ls)) gb ev"
    and "wires_ok P dg de zs ls us vs" "wf_calls (length zs) cs" "nands cs \<le> length fresh"
  shows "delivers (execute (garbler_backend (gb_lib P) (labels P)) cs gb us) (execute (evaluator_backend (ev_lib P) (labels P)) cs ev vs)
    (\<lambda>(gb, us) (ev, vs). ev_delta ev = de \<and> (\<exists>ls. wires_ok P dg de (run_calls cs zs) ls us vs))"
  using assms(2-)
proof (induction cs arbitrary: gb ev us vs zs ls fresh)
  case Nil
  then show ?case by (auto simp: session_ok_def intro!: delivers_Done)
next
  case (Cons c cs)
  have n: "of_bool (takes_share c) \<le> length fresh" "nands cs \<le> length (left_over c fresh)"
    using Cons.prems(4) by (auto simp: left_over_def)
  have st: "session_ok P dg de fresh (products (and_masks ls c) @ products (mask_pairs cs (left_over c fresh) (ls @ [call_mask fresh ls c]))) gb ev"
    using Cons.prems(1) by simp
  have wf: "wf_call (length zs) c" "wf_calls (length (zs @ [call_value zs c])) cs" using Cons.prems(3) by simp_all
  show ?case
    unfolding execute.simps run_calls.simps
    by (rule delivers_bind2 [OF call_delivers [OF assms(1) st Cons.prems(2) wf(1) n(1)]], rule Cons.IH [OF _ wires_ok_snoc [OF Cons.prems(2)] wf(2) n(2)])
      (erule conjunct1, erule conjunct2)
qed

lemma length_run_calls [simp]: "length (run_calls cs zs) = length zs + length cs"
  by (induction cs arbitrary: zs) simp_all

lemma execute_circuit_delivers:
  assumes "auth_ok P" "session_ok P dg de fresh (products (mask_pairs (cc_calls c) fresh ls)) gb ev"
    and ws: "wires_ok P dg de zs ls us vs" and wf: "wf_circuit c" "length zs = cc_inputs c" and n: "nands (cc_calls c) \<le> length fresh"
  shows "delivers (execute_circuit (garbler_backend (gb_lib P) (labels P)) c gb us)
      (execute_circuit (evaluator_backend (ev_lib P) (labels P)) c ev vs)
    (\<lambda>(gb, us) (ev, vs). ev_delta ev = de \<and> (\<exists>ls. wires_ok P dg de (circuit_value c zs) ls us vs))"
  unfolding execute_circuit_def
proof (rule delivers_bind2 [OF execute_delivers [OF assms(1-3) _ n]], goal_cases)
  case 1
  show ?case using wf by (simp add: wf_circuitD)
next
  case (2 gb us ev vs)
  then obtain ls where ws: "wires_ok P dg de (run_calls (cc_calls c) zs) ls us vs" by auto
  have wf: "list_all (\<lambda>i. i < length (run_calls (cc_calls c) zs)) (cc_outputs c)"
    using wf by (simp add: wf_circuitD)
  have "wires_ok P dg de (circuit_value c zs) (map ((!) ls) (cc_outputs c)) (map ((!) us) (cc_outputs c)) (map ((!) vs) (cc_outputs c))"
    using ws wf by (simp add: wires_ok_def circuit_value_def list_all_length)
  with 2 wf wires_okD(2,3) [OF ws] show ?case by (auto intro!: delivers_Done)
qed

section \<open>Inputs and outputs\<close>

lemma encode_delivers:
  assumes W: "labels_ok W" and d: "gb_delta gb = dg" and s: "sharing P dg de ls ss ts" and len: "length zs = length ls"
  defines "ms \<equiv> xor_bits zs ls"
  shows "delivers (encode_wirelabels W gb ms ss) (receive_wirelabels W ms ts) (wires_ok P dg de zs ls)"
proof -
  have l: "length ms = length ls" "length ss = length ls" "length ts = length ls"
    using len sharing_lengths [OF s] by (simp_all add: ms_def)
  let ?f = "\<lambda>(m, zero). zero XOR gate_mul m dg"
  have f: "(\<lambda>(m, zero). label_bytes W (zero XOR gate_mul m dg)) = (\<lambda>x. label_bytes W (?f x))" by auto
  show ?thesis
    unfolding encode_wirelabels_def receive_wirelabels_def Let_def d f
  proof (rule delivers_n_local [OF rand_labels])
    fix zeros :: "label list"
    assume z: "length zeros = length ms"
    have n: "length (zip ms ts) = length (zip ms zeros)" using z l by simp
    show "delivers (pbind (write_each (\<lambda>x. label_bytes W (?f x)) (zip ms zeros)) (\<lambda>_. Done (map (\<lambda>(m, zero, share).
          \<lparr>masked_value = m, wire_label = zero, auth_share = share\<rparr>) (zip ms (zip zeros ss)))))
        (pbind (read_labels W (length (zip ms ts))) (\<lambda>labels. Done (map (\<lambda>((m, share), lab).
          \<lparr>masked_value = m, wire_label = lab, auth_share = share\<rparr>) (zip (zip ms ts) labels))))
        (wires_ok P dg de zs ls)"
      unfolding n
    proof (rule delivers_pbind [OF delivers_labels [OF W]], rule delivers_Done)
      fix ys
      assume "ys = map ?f (zip ms zeros)"
      with z l len sharing_nth [OF s] show "wires_ok P dg de zs ls
        (map (\<lambda>(m, zero, share). \<lparr>masked_value = m, wire_label = zero, auth_share = share\<rparr>) (zip ms (zip zeros ss)))
        (map (\<lambda>((m, share), lab). \<lparr>masked_value = m, wire_label = lab, auth_share = share\<rparr>) (zip (zip ms ts) ys))"
        by (auto simp: wires_ok_def wire_ok_def ms_def xor_bits_def)
    qed
  qed
qed

text \<open>The bits of a list of values.\<close>

definition bits_of :: "nat list \<Rightarrow> bool list" where
  "bits_of = map (\<lambda>v. v = 1)"

definition are_bits :: "nat list \<Rightarrow> bool" where
  "are_bits = list_all (\<lambda>v. v < 2)"

lemma bit_values_bits [simp]: "are_bits values \<Longrightarrow> bit_values msg values = Done (bits_of values)"
  by (simp add: bit_values_def are_bits_def bits_of_def)

lemma length_bits_of [simp]: "length (bits_of values) = length values"
  by (simp add: bits_of_def)

lemma masked_inputs:
  assumes "sharing P dg de ls ss ts" and "length zs = length ls"
  shows "map (\<lambda>(theirs, mine, v). (theirs \<noteq> share_bit (gb_lib P) mine) \<noteq> v) (zip (map (share_bit (ev_lib P)) ts) (zip ss zs)) = xor_bits zs ls"
    and "map (\<lambda>(theirs, mine, v). (v \<noteq> share_bit (ev_lib P) mine) \<noteq> theirs) (zip (map (share_bit (gb_lib P)) ss) (zip ts zs)) = xor_bits zs ls"
proof -
  have l: "ls ! i = (share_bit (gb_lib P) (ss ! i) \<noteq> share_bit (ev_lib P) (ts ! i))" if "i < length ls" for i
    using sharing_nth [OF assms(1) that] by (simp add: shares_bit_def shared_bit_def)
  show "map (\<lambda>(theirs, mine, v). (theirs \<noteq> share_bit (gb_lib P) mine) \<noteq> v) (zip (map (share_bit (ev_lib P)) ts) (zip ss zs)) = xor_bits zs ls"
    "map (\<lambda>(theirs, mine, v). (v \<noteq> share_bit (ev_lib P) mine) \<noteq> theirs) (zip (map (share_bit (gb_lib P)) ss) (zip ts zs)) = xor_bits zs ls"
    using sharing_lengths [OF assms(1)] assms(2) by (auto intro!: nth_equalityI simp: xor_bits_def l)
qed

definition input_ok where
  "input_ok P dg de fresh known zs ls = (\<lambda>(gb, us) (ev, vs). session_ok P dg de fresh known gb ev \<and> wires_ok P dg de zs ls us vs)"

lemma input_ok_wires:
  assumes "session_ok P dg de fresh known gb ev" and "delivers p q (wires_ok P dg de zs ls)"
  shows "delivers (pbind p (\<lambda>ws. Done (gb, ws))) (pbind q (\<lambda>ws. Done (ev, ws))) (input_ok P dg de fresh known zs ls)"
  by (rule delivers_pbind [OF assms(2)]) (simp add: input_ok_def delivers_Done assms(1))

lemma garbler_input_delivers:
  assumes ok: "auth_ok P" and st: "session_ok P dg de (ls @ fresh) known gb ev"
    and vals: "are_bits values" "length values = n" "length ls = n"
  shows "delivers (garbler_encode_many (gb_lib P) (labels P) gb values n) (evaluator_receive_many (ev_lib P) (labels P) ev n)
    (input_ok P dg de fresh known (bits_of values) ls)"
proof -
  have W: "labels_ok (labels P)" using ok by (simp add: auth_ok_def)
  obtain gb1 ev1 ss ts where n: "next_auth_shares gb n = Done (gb1, ss)" "ev_next_auth_shares ev n = Done (ev1, ts)"
    "session_ok P dg de fresh known gb1 ev1" "sharing P dg de ls ss ts"
    using st vals(3) by (auto elim: garbler_next_many)
  have d: "gb_delta gb1 = dg" using n(3) by (simp add: session_ok_def)
  let ?ms = "xor_bits (bits_of values) ls"
  have len: "length ?ms = n" "length (bits_of values) = length ls" using vals by simp_all
  note wires = input_ok_wires [OF n(3) encode_delivers [OF W d n(4) len(2)]]
  have bits: "delivers (write_each (bit_bytes (labels P)) ?ms) (read_bits (labels P) n) (\<lambda>_ ys. ys = ?ms)"
    using delivers_bits [OF W, of ?ms] unfolding len(1) .
  have "delivers (garbler_encode_many (gb_lib P) (labels P) gb values n) (evaluator_receive_many (ev_lib P) (labels P) ev n)
      (input_ok P dg de fresh known (bits_of values) ls) \<longleftrightarrow>
    delivers (pbind (open_their_shares (gb_lib P) dg ss) (\<lambda>their_bits.
        let ms = map (\<lambda>(theirs, mine, v). (theirs \<noteq> share_bit (gb_lib P) mine) \<noteq> v) (zip their_bits (zip ss (bits_of values)))
        in pbind (write_each (bit_bytes (labels P)) ms) (\<lambda>_. pbind (encode_wirelabels (labels P) gb1 ms ss) (\<lambda>ws. Done (gb1, ws)))))
      (pbind (open_my_shares (ev_lib P) ts) (\<lambda>_. pbind (read_bits (labels P) n) (\<lambda>ms.
        pbind (receive_wirelabels (labels P) ms ts) (\<lambda>ws. Done (ev1, ws)))))
      (input_ok P dg de fresh known (bits_of values) ls)"
    by (simp only: garbler_encode_many_def evaluator_receive_many_def vals n d bit_values_bits pbind.simps prod.case simp_thms if_False not_True_eq_False)
  also have "\<dots>"
  proof (rule delivers_pbind [OF openings_okD(2) [OF ok n(4)]], unfold Let_def, goal_cases)
    case (1 x y)
    show ?case
      unfolding 1 masked_inputs(1) [OF n(4) len(2)] by (rule delivers_pbind [OF bits]) (simp add: wires)
  qed
  finally show ?thesis .
qed

lemma evaluator_input_delivers:
  assumes ok: "auth_ok P" and st: "session_ok P dg de (ls @ fresh) known gb ev"
    and vals: "are_bits values" "length values = n" "length ls = n"
  shows "delivers (garbler_receive_many (gb_lib P) (labels P) gb n) (evaluator_encode_many (ev_lib P) (labels P) ev values n)
    (input_ok P dg de fresh known (bits_of values) ls)"
proof -
  have W: "labels_ok (labels P)" using ok by (simp add: auth_ok_def)
  obtain gb1 ev1 ss ts where n: "next_auth_shares gb n = Done (gb1, ss)" "ev_next_auth_shares ev n = Done (ev1, ts)"
    "session_ok P dg de fresh known gb1 ev1" "sharing P dg de ls ss ts"
    using st vals(3) by (auto elim: garbler_next_many)
  have d: "gb_delta gb1 = dg" "ev_delta ev1 = de" using n(3) by (simp_all add: session_ok_def)
  let ?ms = "xor_bits (bits_of values) ls"
  have len: "length ?ms = n" "length (bits_of values) = length ls" using vals by simp_all
  note wires = input_ok_wires [OF n(3) encode_delivers [OF W d(1) n(4) len(2)]]
  have bits: "delivers (read_bits (labels P) n) (write_each (bit_bytes (labels P)) ?ms) (\<lambda>ys _. ys = ?ms)"
    using delivers_bits_back [OF W, of ?ms] unfolding len(1) .
  have "delivers (garbler_receive_many (gb_lib P) (labels P) gb n) (evaluator_encode_many (ev_lib P) (labels P) ev values n)
      (input_ok P dg de fresh known (bits_of values) ls) \<longleftrightarrow>
    delivers (pbind (open_my_shares (gb_lib P) ss) (\<lambda>_. pbind (read_bits (labels P) n) (\<lambda>ms.
        pbind (encode_wirelabels (labels P) gb1 ms ss) (\<lambda>ws. Done (gb1, ws)))))
      (pbind (open_their_shares (ev_lib P) de ts) (\<lambda>their_bits.
        let ms = map (\<lambda>(theirs, mine, v). (v \<noteq> share_bit (ev_lib P) mine) \<noteq> theirs) (zip their_bits (zip ts (bits_of values)))
        in pbind (write_each (bit_bytes (labels P)) ms) (\<lambda>_. pbind (receive_wirelabels (labels P) ms ts) (\<lambda>ws. Done (ev1, ws)))))
      (input_ok P dg de fresh known (bits_of values) ls)"
    by (simp only: garbler_receive_many_def evaluator_encode_many_def vals n d bit_values_bits pbind.simps prod.case simp_thms if_False not_True_eq_False)
  also have "\<dots>"
  proof (rule delivers_pbind [OF openings_okD(3) [OF ok n(4)]], unfold Let_def, goal_cases)
    case (1 x y)
    show ?case
      unfolding 1 masked_inputs(2) [OF n(4) len(2)] by (rule delivers_pbind [OF bits]) (simp add: wires)
  qed
  finally show ?thesis .
qed

text \<open>The evaluator's outputs are the values of the wires.\<close>

lemma outputs_delivers:
  assumes ok: "auth_ok P" and d: "ev_delta ev = de" and ws: "wires_ok P dg de zs ls us vs"
  shows "delivers (garbler_outputs (gb_lib P) us) (evaluator_outputs (ev_lib P) ev vs) (\<lambda>x y. x = None \<and> y = Some zs)"
proof -
  have w: "shares_bit P dg de (ls ! i) (auth_share (us ! i)) (auth_share (vs ! i))" "masked_value (vs ! i) = (zs ! i \<noteq> ls ! i)" if "i < length zs" for i
    using ws that by (simp_all add: wires_ok_def wire_ok_def)
  note len = wires_okD(1-3) [OF ws]
  have s: "sharing P dg de ls (map auth_share us) (map auth_share vs)"
    using w(1) len by (auto simp: sharing_def shares_bit_def list_all2_conv_all_nth intro!: nth_equalityI)
  have l: "ls ! i = (share_bit (gb_lib P) (auth_share (us ! i)) \<noteq> share_bit (ev_lib P) (auth_share (vs ! i)))" if "i < length zs" for i
    using w(1) [OF that] by (simp add: shares_bit_def shared_bit_def)
  have "map (\<lambda>(mask, out). (mask \<noteq> masked_value out) \<noteq> share_bit (ev_lib P) (auth_share out))
      (zip (map (share_bit (gb_lib P)) (map auth_share us)) vs) = zs"
    using w(2) len by (auto intro!: nth_equalityI simp: l)
  then show ?thesis
    unfolding garbler_outputs_def evaluator_outputs_def d
    by (intro delivers_pbind [OF openings_okD(3) [OF ok s]]) (simp add: delivers_Done)
qed

section \<open>Runs\<close>

definition session_new where
  "session_new P dg de c = (\<lambda>(g, gb) (h, ev). generators_paired P dg de g h \<and>
     (\<exists>ls fresh. length ls = cc_inputs c \<and> nands (cc_calls c) \<le> length fresh \<and>
        session_ok P dg de (ls @ fresh) (products (mask_pairs (cc_calls c) fresh ls)) gb ev))"

lemma preprocessed_session:
  assumes ok: "auth_ok P" and gen: "generators_paired P dg de g h" and wf: "wf_circuit c"
  shows "delivers (garbler_preprocessed (gb_lib P) (labels P) c dg zero g) (evaluator_preprocessed (ev_lib P) (labels P) c de h)
    (session_new P dg de c)"
proof -
  have W: "labels_ok (labels P)" using ok by (simp add: auth_ok_def)
  show ?thesis
    unfolding garbler_preprocessed_def evaluator_preprocessed_def Let_def
  proof (rule delivers_pbind [OF preprocess_delivers [OF ok gen wf]], goal_cases)
    case (1 x y)
    obtain g' ss ks h' ts ks' where xy: "x = (g', ss, ks)" "y = (h', ts, ks')" by (cases x; cases y)
    with 1 have gen: "generators_paired P dg de g' h'" and "preprocessed P dg de c ss ks ts ks'" by simp_all
    then obtain ls fresh where "length ls = cc_inputs c" "nands (cc_calls c) \<le> length fresh" "sharing P dg de (ls @ fresh) ss ts"
      "sharing P dg de (products (mask_pairs (cc_calls c) fresh ls)) ks ks'" by (auto simp: preprocessed_def)
    with gen show ?case
      unfolding xy prod.case by (intro delivers_label [OF W] delivers_Done) (auto simp: session_new_def session_ok_def generators_paired_def)
  qed
qed

definition sessions_ok :: "('s, 't, 'g) parties \<Rightarrow> 'g option \<Rightarrow> 'g option \<Rightarrow> bool" where
  "sessions_ok P x y \<longleftrightarrow>
     x = None \<and> y = None \<or> (\<exists>dg de g h. x = Some g \<and> y = Some h \<and> generators_paired P dg de g h)"

lemma session_delivers:
  assumes ok: "auth_ok P" and wf: "wf_circuit c" and s: "sessions_ok P x y"
  shows "delivers (wrk17_notary_garbler (gb_lib P) (labels P) c x) (wrk17_client_evaluator (ev_lib P) (labels P) c y)
    (\<lambda>a b. \<exists>dg de. session_new P dg de c a b)"
proof (cases x)
  case None
  with s have y: "y = None" by (simp add: sessions_ok_def)
  have "delivers (valid_delta (gb_lib P)) (valid_delta (ev_lib P))
      (\<lambda>dg de. delivers (generator_with_delta (gb_lib P) dg) (generator_with_delta (ev_lib P) de) (generators_paired P dg de))"
    using ok by (simp add: auth_ok_def generators_ok_def)
  then show ?thesis
    unfolding None y wrk17_notary_garbler_def wrk17_client_evaluator_def option.case garbler_new_def evaluator_new_def
  proof (rule delivers_pbind, goal_cases)
    case (1 dg de)
    show ?case
      by (rule delivers_n_random, rule delivers_pbind [OF 1], rule delivers_mono [OF preprocessed_session [OF ok _ wf]]) auto
  qed
next
  case (Some g)
  with s obtain dg de h where y: "y = Some h" and gen: "generators_paired P dg de g h" by (auto simp: sessions_ok_def)
  then have d: "generator_delta (gb_lib P) g = dg" "generator_delta (ev_lib P) h = de" by (simp_all add: generators_paired_def)
  show ?thesis
    unfolding Some y wrk17_notary_garbler_def wrk17_client_evaluator_def option.case garbler_new_with_and_generator_def
      evaluator_new_with_and_generator_def Let_def d
    by (rule delivers_n_random, rule delivers_mono [OF preprocessed_session [OF ok gen wf]]) auto
qed

lemma runs_deliver:
  assumes ok: "auth_ok P" and wf: "wf_circuit c" and s: "sessions_ok P x y"
    and n: "n_gb + n_ev = cc_inputs c" and xs: "are_bits xs" "length xs = n_gb" and ys: "are_bits ys" "length ys = n_ev"
  shows "delivers (garbler_run (gb_lib P) (labels P) c n_gb n_ev xs x) (evaluator_run (ev_lib P) (labels P) c n_gb n_ev ys y)
    (\<lambda>g (h, zs). sessions_ok P (Some g) (Some h) \<and> zs = circuit_value c (bits_of xs @ bits_of ys))"
  unfolding garbler_run_def evaluator_run_def
proof (rule delivers_pbind [OF session_delivers [OF ok wf s]], goal_cases)
  case (1 a b)
  obtain g gb h ev where ab: "a = (g, gb)" "b = (h, ev)" by (cases a; cases b)
  with 1 obtain dg de ls fresh where gen: "generators_paired P dg de g h"
    and len: "length ls = cc_inputs c" "nands (cc_calls c) \<le> length fresh"
    and st: "session_ok P dg de (ls @ fresh) (products (mask_pairs (cc_calls c) fresh ls)) gb ev"
    by (auto simp: session_new_def)
  define l1 where "l1 = take n_gb ls"
  define l2 where "l2 = drop n_gb ls"
  have ls: "ls = l1 @ l2" "length l1 = n_gb" "length l2 = n_ev" using len(1) n by (simp_all add: l1_def l2_def)
  have st: "session_ok P dg de (l1 @ l2 @ fresh) (products (mask_pairs (cc_calls c) fresh ls)) gb ev" using st ls(1) by simp
  have g: "sessions_ok P (Some g) (Some h)" using gen by (auto simp: sessions_ok_def)
  show ?case
    unfolding ab prod.case
  proof (rule delivers_pbind [OF garbler_input_delivers [OF ok st xs ls(2)]], goal_cases)
    case (1 a b)
    obtain gb us ev vs where ab: "a = (gb, us)" "b = (ev, vs)" by (cases a; cases b)
    with 1 have st: "session_ok P dg de (l2 @ fresh) (products (mask_pairs (cc_calls c) fresh ls)) gb ev"
      and us: "wires_ok P dg de (bits_of xs) l1 us vs" by (simp_all add: input_ok_def)
    show ?case
      unfolding ab prod.case
    proof (rule delivers_pbind [OF evaluator_input_delivers [OF ok st ys ls(3)]], goal_cases)
      case (1 a b)
      obtain gb us' ev vs' where ab: "a = (gb, us')" "b = (ev, vs')" by (cases a; cases b)
      with 1 have st: "session_ok P dg de fresh (products (mask_pairs (cc_calls c) fresh ls)) gb ev"
        and us': "wires_ok P dg de (bits_of ys) l2 us' vs'" by (simp_all add: input_ok_def)
      have us: "wires_ok P dg de (bits_of xs @ bits_of ys) ls (us @ us') (vs @ vs')"
        unfolding ls(1) by (rule wires_ok_append [OF us us'])
      have zs: "length (bits_of xs @ bits_of ys) = cc_inputs c" using n xs ys by simp
      show ?case
        unfolding ab prod.case
      proof (rule delivers_bind2 [OF execute_circuit_delivers [OF ok st us wf zs len(2)]], goal_cases)
        case (1 gb us ev vs)
        then obtain ls where out: "ev_delta ev = de" "wires_ok P dg de (circuit_value c (bits_of xs @ bits_of ys)) ls us vs" by blast
        show ?case
          by (rule delivers_pbind [OF outputs_delivers [OF ok out]]) (simp add: g delivers_Done)
      qed
    qed
  qed
qed

section \<open>An instance of the library\<close>

text \<open>
  Shares as triples of bit, MAC and key, the offset \<open>1\<close> on both sides, every fresh mask \<open>True\<close> with the
  garbler's bit, and a known triple computed by the evaluator from the garbler's bits.
\<close>

definition dealer_labels :: label_env where
  "dealer_labels =
     \<lparr>hash_label = \<lambda>x i. x * x + of_nat i, label_bytes = \<lambda>x. to_be 16 (unat x), bytes_label = \<lambda>bs. of_nat (from_be bs),
      bit_bytes = \<lambda>b. [of_bool b], bytes_bit = \<lambda>bs. Some (bs = [1])\<rparr>"

definition share_linear_xor :: "bool \<times> label \<times> label \<Rightarrow> bool \<times> label \<times> label \<Rightarrow> bool \<times> label \<times> label" where
  "share_linear_xor s t = (case (s, t) of ((a, m, k), (b, m', k')) \<Rightarrow> (a \<noteq> b, m XOR m', k XOR k'))"

definition share_linear_mul :: "bool \<times> label \<times> label \<Rightarrow> bool \<Rightarrow> bool \<times> label \<times> label" where
  "share_linear_mul s b = (case s of (a, m, k) \<Rightarrow> (a \<and> b, gate_mul b m, gate_mul b k))"

definition send_bits :: "bool list \<Rightarrow> unit proc" where
  "send_bits = write_each (bit_bytes dealer_labels)"

definition dealer_garbler :: "(bool \<times> label \<times> label, unit, unit) auth_lib" where
  "dealer_garbler =
     \<lparr>share_bit = fst, share_mac = fst \<circ> snd, share_key = snd \<circ> snd, share_xor = share_linear_xor, share_mul = share_linear_mul,
      share_constant = \<lambda>b d. (b, 0, 0),
      open_shares = \<lambda>d ss. pbind (send_bits (map fst ss)) (\<lambda>_. pbind (read_bits dealer_labels (length ss)) (\<lambda>bs. Done (xor_bits (map fst ss) bs))),
      open_my_shares = \<lambda>ss. send_bits (map fst ss),
      open_their_shares = \<lambda>d ss. read_bits dealer_labels (length ss),
      valid_delta = Done 1, generator_new = Done (), generator_with_delta = \<lambda>d. Done (), generator_delta = \<lambda>g. 1,
      generate_triples = \<lambda>g n. Done (g, replicate n ()),
      generate_shares = \<lambda>g n. Done (g, replicate n (True, 0, 0)),
      known_triples = \<lambda>g ts ls rs. pbind (send_bits (map fst ls)) (\<lambda>_. pbind (send_bits (map fst rs)) (\<lambda>_.
        Done (g, replicate (length ts) (False, 0, 0))))\<rparr>"

definition dealer_evaluator :: "(bool \<times> label \<times> label, unit, unit) auth_lib" where
  "dealer_evaluator =
     \<lparr>share_bit = fst, share_mac = fst \<circ> snd, share_key = snd \<circ> snd, share_xor = share_linear_xor, share_mul = share_linear_mul,
      share_constant = \<lambda>b d. (False, 0, gate_mul b d),
      open_shares = \<lambda>d ss. pbind (read_bits dealer_labels (length ss)) (\<lambda>bs. pbind (send_bits (map fst ss)) (\<lambda>_. Done (xor_bits bs (map fst ss)))),
      open_my_shares = \<lambda>ss. send_bits (map fst ss),
      open_their_shares = \<lambda>d ss. read_bits dealer_labels (length ss),
      valid_delta = Done 1, generator_new = Done (), generator_with_delta = \<lambda>d. Done (), generator_delta = \<lambda>g. 1,
      generate_triples = \<lambda>g n. Done (g, replicate n ()),
      generate_shares = \<lambda>g n. Done (g, replicate n (False, 0, 1)),
      known_triples = \<lambda>g ts ls rs.
        pbind (read_bits dealer_labels (length ls)) (\<lambda>as. pbind (read_bits dealer_labels (length rs)) (\<lambda>bs.
        Done (g, map (\<lambda>(x, y). (x \<and> y, gate_mul (x \<and> y) 1, 0)) (zip (xor_bits as (map fst ls)) (xor_bits bs (map fst rs))))))\<rparr>"

definition dealer :: "(bool \<times> label \<times> label, unit, unit) parties" where
  "dealer = \<lparr>gb_lib = dealer_garbler, ev_lib = dealer_evaluator, labels = dealer_labels,
     same_session = \<lambda>g h. True, triple_ok = \<lambda>s t. True\<rparr>"

lemma dealer_labels_ok: "labels_ok dealer_labels"
proof -
  have "unat x mod 256 ^ 16 = unat x" for x :: label
    using unsigned_less [of x, where ?'a = nat] by simp
  then show ?thesis
    by (auto simp: labels_ok_def dealer_labels_def simp del: to_be.simps)
qed

lemma dealer_bits: "length xs = n \<Longrightarrow> delivers (send_bits xs) (read_bits dealer_labels n) (\<lambda>_ ys. ys = xs)"
  "length xs = n \<Longrightarrow> delivers (read_bits dealer_labels n) (send_bits xs) (\<lambda>ys _. ys = xs)"
  using delivers_bits [OF dealer_labels_ok, of xs] delivers_bits_back [OF dealer_labels_ok, of xs] by (auto simp: send_bits_def)

lemma dealer_linear: "linear dealer_garbler" "linear dealer_evaluator"
  by (auto simp: linear_def dealer_garbler_def dealer_evaluator_def share_linear_xor_def share_linear_mul_def)

lemma dealer_fields [simp]:
  "gb_lib dealer = dealer_garbler" "ev_lib dealer = dealer_evaluator" "labels dealer = dealer_labels" "same_session dealer = (\<lambda>g h. True)"
  "triple_ok dealer = (\<lambda>s t. True)"
  by (simp_all add: dealer_def)

lemma dealer_paired:
  "paired dealer dg de s t \<longleftrightarrow> fst (snd t) = snd (snd s) XOR gate_mul (fst t) dg \<and> fst (snd s) = snd (snd t) XOR gate_mul (fst s) de"
  "shared_bit dealer s t = (fst s \<noteq> fst t)"
  by (simp_all add: paired_def shared_bit_def dealer_garbler_def dealer_evaluator_def)

lemma dealer_shared_bits: "map2 (shared_bit dealer) ss ts = xor_bits (map fst ss) (map fst ts)"
  by (simp add: xor_bits_def dealer_paired zip_map_map comp_def split_def)

lemma dealer_openings_ok: "openings_ok dealer"
  unfolding openings_ok_def
proof (intro allI impI conjI, unfold dealer_shared_bits)
  fix dg de ss ts
  assume "all_paired dealer dg de ss ts"
  then have l: "length ss = length ts" by (rule list_all2_lengthD)
  show "delivers (open_their_shares (gb_lib dealer) dg ss) (open_my_shares (ev_lib dealer) ts) (\<lambda>x _. x = map (share_bit (ev_lib dealer)) ts)"
    "delivers (open_my_shares (gb_lib dealer) ss) (open_their_shares (ev_lib dealer) de ts) (\<lambda>_ y. y = map (share_bit (gb_lib dealer)) ss)"
    using l by (simp_all add: dealer_garbler_def dealer_evaluator_def dealer_bits)
  have "delivers (pbind (send_bits (map fst ss)) (\<lambda>_. pbind (read_bits dealer_labels (length ss)) (\<lambda>bs. Done (xor_bits (map fst ss) bs))))
    (pbind (read_bits dealer_labels (length ts)) (\<lambda>bs. pbind (send_bits (map fst ts)) (\<lambda>_. Done (xor_bits bs (map fst ts)))))
    (\<lambda>x y. x = xor_bits (map fst ss) (map fst ts) \<and> y = xor_bits (map fst ss) (map fst ts))"
    by (rule delivers_pbind [OF dealer_bits(1)], use l in simp, rule delivers_pbind [OF dealer_bits(2)]) (use l in \<open>auto intro: delivers_Done\<close>)
  then show "delivers (open_shares (gb_lib dealer) dg ss) (open_shares (ev_lib dealer) de ts)
      (\<lambda>x y. x = xor_bits (map fst ss) (map fst ts) \<and> y = xor_bits (map fst ss) (map fst ts))"
    by (simp add: dealer_garbler_def dealer_evaluator_def)
qed

lemma dealer_generators: "generators_paired dealer dg de g h \<longleftrightarrow> dg = 1 \<and> de = 1"
  by (auto simp: generators_paired_def dealer_garbler_def dealer_evaluator_def lsb_def)

lemma dealer_generators_ok: "generators_ok dealer"
  unfolding generators_ok_def dealer_generators
proof (intro conjI allI impI)
  fix dg de :: label and g h :: unit
  assume d: "dg = 1 \<and> de = 1"
  fix x y :: "unit list" and ls ls' rs rs'
  assume len: "all_paired dealer dg de ls ls'" "all_paired dealer dg de rs rs'" "length ls = length x" "length rs = length x"
  then have l: "length ls' = length x" "length rs' = length x" by (auto dest: list_all2_lengthD)
  show "delivers (known_triples (gb_lib dealer) g x ls rs) (known_triples (ev_lib dealer) h y ls' rs')
      (\<lambda>(g, ks) (h, ks'). (dg = 1 \<and> de = 1) \<and> all_paired dealer dg de ks ks' \<and>
        map2 (shared_bit dealer) ks ks' = map2 (\<and>) (map2 (shared_bit dealer) ls ls') (map2 (shared_bit dealer) rs rs'))"
    unfolding dealer_shared_bits dealer_garbler_def dealer_evaluator_def dealer_fields auth_lib.simps
    by (rule delivers_pbind [OF dealer_bits(1)], use len l in simp, rule delivers_pbind [OF dealer_bits(1)], use len l in simp)
      (use len l d in \<open>auto intro!: delivers_Done nth_equalityI simp: dealer_paired list_all2_conv_all_nth xor_bits_def\<close>)
qed (auto simp: dealer_garbler_def dealer_evaluator_def dealer_paired list_all2_conv_all_nth dealer_fields intro!: delivers_Done exI [of _ "1 :: label"])

lemma dealer_ok: "auth_ok dealer"
proof -
  have "constants_ok dealer"
    by (auto simp: constants_ok_def dealer_paired dealer_garbler_def dealer_evaluator_def)
  then show ?thesis
    by (simp add: auth_ok_def dealer_labels_ok dealer_linear dealer_openings_ok dealer_generators_ok)
qed

section \<open>Properties\<close>

text \<open>
  C8. A run of the garbling protocol: the preprocessing of the circuit, both parties' inputs, the
  garbling and evaluation of every gate with its check, and the opening of the outputs. On every
  schedule and for all random labels both finish, the evaluator with the outputs of the circuit on
  both inputs, and a session can go on with the same OT material.
\<close>

theorem garbled_run_correct:
  assumes "auth_ok P" and "wf_circuit c" and "sessions_ok P x y" and "n_gb + n_ev = cc_inputs c"
    and "are_bits xs" and "length xs = n_gb" and "are_bits ys" and "length ys = n_ev"
  shows "safe (both_ok (\<lambda>g (h, zs). sessions_ok P (Some g) (Some h) \<and> zs = circuit_value c (bits_of xs @ bits_of ys)))
    (garbler_run (gb_lib P) (labels P) c n_gb n_ev xs x, evaluator_run (ev_lib P) (labels P) c n_gb n_ev ys y, [], [])"
  using assms by (intro delivers_safe runs_deliver)

definition small_circuit :: call_circuit where
  "small_circuit =
     \<lparr>cc_inputs = 3, cc_calls = [Call_And 0 1, Call_Negate 3, Call_Constant True, Call_Xor 4 2, Call_And 6 5], cc_outputs = [3, 6, 7]\<rparr>"

theorem garbled_run_correct_witness:
  "safe (both_ok (\<lambda>g (h, zs). zs = [True, False, False]))
    (garbler_run dealer_garbler dealer_labels small_circuit 1 2 [1] None,
     evaluator_run dealer_evaluator dealer_labels small_circuit 1 2 [1, 0] None, [], [])"
proof -
  have v: "circuit_value small_circuit (bits_of [1] @ bits_of [1, 0]) = [True, False, False]"
    by (simp add: circuit_value_def small_circuit_def bits_of_def eval_nat_numeral)
  have "safe (both_ok (\<lambda>g (h, zs). sessions_ok dealer (Some g) (Some h) \<and> zs = circuit_value small_circuit (bits_of [1] @ bits_of [1, 0])))
    (garbler_run (gb_lib dealer) (labels dealer) small_circuit 1 2 [1] None,
     evaluator_run (ev_lib dealer) (labels dealer) small_circuit 1 2 [1, 0] None, [], [])"
    by (rule garbled_run_correct [OF dealer_ok])
      (simp_all add: wf_circuit_def small_circuit_def sessions_ok_def are_bits_def)
  then show ?thesis
    unfolding v dealer_fields by (rule safe_mono) (auto simp: both_ok_def)
qed

lemma serves_label:
  assumes "labels_ok W"
  shows "serves R (p, g x, [], []) \<Longrightarrow> serves R (Send (label_bytes W x) p, read_label W g, [], [])"
    and "serves R (p, g' b, [], []) \<Longrightarrow> serves R (Send (bit_bytes W b) p, read_bit W g', [], [])"
    and "serves R (f b, q, [], []) \<Longrightarrow> serves R (read_bit W f, Send (bit_bytes W b) q, [], [])"
  by (auto simp: read_label_def read_bit_def labels_okD [OF assms] intro!: serves.n_send serves.c_send serves.c_recv serves.n_recv)

lemma open_refused:
  assumes "auth_ok P" and "shares_bit P dg de True s t"
  shows "serves (\<lambda>x y. x = Inl e)
    (pbind (open_shares (gb_lib P) dg [s]) (\<lambda>vb. if vb ! 0 \<noteq> False then Error e else p vb), open_shares (ev_lib P) de [t], [], [])"
proof -
  have "serves (\<lambda>x y. x = Inl e) (pbind (open_shares (gb_lib P) dg [s]) (\<lambda>vb. if vb ! 0 \<noteq> False then Error e else p vb),
      pbind (open_shares (ev_lib P) de [t]) Done, [], [])"
    by (rule serves_pbind [OF open_one [OF assms, unfolded delivers_def]]) (auto intro: serves.final)
  then show ?thesis by simp
qed

text \<open>
  C9. The check of an AND gate: an evaluator that answers a garbled AND gate with the wrong masked
  value and then opens its share of the validation bit as the protocol says makes the garbler stop
  with the failed check, on every schedule.
\<close>

theorem wrong_masked_value_refused:
  assumes "auth_ok P" and "session_ok P dg de (lc # fresh) ((la \<and> lb) # known) gb ev"
    and "wire_ok P dg de za la a a'" and "wire_ok P dg de zb lb b b'" and "v \<noteq> ((za \<and> zb) \<noteq> lc)"
    and "evaluator = read_label (labels P) (\<lambda>gate0. read_label (labels P) (\<lambda>gate1. read_bit (labels P) (\<lambda>bit_c.
      Send (bit_bytes (labels P) v)
        (open_shares (ev_lib P) de [validation_share (ev_lib P) de a' b' v
          (ev_and_auth_shares ev ! ev_and_auth_shares_index ev) (ev_auth_shares ev ! ev_auth_shares_index ev)]))))"
  shows "safe (\<lambda>x y. x = Inl ''Garbler's authentication validation check failed'')
    (garbler_and (gb_lib P) (labels P) gb a b, evaluator, [], [])"
proof -
  define gb0 where "gb0 = gb\<lparr>gb_and_gate_index := gb_and_gate_index gb + 1\<rparr>"
  define ev0 where "ev0 = ev\<lparr>ev_and_wire_index := gb_and_gate_index gb + 1\<rparr>"
  have index: "next_and_gate_index gb = (gb0, gb_and_gate_index gb)"
    by (simp add: next_and_gate_index_def gb0_def)
  have "session_ok P dg de (lc # fresh) ((la \<and> lb) # known) gb0 ev0"
    using assms(2) by (simp add: session_ok_def gb0_def ev0_def)
  then obtain gb1 ev1 kc kc' where 1: "next_auth_share gb0 = Done (gb1, kc)" "ev_next_auth_share ev0 = Done (ev1, kc')"
    "session_ok P dg de fresh ((la \<and> lb) # known) gb1 ev1" "shares_bit P dg de lc kc kc'" by (rule garbler_next)
  from 1(3) obtain gb2 ev2 kt kt' where 2: "next_and_auth_share gb1 = Done (gb2, kt)" "ev_next_and_auth_share ev1 = Done (ev2, kt')"
    "session_ok P dg de fresh known gb2 ev2" "shares_bit P dg de (la \<and> lb) kt kt'" by (rule garbler_next_and)
  have k: "kc' = ev_auth_shares ev ! ev_auth_shares_index ev" "kt' = ev_and_auth_shares ev ! ev_and_auth_shares_index ev"
    using 1(2) 2(2) by (auto simp: ev_next_auth_share_def ev_next_and_auth_share_def in_range_def ev0_def split: if_splits)
  have W: "labels_ok (labels P)" and d: "gb_delta gb2 = dg" using assms(1) 2(3) by (simp_all add: auth_ok_def session_ok_def)
  have v: "shares_bit P dg de True (validation_share (gb_lib P) dg a b v kt kc) (validation_share (ev_lib P) de a' b' v kt' kc')"
    using validation_share_bit [OF assms(1,3,4) 2(4) 1(4), of v] assms(5) by simp
  show ?thesis
    unfolding garbler_and_def index Let_def prod.case 1(1) 2(1) pbind.simps d assms(6) k [symmetric]
    by (rule serves_safe, intro serves_label [OF W], rule open_refused [OF assms(1) v])
qed

definition sample_garbler :: "(bool \<times> label \<times> label) garbler" where
  "sample_garbler =
     \<lparr>gb_delta = 1, gb_zero = 7, gb_and_gate_index = 0, gb_auth_shares = [(True, 0, 0)], gb_auth_shares_index = 0,
      gb_and_auth_shares = [(False, 0, 0)], gb_and_auth_shares_index = 0\<rparr>"

definition sample_evaluator :: "(bool \<times> label \<times> label) evaluator" where
  "sample_evaluator =
     \<lparr>ev_delta = 1, ev_one = 6, ev_and_wire_index = 0, ev_auth_shares = [(False, 0, 1)], ev_auth_shares_index = 0,
      ev_and_auth_shares = [(False, 0, 0)], ev_and_auth_shares_index = 0\<rparr>"

definition sample_wire :: "label \<Rightarrow> (bool \<times> label \<times> label) auth_wire" where
  "sample_wire x = \<lparr>masked_value = True, wire_label = x, auth_share = (False, 0, 0)\<rparr>"

theorem wrong_masked_value_refused_witness:
  "safe (\<lambda>x y. x = Inl ''Garbler's authentication validation check failed'')
    (garbler_and dealer_garbler dealer_labels sample_garbler (sample_wire 2) (sample_wire 4),
     read_label dealer_labels (\<lambda>gate0. read_label dealer_labels (\<lambda>gate1. read_bit dealer_labels (\<lambda>bit_c.
       Send (bit_bytes dealer_labels True)
         (open_shares dealer_evaluator 1 [validation_share dealer_evaluator 1 (sample_wire 3) (sample_wire 5) True
           (False, 0, 0) (False, 0, 1)])))), [], [])"
proof -
  have wires: "wire_ok dealer 1 1 True False (sample_wire 2) (sample_wire 3)" "wire_ok dealer 1 1 True False (sample_wire 4) (sample_wire 5)"
    by (simp_all add: wire_ok_def sample_wire_def shares_bit_def dealer_paired)
  have "session_ok dealer 1 1 [True] [False \<and> False] sample_garbler sample_evaluator"
    by (simp add: session_ok_def sample_garbler_def sample_evaluator_def sharing_def dealer_paired lsb_def)
  from wrong_masked_value_refused [OF dealer_ok this wires _ refl, of True] show ?thesis
    by (simp add: sample_evaluator_def)
qed

end
