(* ===== verification/Wrk17_Runs.thy ===== *)
theory Wrk17_Runs
  imports Wrk17_Correct
begin

text \<open>
  Programs over the garbling protocol. \<open>garbling\<close> and \<open>evaluating\<close> replace every garbled circuit run of
  a process by the protocol of the theory \<open>Wrk17\<close>, with the session's OT material handed on from run
  to run; \<open>garbling_refines\<close> says that what the two processes reach with the ideal runs they reach with
  the protocol, so that every result about the ideal runs is one about the real ones.

  \<open>split_calls\<close> is the call sequence of \<open>SplitSharedInputMaskCircuit::execute\<close> around an inner circuit.
\<close>

section \<open>The protocol in place of the ideal runs\<close>

definition bit_values_of :: "bool list \<Rightarrow> nat list" where
  "bit_values_of = map of_bool"

primrec garbling ::
  "(wrk17_circuit \<Rightarrow> call_circuit) \<Rightarrow> ('s, 't, 'g) auth_lib \<Rightarrow> label_env \<Rightarrow> 'a proc \<Rightarrow> 'g \<Rightarrow> 'a proc" where
  "garbling F L W (Done a) g = Done a"
| "garbling F L W (Error e) g = Error e"
| "garbling F L W (Send bs p) g = Send bs (garbling F L W p g)"
| "garbling F L W (Recv n f) g = Recv n (\<lambda>bs. garbling F L W (f bs) g)"
| "garbling F L W (Random n f) g = Random n (\<lambda>bs. garbling F L W (f bs) g)"
| "garbling F L W (Garble c xs p) g =
     pbind (garbler_run L W (F c) (garbler_inputs c) (evaluator_inputs c) (bit_values_of xs) (Some g)) (\<lambda>g. garbling F L W p g)"
| "garbling F L W (Evaluate c ys f) g = Evaluate c ys (\<lambda>zs. garbling F L W (f zs) g)"

primrec evaluating ::
  "(wrk17_circuit \<Rightarrow> call_circuit) \<Rightarrow> ('s, 't, 'g) auth_lib \<Rightarrow> label_env \<Rightarrow> 'a proc \<Rightarrow> 'g \<Rightarrow> 'a proc" where
  "evaluating F L W (Done a) h = Done a"
| "evaluating F L W (Error e) h = Error e"
| "evaluating F L W (Send bs p) h = Send bs (evaluating F L W p h)"
| "evaluating F L W (Recv n f) h = Recv n (\<lambda>bs. evaluating F L W (f bs) h)"
| "evaluating F L W (Random n f) h = Random n (\<lambda>bs. evaluating F L W (f bs) h)"
| "evaluating F L W (Garble c xs p) h = Garble c xs (evaluating F L W p h)"
| "evaluating F L W (Evaluate c ys f) h =
     pbind (evaluator_run L W (F c) (garbler_inputs c) (evaluator_inputs c) (bit_values_of ys) (Some h))
       (\<lambda>(h, zs). evaluating F L W (f zs) h)"

text \<open>\<open>Wrk17NotarySession::init\<close> and \<open>Wrk17ClientSession::init\<close> in front of a program.\<close>

definition wrk17_notary_session ::
  "(wrk17_circuit \<Rightarrow> call_circuit) \<Rightarrow> ('s, 't, 'g) auth_lib \<Rightarrow> label_env \<Rightarrow> 'a proc \<Rightarrow> 'a proc" where
  "wrk17_notary_session F L W p = pbind (generator_new L) (garbling F L W p)"

definition wrk17_client_session ::
  "(wrk17_circuit \<Rightarrow> call_circuit) \<Rightarrow> ('s, 't, 'g) auth_lib \<Rightarrow> label_env \<Rightarrow> 'a proc \<Rightarrow> 'a proc" where
  "wrk17_client_session F L W p = pbind (generator_new L) (evaluating F L W p)"

text \<open>The circuits a process runs, and the call sequences that compute them.\<close>

primrec circuits_in :: "wrk17_circuit set \<Rightarrow> 'a proc \<Rightarrow> bool" where
  "circuits_in Cs (Done a) \<longleftrightarrow> True"
| "circuits_in Cs (Error e) \<longleftrightarrow> True"
| "circuits_in Cs (Send bs p) \<longleftrightarrow> circuits_in Cs p"
| "circuits_in Cs (Recv n f) \<longleftrightarrow> (\<forall>bs. circuits_in Cs (f bs))"
| "circuits_in Cs (Random n f) \<longleftrightarrow> (\<forall>bs. circuits_in Cs (f bs))"
| "circuits_in Cs (Garble c xs p) \<longleftrightarrow> c \<in> Cs \<and> circuits_in Cs p"
| "circuits_in Cs (Evaluate c ys f) \<longleftrightarrow> c \<in> Cs \<and> (\<forall>zs. circuits_in Cs (f zs))"

definition implements :: "call_circuit \<Rightarrow> wrk17_circuit \<Rightarrow> bool" where
  "implements d c \<longleftrightarrow> wf_circuit d \<and> cc_inputs d = garbler_inputs c + evaluator_inputs c \<and>
     (\<forall>zs. length zs = cc_inputs d \<longrightarrow> circuit_value d zs = circuit_fun c zs)"

lemma circuits_in_pbind: "circuits_in Cs p \<Longrightarrow> (\<And>x. circuits_in Cs (f x)) \<Longrightarrow> circuits_in Cs (pbind p f)"
  by (induction p) simp_all

lemma bits_of_bit_values [simp]: "bits_of (bit_values_of xs) = xs" "are_bits (bit_values_of xs)" "length (bit_values_of xs) = length xs"
  by (simp_all add: bits_of_def bit_values_of_def are_bits_def list_all_iff comp_def)

lemma garbling_refines:
  assumes ok: "auth_ok P" and impl: "\<And>c. c \<in> Cs \<Longrightarrow> implements (F c) c"
  shows "serves R (p, q, a, b) \<Longrightarrow> circuits_in Cs p \<Longrightarrow> circuits_in Cs q \<Longrightarrow> sessions_ok P (Some g) (Some h) \<Longrightarrow>
    serves R (garbling F (gb_lib P) (labels P) p g, evaluating F (ev_lib P) (labels P) q h, a, b)"
proof (induction "(p, q, a, b)" arbitrary: p q a b g h rule: serves.induct)
  case (final p x q y)
  moreover have "outcome (garbling F (gb_lib P) (labels P) p g) = Some x" using final(1) by (cases p) auto
  moreover have "outcome (evaluating F (ev_lib P) (labels P) q h) = Some y" using final(2) by (cases q) auto
  ultimately show ?case by (auto intro: serves.final)
next
  case (garbled p f c xs ys)
  have c: "wf_circuit (F c)" "garbler_inputs c + evaluator_inputs c = cc_inputs (F c)"
    "circuit_value (F c) (xs @ ys) = circuit_fun c (xs @ ys)"
    using impl [of c] garbled(3-5) by (auto simp: implements_def)
  have "delivers (garbler_run (gb_lib P) (labels P) (F c) (garbler_inputs c) (evaluator_inputs c) (bit_values_of xs) (Some g))
      (evaluator_run (ev_lib P) (labels P) (F c) (garbler_inputs c) (evaluator_inputs c) (bit_values_of ys) (Some h))
      (\<lambda>g (h, zs). sessions_ok P (Some g) (Some h) \<and> zs = circuit_value (F c) (bits_of (bit_values_of xs) @ bits_of (bit_values_of ys)))"
    by (rule runs_deliver [OF ok c(1) garbled(7) c(2)]) (use garbled(3,4) in simp_all)
  then show ?case
    unfolding garbling.simps evaluating.simps delivers_def
    by (rule serves_pbind) (use garbled c(3) in auto)
qed (auto intro: serves.intros)

text \<open>What a protocol delivers with ideal runs it delivers with the garbling protocol, the session's bootstrap in front.\<close>

lemma sessions_deliver:
  assumes "delivers p q R" and ok: "auth_ok P" and "\<And>c. c \<in> Cs \<Longrightarrow> implements (F c) c"
    and "circuits_in Cs p" and "circuits_in Cs q"
  shows "delivers (wrk17_notary_session F (gb_lib P) (labels P) p) (wrk17_client_session F (ev_lib P) (labels P) q) R"
  unfolding wrk17_notary_session_def wrk17_client_session_def
proof (rule delivers_pbind)
  show "delivers (generator_new (gb_lib P)) (generator_new (ev_lib P)) (\<lambda>g h. sessions_ok P (Some g) (Some h))"
    using ok by (auto simp: auth_ok_def generators_ok_def sessions_ok_def)
next
  fix g h
  assume "sessions_ok P (Some g) (Some h)"
  with garbling_refines [OF ok assms(3), of Cs] assms(1,4,5)
  show "delivers (garbling F (gb_lib P) (labels P) p g) (evaluating F (ev_lib P) (labels P) q h) R"
    unfolding delivers_def by blast
qed

section \<open>The circuit wrapper as calls\<close>

fun shift_call :: "nat \<Rightarrow> call \<Rightarrow> call" where
  "shift_call k (Call_And i j) = Call_And (k + i) (k + j)"
| "shift_call k (Call_Xor i j) = Call_Xor (k + i) (k + j)"
| "shift_call k (Call_Negate i) = Call_Negate (k + i)"
| "shift_call k (Call_Constant v) = Call_Constant v"

text \<open>The wires: the inputs, then those of the inner circuit, then two for each output.\<close>

definition split_calls :: "call_circuit \<Rightarrow> nat \<Rightarrow> nat \<Rightarrow> call_circuit" where
  "split_calls d shared mbits =
     (let gb = shared + mbits; ev = shared + mbits;
          inputs = gb + ev;
          outs = inputs + shared + length (cc_calls d)
      in \<lparr>cc_inputs = inputs,
          cc_calls =
            map (\<lambda>i. Call_Xor i (gb + i)) [0..<shared] @
            map (shift_call inputs) (cc_calls d) @
            concat (map (\<lambda>(i, out). [Call_Xor (shared + i) (gb + shared + i), Call_Xor (inputs + out) (outs + 2 * i)])
              (enumerate 0 (cc_outputs d))),
          cc_outputs = map (\<lambda>i. outs + 2 * i + 1) [0..<length (cc_outputs d)]\<rparr>)"

lemma run_calls_append: "run_calls (cs @ ds) vs = run_calls ds (run_calls cs vs)"
  by (induction cs arbitrary: vs) simp_all

lemma wf_calls_append: "wf_calls n (cs @ ds) \<longleftrightarrow> wf_calls n cs \<and> wf_calls (n + length cs) ds"
  by (induction cs arbitrary: n) simp_all

lemma call_value_shift: "wf_call (length vs) c \<Longrightarrow> call_value (us @ vs) (shift_call (length us) c) = call_value vs c"
  by (cases c) (simp_all add: nth_append)

lemma run_calls_shift: "wf_calls (length vs) cs \<Longrightarrow> run_calls (map (shift_call (length us)) cs) (us @ vs) = us @ run_calls cs vs"
  by (induction cs arbitrary: vs) (simp_all add: call_value_shift)

lemma wf_calls_shift: "wf_calls n cs \<Longrightarrow> wf_calls (k + n) (map (shift_call k) cs)"
proof (induction cs arbitrary: n)
  case (Cons c cs)
  moreover have "wf_call (k + n) (shift_call k c)" using Cons.prems by (cases c) simp_all
  ultimately show ?case using Cons.IH [of "Suc n"] by simp
qed simp

text \<open>Calls that read only wires in front of them all.\<close>

lemma run_calls_map:
  assumes "\<And>x vs'. x \<in> set xs \<Longrightarrow> call_value (vs @ vs') (f x) = g x"
  shows "run_calls (map f xs) (vs @ vs') = vs @ vs' @ map g xs"
  using assms by (induction xs arbitrary: vs') simp_all

text \<open>The calls of the outputs: the mask bit of each, then the masked output.\<close>

lemma run_output_calls:
  assumes "\<And>i. i < k + length os \<Longrightarrow> f i < length vs \<and> g i < length vs" and "list_all (\<lambda>w. w < length vs) os" and "length acc = 2 * k"
  shows "run_calls (concat (map (\<lambda>(i, w). [Call_Xor (f i) (g i), Call_Xor w (length vs + 2 * i)]) (enumerate k os))) (vs @ acc) =
    vs @ acc @ concat (map (\<lambda>(i, w). [vs ! f i \<noteq> vs ! g i, vs ! w \<noteq> (vs ! f i \<noteq> vs ! g i)]) (enumerate k os))"
  using assms
proof (induction os arbitrary: k acc)
  case (Cons w os)
  have fg: "f k < length vs" "g k < length vs" "w < length vs" using Cons.prems by auto
  let ?m = "vs ! f k \<noteq> vs ! g k"
  have "run_calls (concat (map (\<lambda>(i, w). [Call_Xor (f i) (g i), Call_Xor w (length vs + 2 * i)]) (enumerate (Suc k) os)))
      (vs @ (acc @ [?m, vs ! w \<noteq> ?m])) = vs @ (acc @ [?m, vs ! w \<noteq> ?m]) @
      concat (map (\<lambda>(i, w). [vs ! f i \<noteq> vs ! g i, vs ! w \<noteq> (vs ! f i \<noteq> vs ! g i)]) (enumerate (Suc k) os))"
    by (rule Cons.IH) (use Cons.prems in auto)
  with fg Cons.prems(3) show ?case by (simp add: nth_append)
qed simp

lemma nth_concat_pairs:
  "i < length xs \<Longrightarrow> concat (map (\<lambda>x. [f x, g x]) xs) ! (2 * i + 1) = g (xs ! i)"
proof (induction xs arbitrary: i)
  case (Cons x xs)
  then show ?case by (cases i) simp_all
qed simp

lemma length_concat_pairs: "length (concat (map (\<lambda>x. [f x, g x]) xs)) = 2 * length xs"
  by (induction xs) simp_all

lemma split_calls_value:
  assumes wf: "wf_circuit d" and s: "cc_inputs d = s" and m: "length (cc_outputs d) = m" and len: "length zs = 2 * (s + m)"
  shows "circuit_value (split_calls d s m) zs = split_execute \<lparr>inner = circuit_value d, shared_inputs = s, mask_bits = m\<rparr> zs"
proof -
  define shared where "shared = map (\<lambda>i. zs ! i \<noteq> zs ! (s + m + i)) [0..<s]"
  define vs where "vs = zs @ run_calls (cc_calls d) shared"
  have inputs: "s + m + (s + m) = length zs" using len by simp
  have l: "length vs = length zs + s + length (cc_calls d)" by (simp add: vs_def shared_def)
  have "run_calls (map (\<lambda>i. Call_Xor i (s + m + i)) [0..<s]) (zs @ []) = zs @ [] @ shared"
    unfolding shared_def by (rule run_calls_map) (use len in \<open>auto simp: nth_append\<close>)
  moreover have "run_calls (map (shift_call (length zs)) (cc_calls d)) (zs @ shared) = vs"
    unfolding vs_def by (rule run_calls_shift) (use wf s in \<open>simp add: wf_circuitD(1) [OF wf, unfolded s] shared_def\<close>)
  ultimately have first: "run_calls (map (\<lambda>i. Call_Xor i (s + m + i)) [0..<s] @ map (shift_call (length zs)) (cc_calls d)) zs = vs"
    by (simp add: run_calls_append)
  let ?f = "\<lambda>i. s + i" and ?g = "\<lambda>i. s + m + s + i"
  let ?pairs = "concat (map (\<lambda>(i, w). [vs ! ?f i \<noteq> vs ! ?g i, vs ! w \<noteq> (vs ! ?f i \<noteq> vs ! ?g i)]) (enumerate 0 (map ((+) (length zs)) (cc_outputs d))))"
  have outs: "list_all (\<lambda>w. w < length vs) (map ((+) (length zs)) (cc_outputs d))"
    using wf s l by (auto simp: wf_circuit_def list_all_iff)
  have "run_calls (concat (map (\<lambda>(i, w). [Call_Xor (?f i) (?g i), Call_Xor w (length vs + 2 * i)])
      (enumerate 0 (map ((+) (length zs)) (cc_outputs d))))) (vs @ []) = vs @ [] @ ?pairs"
    by (rule run_output_calls [OF _ outs]) (use len m l in auto)
  moreover have "enumerate 0 (map ((+) (length zs)) (cc_outputs d)) = map (\<lambda>(i, w). (i, length zs + w)) (enumerate 0 (cc_outputs d))"
    by (rule nth_equalityI) (auto simp: nth_enumerate_eq)
  then have "concat (map (\<lambda>(i, w). [Call_Xor (?f i) (?g i), Call_Xor w (length vs + 2 * i)])
      (enumerate 0 (map ((+) (length zs)) (cc_outputs d)))) =
    concat (map (\<lambda>(i, w). [Call_Xor (?f i) (?g i), Call_Xor (length zs + w) (length vs + 2 * i)]) (enumerate 0 (cc_outputs d)))"
    by (simp only: map_map comp_def split_def fst_conv snd_conv)
  ultimately have second: "run_calls (concat (map (\<lambda>(i, w). [Call_Xor (?f i) (?g i), Call_Xor (length zs + w) (length vs + 2 * i)])
      (enumerate 0 (cc_outputs d)))) vs = vs @ ?pairs"
    by (simp only: append_Nil append_Nil2)
  have "cc_calls (split_calls d s m) =
      (map (\<lambda>i. Call_Xor i (s + m + i)) [0..<s] @ map (shift_call (length zs)) (cc_calls d)) @
      concat (map (\<lambda>(i, w). [Call_Xor (?f i) (?g i), Call_Xor (length zs + w) (length vs + 2 * i)]) (enumerate 0 (cc_outputs d)))"
    by (simp only: split_calls_def Let_def inputs l call_circuit.simps append_assoc)
  then have all: "run_calls (cc_calls (split_calls d s m)) zs = vs @ ?pairs"
    by (simp only: run_calls_append [of "_ @ _"] first second)
  have pair: "(vs @ ?pairs) ! (length vs + 2 * i + 1) = (circuit_value d shared ! i \<noteq> (zs ! (s + i) \<noteq> zs ! (s + m + s + i)))" if "i < m" for i
  proof -
    have "?pairs ! (2 * i + 1) = (vs ! (length zs + cc_outputs d ! i) \<noteq> (vs ! ?f i \<noteq> vs ! ?g i))"
      unfolding split_def using that m by (subst nth_concat_pairs) (simp_all add: nth_enumerate_eq)
    moreover have "(vs @ ?pairs) ! (length vs + 2 * i + 1) = ?pairs ! (2 * i + 1)"
      by (simp add: nth_append)
    ultimately show ?thesis
      using that m len by (simp add: vs_def nth_append circuit_value_def)
  qed
  show ?thesis
  proof (rule nth_equalityI)
    show "length (circuit_value (split_calls d s m) zs) = length (split_execute \<lparr>inner = circuit_value d, shared_inputs = s, mask_bits = m\<rparr> zs)"
      using m by (simp add: circuit_value_def split_calls_def split_execute_def Let_def)
  next
    fix i
    assume "i < length (circuit_value (split_calls d s m) zs)"
    then have i: "i < m" using m by (simp add: circuit_value_def split_calls_def Let_def)
    have o: "cc_outputs (split_calls d s m) = map (\<lambda>i. length vs + 2 * i + 1) [0..<m]"
      by (simp only: split_calls_def Let_def inputs l m call_circuit.simps)
    have "circuit_value (split_calls d s m) zs ! i = (vs @ ?pairs) ! (length vs + 2 * i + 1)"
      using i unfolding circuit_value_def all o by (simp only: nth_map length_map length_upt nth_upt) simp
    also note pair [OF i]
    also have "(circuit_value d shared ! i \<noteq> (zs ! (s + i) \<noteq> zs ! (s + m + s + i))) =
        split_execute \<lparr>inner = circuit_value d, shared_inputs = s, mask_bits = m\<rparr> zs ! i"
      using i m by (simp add: split_execute_def sc_garbler_inputs_def Let_def shared_def circuit_value_def nth_enumerate_eq add.assoc)
    finally show "circuit_value (split_calls d s m) zs ! i =
        split_execute \<lparr>inner = circuit_value d, shared_inputs = s, mask_bits = m\<rparr> zs ! i" .
  qed
qed

lemma wf_output_calls:
  assumes "\<And>i. i < k + length os \<Longrightarrow> f i < n \<and> g i < n" and "list_all (\<lambda>w. w < n) os"
  shows "wf_calls (n + 2 * k) (concat (map (\<lambda>(i, w). [Call_Xor (f i) (g i), Call_Xor w (n + 2 * i)]) (enumerate k os)))"
  using assms
proof (induction os arbitrary: k)
  case (Cons w os)
  have "wf_calls (n + 2 * Suc k) (concat (map (\<lambda>(i, w). [Call_Xor (f i) (g i), Call_Xor w (n + 2 * i)]) (enumerate (Suc k) os)))"
    by (rule Cons.IH) (use Cons.prems in auto)
  moreover have "f k < n" "g k < n" "w < n" using Cons.prems by auto
  ultimately show ?case by simp
qed simp

lemma wf_calls_map:
  "(\<And>x k. x \<in> set xs \<Longrightarrow> wf_call (n + k) (f x)) \<Longrightarrow> wf_calls (n + k) (map f xs)"
proof (induction xs arbitrary: k)
  case (Cons x xs)
  then show ?case using Cons.IH [of "Suc k"] by simp
qed simp

lemma length_output_calls: "length (concat (map (\<lambda>(i, w). [f i w, g i w]) (enumerate k os))) = 2 * length os"
  by (induction os arbitrary: k) simp_all

lemma split_calls_wf:
  assumes wf: "wf_circuit d" and s: "cc_inputs d = s" and m: "length (cc_outputs d) = m"
  shows "wf_circuit (split_calls d s m)"
proof -
  let ?in = "s + m + (s + m)"
  let ?n = "?in + s + length (cc_calls d)"
  have 1: "wf_calls (?in + 0) (map (\<lambda>i. Call_Xor i (s + m + i)) [0..<s])"
    by (rule wf_calls_map) auto
  have 2: "wf_calls (?in + s) (map (shift_call ?in) (cc_calls d))"
    using wf_calls_shift [OF wf_circuitD(1) [OF wf], of ?in] by (simp only: s)
  have "list_all (\<lambda>w. w < ?n) (map ((+) ?in) (cc_outputs d))"
    using wf s by (auto simp: wf_circuit_def list_all_iff)
  then have "wf_calls (?n + 2 * 0) (concat (map (\<lambda>(i, w). [Call_Xor (s + i) (s + m + s + i), Call_Xor w (?n + 2 * i)])
      (enumerate 0 (map ((+) ?in) (cc_outputs d)))))"
    by (intro wf_output_calls) (use m in auto)
  moreover have "enumerate 0 (map ((+) ?in) (cc_outputs d)) = map (\<lambda>(i, w). (i, ?in + w)) (enumerate 0 (cc_outputs d))"
    by (rule nth_equalityI) (auto simp: nth_enumerate_eq)
  ultimately have 3: "wf_calls ?n (concat (map (\<lambda>(i, w). [Call_Xor (s + i) (s + m + s + i), Call_Xor (?in + w) (?n + 2 * i)])
      (enumerate 0 (cc_outputs d))))"
    by (simp only: map_map comp_def split_def fst_conv snd_conv mult_0_right add_0_right)
  have "wf_calls (cc_inputs (split_calls d s m)) (cc_calls (split_calls d s m))"
    using 1 2 3 by (simp only: split_calls_def Let_def call_circuit.simps wf_calls_append length_map length_upt minus_nat.diff_0 add_0_right simp_thms)
  moreover have "list_all (\<lambda>i. i < cc_inputs (split_calls d s m) + length (cc_calls (split_calls d s m))) (cc_outputs (split_calls d s m))"
    using m by (auto simp: split_calls_def Let_def list_all_iff length_output_calls)
  ultimately show ?thesis by (simp add: wf_circuit_def)
qed

lemma split_implements:
  assumes "wf_circuit d" and "cc_inputs d = shared_inputs c" and "length (cc_outputs d) = mask_bits c"
    and "\<And>zs. length zs = shared_inputs c \<Longrightarrow> circuit_value d zs = inner c zs"
  shows "implements (split_calls d (shared_inputs c) (mask_bits c)) (split_wrk17 c)"
proof -
  have "split_execute \<lparr>inner = circuit_value d, shared_inputs = shared_inputs c, mask_bits = mask_bits c\<rparr> zs = split_execute c zs" for zs
    using assms(4) by (simp add: split_execute_def sc_garbler_inputs_def)
  then show ?thesis
    using split_calls_value [OF assms(1-3)] split_calls_wf [OF assms(1-3)]
    by (auto simp: implements_def split_wrk17_def sc_garbler_inputs_def sc_evaluator_inputs_def split_calls_def Let_def)
qed

end
