(* ===== verification/Sha256_Circuit.thy ===== *)
theory Sha256_Circuit
  imports Hkdf "HOL-Library.State_Monad"
begin

text \<open>
  The generator of the SHA-256 compression circuit (\<open>notary/src/bin/gen_sha256_compress.rs\<close>): the
  circuit builder as a state monad over the record \<open>builder\<close>, the helpers on words of 32 wires, the
  rounds, and the circuit as it is written out in the Bristol format. The compression function of
  FIPS 180-4 on machine words is the specification.

  A gate list is evaluated in order on a map from wires to bits. The lemmas say of every helper that it
  keeps the values of the wires there are and returns wires that hold the word it should compute
  (\<open>produces\<close>), and how many gates it adds (\<open>adds\<close>); both are carried through the program by one rule
  per construct of the monad.
\<close>

section \<open>The builder\<close>

datatype gate_kind = Inv | Xor | And

record gate =
  g_kind :: gate_kind
  g_in1 :: nat
  g_in2 :: nat
  g_out :: nat

record builder =
  next_wire :: nat
  gates :: "gate list"
  b_zero :: nat
  b_one :: nat

type_synonym 'a building = "(builder, 'a) state"

definition alloc_wire :: "nat building" where
  "alloc_wire = do {b \<leftarrow> State_Monad.get; _ \<leftarrow> State_Monad.set (b\<lparr>next_wire := next_wire b + 1\<rparr>); State_Monad.return (next_wire b)}"

definition push_gate :: "gate_kind \<Rightarrow> nat \<Rightarrow> nat \<Rightarrow> nat \<Rightarrow> unit building" where
  "push_gate k i j o' = State_Monad.update (\<lambda>b. b\<lparr>gates := gates b @ [\<lparr>g_kind = k, g_in1 = i, g_in2 = j, g_out = o'\<rparr>]\<rparr>)"

definition builder_xor :: "nat \<Rightarrow> nat \<Rightarrow> nat building" where
  "builder_xor a c = do {out \<leftarrow> alloc_wire; _ \<leftarrow> push_gate Xor a c out; State_Monad.return out}"

definition builder_and :: "nat \<Rightarrow> nat \<Rightarrow> nat building" where
  "builder_and a c = do {out \<leftarrow> alloc_wire; _ \<leftarrow> push_gate And a c out; State_Monad.return out}"

definition builder_inv :: "nat \<Rightarrow> nat building" where
  "builder_inv a = do {out \<leftarrow> alloc_wire; _ \<leftarrow> push_gate Inv a 0 out; State_Monad.return out}"

text \<open>\<open>Builder::new\<close>; \<open>usize::MAX\<close> stands in the constants until they are built.\<close>

definition builder_new :: "nat \<Rightarrow> builder" where
  "builder_new n_input_bits =
     snd (State_Monad.run_state
       (do {z \<leftarrow> alloc_wire; _ \<leftarrow> push_gate Xor 0 0 z; _ \<leftarrow> State_Monad.update (\<lambda>b. b\<lparr>b_zero := z\<rparr>);
            o' \<leftarrow> alloc_wire; _ \<leftarrow> push_gate Inv z 0 o'; State_Monad.update (\<lambda>b. b\<lparr>b_one := o'\<rparr>)})
       \<lparr>next_wire = n_input_bits, gates = [], b_zero = 2 ^ 64 - 1, b_one = 2 ^ 64 - 1\<rparr>)"

definition constant_u32 :: "u32 \<Rightarrow> nat list building" where
  "constant_u32 v = do {b \<leftarrow> State_Monad.get;
     State_Monad.return (map (\<lambda>i. if drop_bit (31 - i) v AND 1 = 1 then b_one b else b_zero b) [0..<32])}"

section \<open>Words of 32 wires, the most significant bit first\<close>

primrec for_in :: "'i list \<Rightarrow> 's \<Rightarrow> ('i \<Rightarrow> 's \<Rightarrow> 's building) \<Rightarrow> 's building" where
  "for_in [] s f = State_Monad.return s"
| "for_in (i # is) s f = do {s \<leftarrow> f i s; for_in is s f}"

definition input_word :: "nat \<Rightarrow> nat list" where
  "input_word start_wire = map (\<lambda>i. start_wire + i) [0..<32]"

definition xor_u32 :: "nat list \<Rightarrow> nat list \<Rightarrow> nat list building" where
  "xor_u32 a c = for_in [0..<32] (replicate 32 0) (\<lambda>i out. do {w \<leftarrow> builder_xor (a ! i) (c ! i); State_Monad.return (out[i := w])})"

definition and_u32 :: "nat list \<Rightarrow> nat list \<Rightarrow> nat list building" where
  "and_u32 a c = for_in [0..<32] (replicate 32 0) (\<lambda>i out. do {w \<leftarrow> builder_and (a ! i) (c ! i); State_Monad.return (out[i := w])})"

definition not_u32 :: "nat list \<Rightarrow> nat list building" where
  "not_u32 a = for_in [0..<32] (replicate 32 0) (\<lambda>i out. do {w \<leftarrow> builder_inv (a ! i); State_Monad.return (out[i := w])})"

definition rotr_u32 :: "nat list \<Rightarrow> nat \<Rightarrow> nat list" where
  "rotr_u32 a n = (let n = n mod 32 in map (\<lambda>k. a ! ((k + 32 - n) mod 32)) [0..<32])"

definition shr_u32 :: "nat list \<Rightarrow> nat \<Rightarrow> nat list building" where
  "shr_u32 a n = do {b \<leftarrow> State_Monad.get;
     State_Monad.return (map (\<lambda>k. if k \<ge> n then a ! (k - n) else b_zero b) [0..<32])}"

definition add_u32 :: "nat list \<Rightarrow> nat list \<Rightarrow> nat list building" where
  "add_u32 x y = do {
     s31 \<leftarrow> builder_xor (x ! 31) (y ! 31);
     carry \<leftarrow> builder_and (x ! 31) (y ! 31);
     (sum', carry) \<leftarrow> for_in (rev [0..<31]) ((replicate 32 0)[31 := s31], carry) (\<lambda>i (sum', carry). do {
       t1 \<leftarrow> builder_xor (x ! i) (y ! i);
       s \<leftarrow> builder_xor t1 carry;
       t2 \<leftarrow> builder_and (x ! i) (y ! i);
       t3 \<leftarrow> builder_and t1 carry;
       carry \<leftarrow> builder_xor t2 t3;
       State_Monad.return (sum'[i := s], carry)});
     State_Monad.return sum'}"

section \<open>SHA-256\<close>

definition ch :: "nat list \<Rightarrow> nat list \<Rightarrow> nat list \<Rightarrow> nat list building" where
  "ch x y z = do {xy \<leftarrow> and_u32 x y; nx \<leftarrow> not_u32 x; nxz \<leftarrow> and_u32 nx z; xor_u32 xy nxz}"

definition maj :: "nat list \<Rightarrow> nat list \<Rightarrow> nat list \<Rightarrow> nat list building" where
  "maj x y z = do {xy \<leftarrow> and_u32 x y; xz \<leftarrow> and_u32 x z; yz \<leftarrow> and_u32 y z; a \<leftarrow> xor_u32 xy xz; xor_u32 a yz}"

definition big_sigma0 :: "nat list \<Rightarrow> nat list building" where
  "big_sigma0 x = do {e \<leftarrow> xor_u32 (rotr_u32 x 2) (rotr_u32 x 13); xor_u32 e (rotr_u32 x 22)}"

definition big_sigma1 :: "nat list \<Rightarrow> nat list building" where
  "big_sigma1 x = do {e \<leftarrow> xor_u32 (rotr_u32 x 6) (rotr_u32 x 11); xor_u32 e (rotr_u32 x 25)}"

definition small_sigma0 :: "nat list \<Rightarrow> nat list building" where
  "small_sigma0 x = do {d \<leftarrow> shr_u32 x 3; e \<leftarrow> xor_u32 (rotr_u32 x 7) (rotr_u32 x 18); xor_u32 e d}"

definition small_sigma1 :: "nat list \<Rightarrow> nat list building" where
  "small_sigma1 x = do {d \<leftarrow> shr_u32 x 10; e \<leftarrow> xor_u32 (rotr_u32 x 17) (rotr_u32 x 19); xor_u32 e d}"

definition K_CONSTANTS :: "u32 list" where
  "K_CONSTANTS = concat [
    [0x428a2f98, 0x71374491, 0xb5c0fbcf, 0xe9b5dba5, 0x3956c25b, 0x59f111f1, 0x923f82a4, 0xab1c5ed5],
    [0xd807aa98, 0x12835b01, 0x243185be, 0x550c7dc3, 0x72be5d74, 0x80deb1fe, 0x9bdc06a7, 0xc19bf174],
    [0xe49b69c1, 0xefbe4786, 0x0fc19dc6, 0x240ca1cc, 0x2de92c6f, 0x4a7484aa, 0x5cb0a9dc, 0x76f988da],
    [0x983e5152, 0xa831c66d, 0xb00327c8, 0xbf597fc7, 0xc6e00bf3, 0xd5a79147, 0x06ca6351, 0x14292967],
    [0x27b70a85, 0x2e1b2138, 0x4d2c6dfc, 0x53380d13, 0x650a7354, 0x766a0abb, 0x81c2c92e, 0x92722c85],
    [0xa2bfe8a1, 0xa81a664b, 0xc24b8b70, 0xc76c51a3, 0xd192e819, 0xd6990624, 0xf40e3585, 0x106aa070],
    [0x19a4c116, 0x1e376c08, 0x2748774c, 0x34b0bcb5, 0x391c0cb3, 0x4ed8aa4a, 0x5b9cca4f, 0x682e6ff3],
    [0x748f82ee, 0x78a5636f, 0x84c87814, 0x8cc70208, 0x90befffa, 0xa4506ceb, 0xbef9a3f7, 0xc67178f2]]"

text \<open>The loops of \<open>build_compression\<close>: the message schedule and the rounds.\<close>

definition schedule_step :: "nat \<Rightarrow> nat list list \<Rightarrow> nat list list building" where
  "schedule_step i w = do {
     s1 \<leftarrow> small_sigma1 (w ! (i - 2));
     s0 \<leftarrow> small_sigma0 (w ! (i - 15));
     t \<leftarrow> add_u32 s1 (w ! (i - 7));
     u \<leftarrow> add_u32 s0 (w ! (i - 16));
     wi \<leftarrow> add_u32 t u;
     State_Monad.return (w[i := wi])}"

type_synonym 'w working = "'w \<times> 'w \<times> 'w \<times> 'w \<times> 'w \<times> 'w \<times> 'w \<times> 'w"

definition round_step :: "nat list list \<Rightarrow> nat \<Rightarrow> nat list working \<Rightarrow> nat list working building" where
  "round_step w i = (\<lambda>(a, b_v, c, d, e, f, g, hh). do {
     k_i \<leftarrow> constant_u32 (K_CONSTANTS ! i);
     s1 \<leftarrow> big_sigma1 e;
     chv \<leftarrow> ch e f g;
     t \<leftarrow> add_u32 hh s1;
     t \<leftarrow> add_u32 t chv;
     t \<leftarrow> add_u32 t k_i;
     t1 \<leftarrow> add_u32 t (w ! i);
     s0 \<leftarrow> big_sigma0 a;
     mj \<leftarrow> maj a b_v c;
     t2 \<leftarrow> add_u32 s0 mj;
     e' \<leftarrow> add_u32 d t1;
     a' \<leftarrow> add_u32 t1 t2;
     State_Monad.return (a', a, b_v, c, e', e, f, g)})"

definition compression_body :: "nat list building" where
  "compression_body = do {
     let h = map (\<lambda>i. input_word (i * 32)) [0..<8];
     let w = map (\<lambda>i. input_word (256 + i * 32)) [0..<16] @ replicate 48 (replicate 32 0);
     w \<leftarrow> for_in [16..<64] w schedule_step;
     (a, b_v, c, d, e, f, g, hh) \<leftarrow>
       for_in [0..<64] (h ! 0, h ! 1, h ! 2, h ! 3, h ! 4, h ! 5, h ! 6, h ! 7) (round_step w);
     r0 \<leftarrow> add_u32 a (h ! 0);
     r1 \<leftarrow> add_u32 b_v (h ! 1);
     r2 \<leftarrow> add_u32 c (h ! 2);
     r3 \<leftarrow> add_u32 d (h ! 3);
     r4 \<leftarrow> add_u32 e (h ! 4);
     r5 \<leftarrow> add_u32 f (h ! 5);
     r6 \<leftarrow> add_u32 g (h ! 6);
     r7 \<leftarrow> add_u32 hh (h ! 7);
     State_Monad.return (concat [r0, r1, r2, r3, r4, r5, r6, r7])}"

definition build_compression :: "builder \<times> nat list" where
  "build_compression = (case State_Monad.run_state compression_body (builder_new 768) of (out_bits, b) \<Rightarrow> (b, out_bits))"

section \<open>The circuit in Bristol format\<close>

fun decimal :: "nat \<Rightarrow> string" where
  "decimal n = (if n < 10 then [char_of (48 + n)] else decimal (n div 10) @ [char_of (48 + n mod 10)])"

declare decimal.simps [simp del]

fun gate_line :: "gate \<Rightarrow> string" where
  "gate_line \<lparr>g_kind = Inv, g_in1 = i, g_in2 = j, g_out = o'\<rparr> = ''1 1 '' @ decimal i @ '' '' @ decimal o' @ '' INV''"
| "gate_line \<lparr>g_kind = Xor, g_in1 = i, g_in2 = j, g_out = o'\<rparr> =
     ''2 1 '' @ decimal i @ '' '' @ decimal j @ '' '' @ decimal o' @ '' XOR''"
| "gate_line \<lparr>g_kind = And, g_in1 = i, g_in2 = j, g_out = o'\<rparr> =
     ''2 1 '' @ decimal i @ '' '' @ decimal j @ '' '' @ decimal o' @ '' AND''"

text \<open>The gates with the passthrough gates behind them, and the next wire.\<close>

definition passthrough :: "builder \<Rightarrow> nat list \<Rightarrow> gate list \<times> nat" where
  "passthrough b output_wires =
     foldl (\<lambda>(gs, next) ow. (gs @ [\<lparr>g_kind = Xor, g_in1 = ow, g_in2 = b_zero b, g_out = next\<rparr>], next + 1))
       (gates b, next_wire b) output_wires"

definition write_circuit :: "builder \<Rightarrow> nat \<Rightarrow> nat \<Rightarrow> nat list \<Rightarrow> string list" where
  "write_circuit b n1 n2 output_wires =
     (case passthrough b output_wires of (gs, next) \<Rightarrow>
       [decimal (length gs) @ '' '' @ decimal next,
        decimal n1 @ '' '' @ decimal n2 @ ''   '' @ decimal (length output_wires), []] @ map gate_line gs)"

text \<open>What the library makes of the gates: the outputs are the last wires.\<close>

fun eval_gate :: "(nat \<Rightarrow> bool) \<Rightarrow> gate \<Rightarrow> nat \<Rightarrow> bool" where
  "eval_gate v g =
     v(g_out g := (case g_kind g of
         Inv \<Rightarrow> \<not> v (g_in1 g) | Xor \<Rightarrow> v (g_in1 g) \<noteq> v (g_in2 g) | And \<Rightarrow> v (g_in1 g) \<and> v (g_in2 g)))"

definition eval_circuit :: "gate list \<times> nat \<Rightarrow> nat \<Rightarrow> bool list \<Rightarrow> bool list" where
  "eval_circuit c n_out inputs =
     (case c of (gs, nwires) \<Rightarrow> map (foldl eval_gate ((!) inputs) gs) [nwires - n_out..<nwires])"

definition compression_circuit :: "gate list \<times> nat" where
  "compression_circuit = (case build_compression of (b, output_wires) \<Rightarrow> passthrough b output_wires)"

section \<open>The compression function of FIPS 180-4\<close>

definition Ch :: "u32 \<Rightarrow> u32 \<Rightarrow> u32 \<Rightarrow> u32" where "Ch x y z = (x AND y) XOR (NOT x AND z)"
definition Maj :: "u32 \<Rightarrow> u32 \<Rightarrow> u32 \<Rightarrow> u32" where "Maj x y z = ((x AND y) XOR (x AND z)) XOR (y AND z)"
definition Sigma0 :: "u32 \<Rightarrow> u32" where "Sigma0 x = (word_rotr 2 x XOR word_rotr 13 x) XOR word_rotr 22 x"
definition Sigma1 :: "u32 \<Rightarrow> u32" where "Sigma1 x = (word_rotr 6 x XOR word_rotr 11 x) XOR word_rotr 25 x"
definition sigma0 :: "u32 \<Rightarrow> u32" where "sigma0 x = (word_rotr 7 x XOR word_rotr 18 x) XOR drop_bit 3 x"
definition sigma1 :: "u32 \<Rightarrow> u32" where "sigma1 x = (word_rotr 17 x XOR word_rotr 19 x) XOR drop_bit 10 x"

definition fips_schedule :: "u32 list \<Rightarrow> u32 list" where
  "fips_schedule M =
     foldl (\<lambda>W t. W @ [sigma1 (W ! (t - 2)) + W ! (t - 7) + sigma0 (W ! (t - 15)) + W ! (t - 16)]) M [16..<64]"

definition fips_round :: "u32 list \<Rightarrow> nat \<Rightarrow> u32 working \<Rightarrow> u32 working" where
  "fips_round W t = (\<lambda>(a, b, c, d, e, f, g, h).
     let T1 = h + Sigma1 e + Ch e f g + K_CONSTANTS ! t + W ! t;
         T2 = Sigma0 a + Maj a b c
     in (T1 + T2, a, b, c, d + T1, e, f, g))"

definition fips_compress :: "u32 list \<Rightarrow> u32 list \<Rightarrow> u32 list" where
  "fips_compress H M =
     (case foldl (\<lambda>s t. fips_round (fips_schedule M) t s) (H ! 0, H ! 1, H ! 2, H ! 3, H ! 4, H ! 5, H ! 6, H ! 7) [0..<64] of
        (a, b, c, d, e, f, g, h) \<Rightarrow> map2 (+) [a, b, c, d, e, f, g, h] H)"

section \<open>Values of wires\<close>

definition wire_val :: "(nat \<Rightarrow> bool) \<Rightarrow> builder \<Rightarrow> nat \<Rightarrow> bool" where
  "wire_val inp b = foldl eval_gate inp (gates b)"

definition has :: "(nat \<Rightarrow> bool) \<Rightarrow> builder \<Rightarrow> nat \<Rightarrow> bool \<Rightarrow> bool" where
  "has inp b w v \<longleftrightarrow> w < next_wire b \<and> wire_val inp b w = v"

definition holds :: "(nat \<Rightarrow> bool) \<Rightarrow> builder \<Rightarrow> nat list \<Rightarrow> u32 \<Rightarrow> bool" where
  "holds inp b ws W \<longleftrightarrow> length ws = 32 \<and> (\<forall>i<32. has inp b (ws ! i) (bit W (31 - i)))"

text \<open>The constants are there, the gates drive the wires in order, and every gate reads earlier wires.\<close>

definition ok :: "(nat \<Rightarrow> bool) \<Rightarrow> builder \<Rightarrow> bool" where
  "ok inp b \<longleftrightarrow> has inp b (b_zero b) False \<and> has inp b (b_one b) True \<and>
     map g_out (gates b) = [next_wire b - length (gates b)..<next_wire b] \<and>
     (\<forall>g \<in> set (gates b). g_in1 g < g_out g \<and> g_in2 g < g_out g \<and> g_out g < next_wire b)"

definition extends :: "(nat \<Rightarrow> bool) \<Rightarrow> builder \<Rightarrow> builder \<Rightarrow> bool" where
  "extends inp b b' \<longleftrightarrow> next_wire b \<le> next_wire b' \<and> (\<forall>w < next_wire b. wire_val inp b' w = wire_val inp b w)"

definition produces :: "(nat \<Rightarrow> bool) \<Rightarrow> builder \<Rightarrow> 'a building \<Rightarrow> (builder \<Rightarrow> 'a \<Rightarrow> bool) \<Rightarrow> bool" where
  "produces inp b m Q \<longleftrightarrow>
     (ok inp b \<longrightarrow> (case State_Monad.run_state m b of (x, b') \<Rightarrow> extends inp b b' \<and> ok inp b' \<and> Q b' x))"

lemma extends_refl [simp]: "extends inp b b"
  by (simp add: extends_def)

lemma extends_trans: "extends inp b b' \<Longrightarrow> extends inp b' b'' \<Longrightarrow> extends inp b b''"
  by (auto simp: extends_def)

lemma has_extends: "has inp b w v \<Longrightarrow> extends inp b b' \<Longrightarrow> has inp b' w v"
  by (auto simp: has_def extends_def)

lemma holds_extends: "holds inp b ws W \<Longrightarrow> extends inp b b' \<Longrightarrow> holds inp b' ws W"
  by (auto simp: holds_def intro: has_extends)

lemma holds_has: "holds inp b ws W \<Longrightarrow> i < 32 \<Longrightarrow> has inp b (ws ! i) (bit W (31 - i))"
  by (simp add: holds_def)

lemma produces_return: "(ok inp b \<Longrightarrow> Q b x) \<Longrightarrow> produces inp b (State_Monad.return x) Q"
  by (simp add: produces_def)

lemma produces_get: "(ok inp b \<Longrightarrow> Q b b) \<Longrightarrow> produces inp b State_Monad.get Q"
  by (simp add: produces_def)

lemma produces_bind:
  assumes "produces inp b m P"
    and "\<And>b' x. extends inp b b' \<Longrightarrow> ok inp b' \<Longrightarrow> P b' x \<Longrightarrow> produces inp b' (f x) Q"
  shows "produces inp b (State_Monad.bind m f) Q"
proof (cases "ok inp b")
  case True
  obtain x b' where m: "State_Monad.run_state m b = (x, b')" by fastforce
  with assms(1) True have "extends inp b b'" "ok inp b'" "P b' x" by (simp_all add: produces_def)
  with assms(2) [of b' x] m show ?thesis
    by (auto simp: produces_def intro: extends_trans)
qed (simp add: produces_def)

lemma produces_mono:
  "produces inp b m P \<Longrightarrow> (\<And>b' x. extends inp b b' \<Longrightarrow> P b' x \<Longrightarrow> Q b' x) \<Longrightarrow> produces inp b m Q"
  by (auto simp: produces_def)

lemma produces_for:
  assumes "I b 0 s"
    and "\<And>b k s. k < n \<Longrightarrow> I b k s \<Longrightarrow> produces inp b (f (g k) s) (\<lambda>b' s'. I b' (Suc k) s')"
  shows "produces inp b (for_in (map g [0..<n]) s f) (\<lambda>b' s'. I b' n s')"
proof -
  have "produces inp b (for_in (map g [k..<n]) s f) (\<lambda>b' s'. I b' n s')" if "k \<le> n" "I b k s" for k b s
    using that
  proof (induction "n - k" arbitrary: k b s)
    case 0
    then show ?case by (simp add: produces_return)
  next
    case (Suc m)
    then have "k < n" by simp
    with Suc show ?case
      by (simp add: upt_conv_Cons del: upt_Suc) (intro produces_bind [OF assms(2)] Suc.hyps; simp)
  qed
  from this [of 0] assms(1) show ?thesis by simp
qed

section \<open>Gates\<close>

lemma produces_gate:
  assumes "has inp b i u" and "has inp b j v"
  shows "produces inp b (State_Monad.bind alloc_wire (\<lambda>out. State_Monad.bind (push_gate k i j out) (\<lambda>_. State_Monad.return out)))
    (\<lambda>b' w. has inp b' w (case k of Inv \<Rightarrow> \<not> u | Xor \<Rightarrow> u \<noteq> v | And \<Rightarrow> u \<and> v))"
  using assms
  by (cases k) (auto simp: produces_def alloc_wire_def push_gate_def ok_def extends_def has_def wire_val_def
      State_Monad.update_def)

lemma produces_builder_xor:
  "has inp b i u \<Longrightarrow> has inp b j v \<Longrightarrow> produces inp b (builder_xor i j) (\<lambda>b' w. has inp b' w (u \<noteq> v))"
  using produces_gate [of inp b i u j v Xor] by (simp add: builder_xor_def)

lemma produces_builder_and:
  "has inp b i u \<Longrightarrow> has inp b j v \<Longrightarrow> produces inp b (builder_and i j) (\<lambda>b' w. has inp b' w (u \<and> v))"
  using produces_gate [of inp b i u j v And] by (simp add: builder_and_def)

lemma produces_builder_inv:
  assumes "has inp b i u"
  shows "produces inp b (builder_inv i) (\<lambda>b' w. has inp b' w (\<not> u))"
proof (cases "ok inp b")
  case True
  then have "has inp b 0 (wire_val inp b 0)" by (auto simp: has_def ok_def)
  then show ?thesis
    using produces_gate [OF assms, of 0 "wire_val inp b 0" Inv] by (simp add: builder_inv_def)
qed (simp add: produces_def)

section \<open>Words\<close>

lemma produces_words:
  assumes "\<And>b' i. i < 32 \<Longrightarrow> extends inp b b' \<Longrightarrow> produces inp b' (f i) (\<lambda>b'' w. has inp b'' w (bit W (31 - i)))"
  shows "produces inp b (for_in [0..<32] (replicate 32 0) (\<lambda>i out. State_Monad.bind (f i) (\<lambda>w. State_Monad.return (out[i := w]))))
    (\<lambda>b' ws. holds inp b' ws W)"
proof -
  define I where "I b' k out \<longleftrightarrow> extends inp b b' \<and> length out = 32 \<and> (\<forall>i<k. has inp b' (out ! i) (bit W (31 - i)))"
    for b' k and out :: "nat list"
  have "produces inp b (for_in (map (\<lambda>i. i) [0..<32]) (replicate 32 0)
      (\<lambda>i out. State_Monad.bind (f i) (\<lambda>w. State_Monad.return (out[i := w])))) (\<lambda>b' ws. I b' 32 ws)"
  proof (rule produces_for)
    fix b' k out
    assume k: "k < (32::nat)" and I: "I b' k out"
    show "produces inp b' (State_Monad.bind (f k) (\<lambda>w. State_Monad.return (out[k := w]))) (\<lambda>b'' s'. I b'' (Suc k) s')"
    proof (rule produces_bind [OF assms [OF k]])
      show "extends inp b b'" using I by (simp add: I_def)
      fix b'' w
      assume e: "extends inp b' b''" and w: "has inp b'' w (bit W (31 - k))"
      show "produces inp b'' (State_Monad.return (out[k := w])) (\<lambda>b'' s'. I b'' (Suc k) s')"
        using I e w k by (intro produces_return) (auto simp: I_def less_Suc_eq intro: extends_trans has_extends)
    qed
  qed (simp add: I_def)
  then show ?thesis
    by (auto simp: I_def holds_def intro: produces_mono)
qed

lemma less_32: "31 - i < (32::nat)"
  by (rule le_less_trans [OF diff_le_self]) simp

lemma produces_xor_u32:
  assumes "holds inp b x X" and "holds inp b y Y"
  shows "produces inp b (xor_u32 x y) (\<lambda>b' ws. holds inp b' ws (X XOR Y))"
  unfolding xor_u32_def
proof (rule produces_words)
  fix b' i
  assume "i < (32::nat)" and "extends inp b b'"
  with assms have "has inp b' (x ! i) (bit X (31 - i))" "has inp b' (y ! i) (bit Y (31 - i))"
    by (auto intro: has_extends holds_has)
  then show "produces inp b' (builder_xor (x ! i) (y ! i)) (\<lambda>b'' w. has inp b'' w (bit (X XOR Y) (31 - i)))"
    unfolding bit_xor_iff by (rule produces_builder_xor)
qed

lemma produces_and_u32:
  assumes "holds inp b x X" and "holds inp b y Y"
  shows "produces inp b (and_u32 x y) (\<lambda>b' ws. holds inp b' ws (X AND Y))"
  unfolding and_u32_def
proof (rule produces_words)
  fix b' i
  assume "i < (32::nat)" and "extends inp b b'"
  with assms have "has inp b' (x ! i) (bit X (31 - i))" "has inp b' (y ! i) (bit Y (31 - i))"
    by (auto intro: has_extends holds_has)
  then show "produces inp b' (builder_and (x ! i) (y ! i)) (\<lambda>b'' w. has inp b'' w (bit (X AND Y) (31 - i)))"
    unfolding bit_and_iff by (rule produces_builder_and)
qed

lemma produces_not_u32:
  assumes "holds inp b x X"
  shows "produces inp b (not_u32 x) (\<lambda>b' ws. holds inp b' ws (NOT X))"
  unfolding not_u32_def
proof (rule produces_words)
  fix b' i
  assume i: "i < (32::nat)" and "extends inp b b'"
  with assms have "has inp b' (x ! i) (bit X (31 - i))" by (auto intro: has_extends holds_has)
  moreover have "bit (NOT X) (31 - i) = (\<not> bit X (31 - i))" using less_32 [of i] by (simp add: bit_not_iff possible_bit_def)
  ultimately show "produces inp b' (builder_inv (x ! i)) (\<lambda>b'' w. has inp b'' w (bit (NOT X) (31 - i)))"
    by (simp add: produces_builder_inv)
qed

lemma rotr_index:
  assumes "i < 32" and "n < (32::nat)"
  shows "(31 - i + n) mod 32 = 31 - (i + 32 - n) mod 32"
proof (cases "n \<le> i")
  case True
  have "(i + 32 - n) mod 32 = ((i - n) + 32) mod 32" using True by (simp add: add.commute)
  also have "\<dots> = i - n" using assms by simp
  finally show ?thesis using assms True by simp
next
  case False
  then have "(31 - i + n) mod 32 = ((n - i - 1) + 32) mod 32"
    by (intro arg_cong [where f = "\<lambda>k. k mod 32"]) (use assms in linarith)
  also have "\<dots> = n - i - 1" using assms by simp
  finally show ?thesis using assms False by simp
qed

lemma holds_rotr_u32:
  assumes "holds inp b x X" and "n < 32"
  shows "holds inp b (rotr_u32 x n) (word_rotr n X)"
  unfolding holds_def
proof (intro conjI allI impI)
  fix i :: nat
  assume i: "i < 32"
  have "bit (word_rotr n X) (31 - i) = bit X (31 - (i + 32 - n) mod 32)"
    unfolding rotr_index [OF i assms(2), symmetric] using less_32 [of i] by (simp add: bit_word_rotr_iff)
  then show "has inp b (rotr_u32 x n ! i) (bit (word_rotr n X) (31 - i))"
    using holds_has [OF assms(1), of "(i + 32 - n) mod 32"] i assms(2) by (simp add: rotr_u32_def)
qed (simp add: rotr_u32_def)

lemma produces_shr_u32:
  assumes "holds inp b x X"
  shows "produces inp b (shr_u32 x n) (\<lambda>b' ws. holds inp b' ws (drop_bit n X))"
proof -
  have "holds inp b (map (\<lambda>k. if k \<ge> n then x ! (k - n) else b_zero b) [0..<32]) (drop_bit n X)" if "ok inp b"
    unfolding holds_def
  proof (intro conjI allI impI)
    fix i :: nat
    assume i: "i < 32"
    show "has inp b (map (\<lambda>k. if k \<ge> n then x ! (k - n) else b_zero b) [0..<32] ! i) (bit (drop_bit n X) (31 - i))"
    proof (cases "n \<le> i")
      case True
      then have "31 - (i - n) = n + (31 - i)" using i by simp
      then show ?thesis
        using holds_has [OF assms, of "i - n"] True i by (simp add: bit_drop_bit_eq)
    next
      case False
      then have "\<not> bit X (n + (31 - i))" using i by (auto dest!: bit_imp_le_length)
      then show ?thesis using that False i by (simp add: ok_def bit_drop_bit_eq)
    qed
  qed simp
  then show ?thesis by (simp add: produces_def shr_u32_def)
qed

lemma produces_constant_u32: "produces inp b (constant_u32 v) (\<lambda>b' ws. holds inp b' ws v)"
proof -
  have "drop_bit k v AND 1 = 1 \<longleftrightarrow> bit v k" for k
    by (simp add: and_one_eq bit_iff_odd_drop_bit odd_iff_mod_2_eq_one)
  then have "holds inp b (map (\<lambda>i. if drop_bit (31 - i) v AND 1 = 1 then b_one b else b_zero b) [0..<32]) v" if "ok inp b"
    using that by (auto simp: holds_def ok_def)
  then show ?thesis by (simp add: produces_def constant_u32_def)
qed

section \<open>The adder\<close>

text \<open>The carry into the bit \<open>k\<close>.\<close>

primrec carry :: "int \<Rightarrow> int \<Rightarrow> nat \<Rightarrow> bool" where
  "carry x y 0 = False"
| "carry x y (Suc k) = ((bit x k \<and> bit y k) \<noteq> ((bit x k \<noteq> bit y k) \<and> carry x y k))"

lemma bit_add_step:
  fixes x y :: int
  assumes "take_bit k x + take_bit k y = take_bit k (x + y) + of_bool c * 2 ^ k"
  shows "bit (x + y) k = ((bit x k \<noteq> bit y k) \<noteq> c)"
proof -
  have split: "z = drop_bit k z * 2 ^ k + take_bit k z" for z :: int
    unfolding drop_bit_eq_div take_bit_eq_mod by (rule div_mult_mod_eq [symmetric])
  have "x + y = (drop_bit k x + drop_bit k y) * 2 ^ k + (take_bit k x + take_bit k y)"
    using split [of x] split [of y] by (simp add: algebra_simps)
  then have "x + y = (drop_bit k x + drop_bit k y + of_bool c) * 2 ^ k + take_bit k (x + y)"
    unfolding assms by (simp add: algebra_simps)
  then have "drop_bit k (x + y) * 2 ^ k = (drop_bit k x + drop_bit k y + of_bool c) * 2 ^ k"
    using split [of "x + y"] by linarith
  then have "drop_bit k (x + y) = drop_bit k x + drop_bit k y + of_bool c" by simp
  then show ?thesis by (cases c) (auto simp: bit_iff_odd_drop_bit)
qed

lemma take_bit_add_carry:
  fixes x y :: int
  shows "take_bit k x + take_bit k y = take_bit k (x + y) + of_bool (carry x y k) * 2 ^ k"
proof (induction k)
  case (Suc k)
  show ?case
    using Suc bit_add_step [OF Suc]
    by (cases "bit x k"; cases "bit y k"; cases "carry x y k") (simp_all add: take_bit_Suc_from_most)
qed simp

lemma bit_add_carry:
  fixes X Y :: "u32"
  assumes "k < 32"
  shows "bit (X + Y) k = ((bit X k \<noteq> bit Y k) \<noteq> carry (uint X) (uint Y) k)"
proof -
  have "X + Y = word_of_int (uint X + uint Y)" by simp
  then have "bit (X + Y) k = bit (uint X + uint Y) k"
    using assms by (simp only: bit_word_of_int_iff) simp
  also have "\<dots> = ((bit X k \<noteq> bit Y k) \<noteq> carry (uint X) (uint Y) k)"
    using bit_add_step [OF take_bit_add_carry] assms by (simp add: bit_uint_iff)
  finally show ?thesis .
qed

text \<open>After the bit \<open>k\<close>: the sum bits up to there and the carry.\<close>

definition summed :: "(nat \<Rightarrow> bool) \<Rightarrow> builder \<Rightarrow> u32 \<Rightarrow> u32 \<Rightarrow> nat \<Rightarrow> nat list \<times> nat \<Rightarrow> bool" where
  "summed inp b X Y k = (\<lambda>(s, c). length s = 32 \<and> (\<forall>i<32. 31 - i < k \<longrightarrow> has inp b (s ! i) (bit (X + Y) (31 - i))) \<and>
     has inp b c (carry (uint X) (uint Y) k))"

lemma summed_extends: "summed inp b X Y k p \<Longrightarrow> extends inp b b' \<Longrightarrow> summed inp b' X Y k p"
  by (auto simp: summed_def intro: has_extends)

lemma summed_step:
  assumes "summed inp b X Y k (s, c)" and "extends inp b b'" and k: "k < 32"
    and "has inp b' w (bit (X + Y) k)" and "has inp b' c' (carry (uint X) (uint Y) (Suc k))"
  shows "summed inp b' X Y (Suc k) (s[31 - k := w], c')"
proof -
  have "has inp b' (s[31 - k := w] ! i) (bit (X + Y) (31 - i))" if i: "i < 32" "31 - i < Suc k" for i
  proof (cases "i = 31 - k")
    case True
    then show ?thesis using assms by (simp add: summed_def)
  next
    case False
    then have "31 - i < k" using i k by linarith
    then show ?thesis
      using False i assms(1) has_extends [OF _ assms(2)] by (simp add: summed_def)
  qed
  then show ?thesis using assms by (simp add: summed_def)
qed

lemma rev_upt: "rev [0..<31] = map (\<lambda>k. 30 - k) [0..<(31::nat)]"
  by (rule nth_equalityI) (auto simp: rev_nth)

lemma full_adder:
  assumes x: "has inp b xi u" and y: "has inp b yi v" and c: "has inp b ci z"
    and Q: "\<And>b' w c'. extends inp b b' \<Longrightarrow> has inp b' w ((u \<noteq> v) \<noteq> z) \<Longrightarrow>
      has inp b' c' ((u \<and> v) \<noteq> ((u \<noteq> v) \<and> z)) \<Longrightarrow> Q b' (f w, c')"
  shows "produces inp b (do {
       t1 \<leftarrow> builder_xor xi yi;
       s \<leftarrow> builder_xor t1 ci;
       t2 \<leftarrow> builder_and xi yi;
       t3 \<leftarrow> builder_and t1 ci;
       carry \<leftarrow> builder_xor t2 t3;
       State_Monad.return (f s, carry)}) Q"
proof (rule produces_bind [OF produces_builder_xor [OF x y]], goal_cases)
  case (1 b1 t1)
  note e1 = 1(1) and t1 = 1(3)
  show ?case
  proof (rule produces_bind [OF produces_builder_xor [OF t1 has_extends [OF c e1]]], goal_cases)
    case (1 b2 s)
    note e2 = extends_trans [OF e1 1(1)] and s = 1(3) and t1 = has_extends [OF t1 1(1)]
    show ?case
    proof (rule produces_bind [OF produces_builder_and [OF has_extends [OF x e2] has_extends [OF y e2]]], goal_cases)
      case (1 b3 t2)
      note e3 = extends_trans [OF e2 1(1)] and t2 = 1(3) and t1 = has_extends [OF t1 1(1)] and s = has_extends [OF s 1(1)]
      show ?case
      proof (rule produces_bind [OF produces_builder_and [OF t1 has_extends [OF c e3]]], goal_cases)
        case (1 b4 t3)
        note e4 = extends_trans [OF e3 1(1)] and t3 = 1(3) and t2 = has_extends [OF t2 1(1)] and s = has_extends [OF s 1(1)]
        show ?case
          by (rule produces_bind [OF produces_builder_xor [OF t2 t3]])
            (auto intro!: produces_return Q intro: extends_trans [OF e4] has_extends [OF s])
      qed
    qed
  qed
qed

lemma produces_add_u32:
  assumes "holds inp b x X" and "holds inp b y Y"
  shows "produces inp b (add_u32 x y) (\<lambda>b' ws. holds inp b' ws (X + Y))"
  unfolding add_u32_def
proof (rule produces_bind [OF produces_builder_xor [OF holds_has [OF assms(1)] holds_has [OF assms(2)]]], goal_cases)
  case (3 b1 s31)
  note e1 = 3(1)
  have s31: "has inp b1 s31 (bit (X + Y) 0)" using 3(3) bit_add_carry [of 0 X Y] by simp
  have x: "has inp b1 (x ! 31) (bit X (31 - 31))" and y: "has inp b1 (y ! 31) (bit Y (31 - 31))"
    using has_extends [OF holds_has [OF assms(1)] e1, of 31] has_extends [OF holds_has [OF assms(2)] e1, of 31] by simp_all
  show ?case
  proof (rule produces_bind [OF produces_builder_and [OF x y]], goal_cases)
    case (1 b2 c)
    note e2 = extends_trans [OF e1 1(1)]
    have "summed inp b2 X Y (Suc 0) ((replicate 32 0)[31 := s31], c)"
      using has_extends [OF s31 1(1)] 1(3) by (auto simp: summed_def bit_uint_iff nth_list_update)
    then have "produces inp b2 (for_in (map (\<lambda>k. 30 - k) [0..<31]) ((replicate 32 0)[31 := s31], c) (\<lambda>i (sum', carry). do {
       t1 \<leftarrow> builder_xor (x ! i) (y ! i);
       s \<leftarrow> builder_xor t1 carry;
       t2 \<leftarrow> builder_and (x ! i) (y ! i);
       t3 \<leftarrow> builder_and t1 carry;
       carry \<leftarrow> builder_xor t2 t3;
       State_Monad.return (sum'[i := s], carry)})) (\<lambda>b' p. extends inp b b' \<and> summed inp b' X Y (Suc 31) p)"
      using e2
    proof (intro produces_for [where I = "\<lambda>b' k p. extends inp b b' \<and> summed inp b' X Y (Suc k) p"], goal_cases)
      case (2 b' k p)
      obtain s c where p: "p = (s, c)" by fastforce
      have i: "31 - (30 - k) = Suc k" using 2 by linarith
      have "has inp b' (x ! (30 - k)) (bit X (Suc k))" "has inp b' (y ! (30 - k)) (bit Y (Suc k))"
        using has_extends [OF holds_has [OF assms(1)], of "30 - k" b'] has_extends [OF holds_has [OF assms(2)], of "30 - k" b'] 2 i
        by auto
      then show ?case
        unfolding p prod.case
      proof (rule full_adder)
        show "has inp b' c (carry (uint X) (uint Y) (Suc k))" using 2 p by (simp add: summed_def)
        fix b'' w c'
        assume e: "extends inp b' b''" and w: "has inp b'' w ((bit X (Suc k) \<noteq> bit Y (Suc k)) \<noteq> carry (uint X) (uint Y) (Suc k))"
          and c': "has inp b'' c' ((bit X (Suc k) \<and> bit Y (Suc k)) \<noteq> ((bit X (Suc k) \<noteq> bit Y (Suc k)) \<and> carry (uint X) (uint Y) (Suc k)))"
        have "summed inp b'' X Y (Suc (Suc k)) (s[31 - Suc k := w], c')"
        proof (rule summed_step [where b = b' and c = c])
          show "has inp b'' c' (carry (uint X) (uint Y) (Suc (Suc k)))"
            using c' 2(3) by (simp add: bit_uint_iff del: carry.simps(2) add: carry.simps(2) [of _ _ "Suc k"])
          show "has inp b'' w (bit (X + Y) (Suc k))" using w 2(3) by (simp add: bit_add_carry del: carry.simps)
        qed (use 2 p e in simp_all)
        then show "extends inp b b'' \<and> summed inp b'' X Y (Suc (Suc k)) (s[30 - k := w], c')"
          using 2 e by (auto intro: extends_trans)
      qed
    qed simp_all
    then show ?case
      unfolding rev_upt
      by (rule produces_bind) (auto intro!: produces_return simp: summed_def holds_def)
  qed
qed simp_all

section \<open>The functions of the rounds\<close>

text \<open>Words that are known to be held, whatever is built on top.\<close>

definition knows :: "(nat \<Rightarrow> bool) \<Rightarrow> builder \<Rightarrow> (nat list \<times> u32) list \<Rightarrow> bool" where
  "knows inp b L \<longleftrightarrow> (\<forall>(ws, W) \<in> set L. holds inp b ws W)"

lemma knows_simps [simp]: "knows inp b []" "knows inp b ((ws, W) # L) \<longleftrightarrow> holds inp b ws W \<and> knows inp b L"
  by (auto simp: knows_def)

lemma knows_extends: "knows inp b L \<Longrightarrow> extends inp b b' \<Longrightarrow> knows inp b' L"
  by (auto simp: knows_def intro: holds_extends)

lemma knows_holds: "knows inp b L \<Longrightarrow> (ws, W) \<in> set L \<Longrightarrow> holds inp b ws W"
  by (auto simp: knows_def)

lemma produces_bind_word:
  assumes "knows inp b L" and "produces inp b m (\<lambda>b' ws. holds inp b' ws V)"
    and "\<And>b' ws. knows inp b' ((ws, V) # L) \<Longrightarrow> produces inp b' (f ws) Q"
  shows "produces inp b (State_Monad.bind m f) Q"
  by (rule produces_bind [OF assms(2)]) (auto intro!: assms(3) intro: knows_extends [OF assms(1)])

lemmas word_ops = produces_xor_u32 produces_and_u32 produces_not_u32 produces_shr_u32 produces_constant_u32 produces_add_u32

lemmas rotations = holds_rotr_u32 [where n = 2, simplified] holds_rotr_u32 [where n = 13, simplified]
  holds_rotr_u32 [where n = 22, simplified] holds_rotr_u32 [where n = 6, simplified] holds_rotr_u32 [where n = 11, simplified]
  holds_rotr_u32 [where n = 25, simplified] holds_rotr_u32 [where n = 7, simplified] holds_rotr_u32 [where n = 18, simplified]
  holds_rotr_u32 [where n = 17, simplified] holds_rotr_u32 [where n = 19, simplified]

lemma produces_ch:
  assumes "holds inp b x X" and "holds inp b y Y" and "holds inp b z Z"
  shows "produces inp b (ch x y z) (\<lambda>b' ws. holds inp b' ws (Ch X Y Z))"
proof -
  have "knows inp b [(x, X), (y, Y), (z, Z)]" using assms by simp
  then show ?thesis
    unfolding ch_def Ch_def
    by - (assumption | rule produces_bind_word word_ops knows_holds list.set_intros(1) list.set_intros(2))+
qed

lemma produces_maj:
  assumes "holds inp b x X" and "holds inp b y Y" and "holds inp b z Z"
  shows "produces inp b (maj x y z) (\<lambda>b' ws. holds inp b' ws (Maj X Y Z))"
proof -
  have "knows inp b [(x, X), (y, Y), (z, Z)]" using assms by simp
  then show ?thesis
    unfolding maj_def Maj_def
    by - (assumption | rule produces_bind_word word_ops knows_holds list.set_intros(1) list.set_intros(2))+
qed

lemma produces_sigmas:
  assumes "holds inp b x X"
  shows "produces inp b (big_sigma0 x) (\<lambda>b' ws. holds inp b' ws (Sigma0 X))"
    and "produces inp b (big_sigma1 x) (\<lambda>b' ws. holds inp b' ws (Sigma1 X))"
    and "produces inp b (small_sigma0 x) (\<lambda>b' ws. holds inp b' ws (sigma0 X))"
    and "produces inp b (small_sigma1 x) (\<lambda>b' ws. holds inp b' ws (sigma1 X))"
proof -
  have "knows inp b [(x, X)]" using assms by simp
  then show "produces inp b (big_sigma0 x) (\<lambda>b' ws. holds inp b' ws (Sigma0 X))"
    "produces inp b (big_sigma1 x) (\<lambda>b' ws. holds inp b' ws (Sigma1 X))"
    "produces inp b (small_sigma0 x) (\<lambda>b' ws. holds inp b' ws (sigma0 X))"
    "produces inp b (small_sigma1 x) (\<lambda>b' ws. holds inp b' ws (sigma1 X))"
    unfolding big_sigma0_def big_sigma1_def small_sigma0_def small_sigma1_def Sigma0_def Sigma1_def sigma0_def sigma1_def
    by - (assumption | rule produces_bind_word word_ops rotations knows_holds list.set_intros(1) list.set_intros(2))+
qed

lemmas round_ops = produces_ch produces_maj produces_sigmas word_ops

section \<open>The message schedule\<close>

lemma length_foldl_append: "n \<le> k \<Longrightarrow> length M = n \<Longrightarrow> length (foldl (\<lambda>W t. W @ [F W t]) M [n..<k]) = k"
  by (induction rule: dec_induct) simp_all

lemma foldl_append_nth:
  assumes "length M = n" and "n \<le> t" and "t < m"
  shows "(foldl (\<lambda>W t. W @ [F W t]) M [n..<m]) ! t = F (foldl (\<lambda>W t. W @ [F W t]) M [n..<t]) t \<and>
    take t (foldl (\<lambda>W t. W @ [F W t]) M [n..<m]) = foldl (\<lambda>W t. W @ [F W t]) M [n..<t]"
  using assms(3)
proof (induction m)
  case (Suc m)
  have "n \<le> m" using Suc assms(2) by simp
  then show ?case
    using Suc length_foldl_append [OF _ assms(1), of m F] assms(2) by (cases "t = m") (simp_all add: nth_append)
qed simp

lemma foldl_append_prefix:
  assumes "length M = n" and "n \<le> m" and "j < n"
  shows "(foldl (\<lambda>W t. W @ [F W t]) M [n..<m]) ! j = M ! j"
  using assms(2)
proof (induction rule: dec_induct)
  case (step m)
  then show ?case using length_foldl_append [OF _ assms(1), of m F] assms(3) by (simp add: nth_append)
qed simp

lemma length_fips_schedule: "length M = 16 \<Longrightarrow> length (fips_schedule M) = 64"
  unfolding fips_schedule_def by (rule length_foldl_append) simp_all

lemma fips_schedule_message: "length M = 16 \<Longrightarrow> j < 16 \<Longrightarrow> fips_schedule M ! j = M ! j"
  unfolding fips_schedule_def by (rule foldl_append_prefix) simp_all

lemma fips_schedule_nth:
  assumes "length M = 16" and "16 \<le> t" and "t < 64"
  shows "fips_schedule M ! t = sigma1 (fips_schedule M ! (t - 2)) + fips_schedule M ! (t - 7) +
    sigma0 (fips_schedule M ! (t - 15)) + fips_schedule M ! (t - 16)"
proof -
  define F where "F W t = sigma1 (W ! (t - 2)) + W ! (t - 7) + sigma0 (W ! (t - 15)) + W ! (t - 16)" for W and t :: nat
  have W: "fips_schedule M = foldl (\<lambda>W t. W @ [F W t]) M [16..<64]" by (simp only: fips_schedule_def F_def)
  note n = foldl_append_nth [where F = F, OF assms, folded W]
  have "fips_schedule M ! t = F (take t (fips_schedule M)) t" using n by simp
  also have "\<dots> = F (fips_schedule M) t" using assms by (simp add: F_def)
  finally show ?thesis by (simp add: F_def)
qed

lemma produces_schedule_step:
  assumes M: "length M = 16" and k: "k < 48" and len: "length w = 64"
    and w: "\<forall>j < 16 + k. holds inp b (w ! j) (fips_schedule M ! j)"
  shows "produces inp b (schedule_step (16 + k) w)
    (\<lambda>b' w'. length w' = 64 \<and> (\<forall>j < 16 + Suc k. holds inp b' (w' ! j) (fips_schedule M ! j)))"
proof -
  let ?i = "16 + k" and ?W = "fips_schedule M"
  have kn: "knows inp b [(w ! (?i - 2), ?W ! (?i - 2)), (w ! (?i - 15), ?W ! (?i - 15)), (w ! (?i - 7), ?W ! (?i - 7)),
      (w ! (?i - 16), ?W ! (?i - 16))]"
    using w by simp
  have val: "?W ! ?i = (sigma1 (?W ! (?i - 2)) + ?W ! (?i - 7)) + (sigma0 (?W ! (?i - 15)) + ?W ! (?i - 16))"
    using fips_schedule_nth [OF M, of ?i] k by (simp add: add.assoc)
  have "produces inp b (schedule_step ?i w) (\<lambda>b' w'. \<exists>ws. w' = w[?i := ws] \<and>
      holds inp b' ws ((sigma1 (?W ! (?i - 2)) + ?W ! (?i - 7)) + (sigma0 (?W ! (?i - 15)) + ?W ! (?i - 16))))"
    using kn unfolding schedule_step_def
    by - (assumption | rule produces_bind_word round_ops produces_return exI conjI refl knows_holds list.set_intros(1) list.set_intros(2))+
  then have "produces inp b (schedule_step ?i w) (\<lambda>b' w'. \<exists>ws. w' = w[?i := ws] \<and> holds inp b' ws (?W ! ?i))"
    unfolding val .
  then show ?thesis
  proof (rule produces_mono)
    fix b' w'
    assume e: "extends inp b b'" and "\<exists>ws. w' = w[?i := ws] \<and> holds inp b' ws (?W ! ?i)"
    then obtain ws where ws: "w' = w[?i := ws]" "holds inp b' ws (?W ! ?i)" by blast
    have "holds inp b' (w' ! j) (?W ! j)" if "j < 16 + Suc k" for j
      using that ws w len k holds_extends [OF _ e] by (cases "j = ?i") auto
    then show "length w' = 64 \<and> (\<forall>j < 16 + Suc k. holds inp b' (w' ! j) (?W ! j))"
      using ws len by simp
  qed
qed

lemma upt_16_64: "[16..<64] = map (\<lambda>k. 16 + k) [0..<(48::nat)]"
  using map_add_upt [of 16 48] by (simp only: add.commute [of _ "16::nat"]) (simp only: numeral_plus_numeral add_num_simps)

lemma produces_schedule:
  assumes M: "length M = 16" and len: "length w = 64" and w: "\<forall>j < 16. holds inp b (w ! j) (M ! j)"
  shows "produces inp b (for_in [16..<64] w schedule_step)
    (\<lambda>b' w'. length w' = 64 \<and> (\<forall>j < 64. holds inp b' (w' ! j) (fips_schedule M ! j)))"
proof -
  have "produces inp b (for_in (map (\<lambda>k. 16 + k) [0..<48]) w schedule_step)
    (\<lambda>b' w'. length w' = 64 \<and> (\<forall>j < 16 + 48. holds inp b' (w' ! j) (fips_schedule M ! j)))"
    by (rule produces_for [where I = "\<lambda>b' k w'. length w' = 64 \<and> (\<forall>j < 16 + k. holds inp b' (w' ! j) (fips_schedule M ! j))"])
      (use len w fips_schedule_message [OF M] produces_schedule_step [OF M] in auto)
  moreover have "(16::nat) + 48 = 64" by simp
  ultimately show ?thesis unfolding upt_16_64 by (simp only:)
qed

section \<open>The rounds\<close>

definition holds8 :: "(nat \<Rightarrow> bool) \<Rightarrow> builder \<Rightarrow> nat list working \<Rightarrow> u32 working \<Rightarrow> bool" where
  "holds8 inp b = (\<lambda>(a, b_v, c, d, e, f, g, hh) (A, B, C, D, E, F, G, H).
     knows inp b [(a, A), (b_v, B), (c, C), (d, D), (e, E), (f, F), (g, G), (hh, H)])"

lemma holds8I:
  "holds inp b a A \<Longrightarrow> holds inp b b_v B \<Longrightarrow> holds inp b c C \<Longrightarrow> holds inp b d D \<Longrightarrow> holds inp b e E \<Longrightarrow>
   holds inp b f F \<Longrightarrow> holds inp b g G \<Longrightarrow> holds inp b hh H \<Longrightarrow> holds8 inp b (a, b_v, c, d, e, f, g, hh) (A, B, C, D, E, F, G, H)"
  by (simp add: holds8_def)

lemma holds8_extends: "holds8 inp b s S \<Longrightarrow> extends inp b b' \<Longrightarrow> holds8 inp b' s S"
  by (auto simp: holds8_def intro: holds_extends)

lemma produces_round_step:
  assumes s: "holds8 inp b s S" and w: "holds inp b (w ! i) (W ! i)"
  shows "produces inp b (round_step w i s) (\<lambda>b' s'. holds8 inp b' s' (fips_round W i S))"
proof -
  obtain a b_v c d e f g hh where s_eq: "s = (a, b_v, c, d, e, f, g, hh)" by (cases s) auto
  obtain A B C D E F G H where S_eq: "S = (A, B, C, D, E, F, G, H)" by (cases S) auto
  have "knows inp b [(a, A), (b_v, B), (c, C), (d, D), (e, E), (f, F), (g, G), (hh, H), (w ! i, W ! i)]"
    using s w by (simp add: s_eq S_eq holds8_def)
  then show ?thesis
    unfolding s_eq S_eq round_step_def fips_round_def prod.case Let_def
    by - (assumption | rule produces_bind_word round_ops produces_return holds8I knows_holds list.set_intros(1) list.set_intros(2))+
qed

lemma produces_rounds:
  assumes s: "holds8 inp b s S" and w: "\<forall>j < 64. holds inp b (w ! j) (W ! j)"
  shows "produces inp b (for_in [0..<64] s (round_step w)) (\<lambda>b' s'. holds8 inp b' s' (foldl (\<lambda>s t. fips_round W t s) S [0..<64]))"
proof -
  have "produces inp b (for_in (map (\<lambda>i. i) [0..<64]) s (round_step w))
    (\<lambda>b' s'. extends inp b b' \<and> holds8 inp b' s' (foldl (\<lambda>s t. fips_round W t s) S [0..<64]))"
  proof (rule produces_for [where I = "\<lambda>b' k s'. extends inp b b' \<and> holds8 inp b' s' (foldl (\<lambda>s t. fips_round W t s) S [0..<k])"])
    fix b' k s'
    assume k: "k < (64::nat)" and I: "extends inp b b' \<and> holds8 inp b' s' (foldl (\<lambda>s t. fips_round W t s) S [0..<k])"
    then have "holds inp b' (w ! k) (W ! k)" using w by (auto intro: holds_extends)
    with I have "produces inp b' (round_step w k s')
        (\<lambda>b' s'. holds8 inp b' s' (fips_round W k (foldl (\<lambda>s t. fips_round W t s) S [0..<k])))"
      by (intro produces_round_step) simp_all
    then show "produces inp b' (round_step w k s')
        (\<lambda>b'' s''. extends inp b b'' \<and> holds8 inp b'' s'' (foldl (\<lambda>s t. fips_round W t s) S [0..<Suc k]))"
      by (rule produces_mono) (use I in \<open>auto intro: extends_trans\<close>)
  qed (use s in simp)
  then have "produces inp b (for_in [0..<64] s (round_step w))
    (\<lambda>b' s'. extends inp b b' \<and> holds8 inp b' s' (foldl (\<lambda>s t. fips_round W t s) S [0..<64]))"
    unfolding list.map_ident .
  then show ?thesis by (rule produces_mono) (rule conjunct2)
qed

section \<open>The whole circuit\<close>

definition word_bits :: "u32 \<Rightarrow> bool list" where
  "word_bits W = map (\<lambda>i. bit W (31 - i)) [0..<32]"

lemma length_word_bits [simp]: "length (word_bits W) = 32"
  by (simp add: word_bits_def)

lemma nth_word_bits [simp]: "i < 32 \<Longrightarrow> word_bits W ! i = bit W (31 - i)"
  by (simp add: word_bits_def)

lemma length_concat_words [simp]: "length (concat (map word_bits ws)) = 32 * length ws"
  by (induction ws) simp_all

lemma nth_concat_words: "k < length ws \<Longrightarrow> i < 32 \<Longrightarrow> concat (map word_bits ws) ! (k * 32 + i) = bit (ws ! k) (31 - i)"
proof (induction ws arbitrary: k)
  case (Cons W ws)
  then show ?case
    by (cases k) (simp_all add: nth_append word_bits_def add.assoc)
qed simp

lemma builder_new_simps:
  "next_wire (builder_new n) = n + 2" "b_zero (builder_new n) = n" "b_one (builder_new n) = n + 1"
  "gates (builder_new n) = [\<lparr>g_kind = Xor, g_in1 = 0, g_in2 = 0, g_out = n\<rparr>, \<lparr>g_kind = Inv, g_in1 = n, g_in2 = 0, g_out = n + 1\<rparr>]"
  by (simp_all add: builder_new_def alloc_wire_def push_gate_def State_Monad.update_def)

lemma builder_new_input: "w < n \<Longrightarrow> wire_val inp (builder_new n) w = inp w"
  by (simp add: wire_val_def builder_new_simps)

lemma builder_new_ok: "0 < n \<Longrightarrow> ok inp (builder_new n)"
  by (simp add: ok_def has_def wire_val_def builder_new_simps)

lemma input_word_holds:
  assumes "k < length ws" and "32 * length ws \<le> n"
  shows "holds ((!) (concat (map word_bits ws))) (builder_new n) (input_word (k * 32)) (ws ! k)"
proof -
  have "k * 32 + i < 32 * length ws" if "i < 32" for i using that assms(1) by linarith
  then show ?thesis
    using assms nth_concat_words [OF assms(1)]
    by (auto simp: holds_def has_def input_word_def builder_new_simps builder_new_input dest!: less_le_trans)
qed

lemma holds_concat:
  "list_all2 (holds inp b) rs Ws \<Longrightarrow> length (concat rs) = 32 * length Ws \<and>
     (\<forall>j < 32 * length Ws. has inp b (concat rs ! j) (concat (map word_bits Ws) ! j))"
proof (induction rule: list_all2_induct)
  case (Cons r rs W Ws)
  then have r: "length r = 32" "\<And>i. i < 32 \<Longrightarrow> has inp b (r ! i) (bit W (31 - i))" by (simp_all add: holds_def)
  have "has inp b ((r @ concat rs) ! j) ((word_bits W @ concat (map word_bits Ws)) ! j)" if "j < 32 * length (W # Ws)" for j
    using that r Cons.IH by (cases "j < 32") (simp_all add: nth_append)
  then show ?case using r Cons.IH by simp
qed simp

lemma produces_final:
  assumes "holds8 inp b (a, b_v, c, d, e, f, g, hh) (A, B, C, D, E, F, G, H')" and "\<And>i. i < 8 \<Longrightarrow> holds inp b (h ! i) (H ! i)"
  shows "produces inp b (do {
     r0 \<leftarrow> add_u32 a (h ! 0);
     r1 \<leftarrow> add_u32 b_v (h ! 1);
     r2 \<leftarrow> add_u32 c (h ! 2);
     r3 \<leftarrow> add_u32 d (h ! 3);
     r4 \<leftarrow> add_u32 e (h ! 4);
     r5 \<leftarrow> add_u32 f (h ! 5);
     r6 \<leftarrow> add_u32 g (h ! 6);
     r7 \<leftarrow> add_u32 hh (h ! 7);
     State_Monad.return (concat [r0, r1, r2, r3, r4, r5, r6, r7])})
    (\<lambda>b' out. \<exists>rs. out = concat rs \<and> list_all2 (holds inp b') rs
      [A + H ! 0, B + H ! 1, C + H ! 2, D + H ! 3, E + H ! 4, F + H ! 5, G + H ! 6, H' + H ! 7])"
proof -
  have "knows inp b [(a, A), (b_v, B), (c, C), (d, D), (e, E), (f, F), (g, G), (hh, H'), (h ! 0, H ! 0), (h ! 1, H ! 1),
      (h ! 2, H ! 2), (h ! 3, H ! 3), (h ! 4, H ! 4), (h ! 5, H ! 5), (h ! 6, H ! 6), (h ! 7, H ! 7)]"
    using assms by (simp add: holds8_def)
  then show ?thesis
    by - (assumption | rule produces_bind_word round_ops produces_return exI conjI refl list.rel_intros knows_holds
      list.set_intros(1) list.set_intros(2))+
qed

lemma produces_compression_body:
  assumes H: "length H = 8" and M: "length M = 16"
  defines "inp \<equiv> (!) (concat (map word_bits (H @ M)))"
  shows "produces inp (builder_new 768) compression_body
    (\<lambda>b' out. length out = 256 \<and> (\<forall>j < 256. has inp b' (out ! j) (concat (map word_bits (fips_compress H M)) ! j)))"
proof -
  let ?b = "builder_new 768"
  define h where "h = map (\<lambda>i. input_word (i * 32)) [0..<8]"
  define w where "w = map (\<lambda>i. input_word (256 + i * 32)) [0..<16] @ replicate 48 (replicate 32 0)"
  have h: "holds inp ?b (h ! i) (H ! i)" if "i < 8" for i
    using input_word_holds [of i "H @ M" 768] that H M unfolding inp_def h_def by (simp add: nth_append)
  have w: "length w = 64" "\<forall>i < 16. holds inp ?b (w ! i) (M ! i)"
    using input_word_holds [of "8 + i" "H @ M" 768 for i] H M unfolding inp_def w_def
    by (simp_all add: nth_append add_mult_distrib)
  obtain A B C D E F G H' where S: "foldl (\<lambda>s t. fips_round (fips_schedule M) t s)
      (H ! 0, H ! 1, H ! 2, H ! 3, H ! 4, H ! 5, H ! 6, H ! 7) [0..<64] = (A, B, C, D, E, F, G, H')"
    by (cases "foldl (\<lambda>s t. fips_round (fips_schedule M) t s)
      (H ! 0, H ! 1, H ! 2, H ! 3, H ! 4, H ! 5, H ! 6, H ! 7) [0..<64]") auto
  have "H = map ((!) H) [0..<8]" using map_nth [of H] H by simp
  then have Hs: "H = [H ! 0, H ! 1, H ! 2, H ! 3, H ! 4, H ! 5, H ! 6, H ! 7]" by (simp add: numeral_eq_Suc)
  have out: "fips_compress H M = [A + H ! 0, B + H ! 1, C + H ! 2, D + H ! 3, E + H ! 4, F + H ! 5, G + H ! 6, H' + H ! 7]"
    unfolding fips_compress_def S prod.case using arg_cong [OF Hs, of "map2 (+) [A, B, C, D, E, F, G, H']"] by simp
  have "produces inp ?b compression_body (\<lambda>b' out. \<exists>rs. out = concat rs \<and> list_all2 (holds inp b') rs (fips_compress H M))"
    unfolding compression_body_def Let_def h_def [symmetric] w_def [symmetric] out
  proof (rule produces_bind [OF produces_schedule [OF M w]], goal_cases)
    case (1 b1 w1)
    have "holds8 inp b1 (h ! 0, h ! 1, h ! 2, h ! 3, h ! 4, h ! 5, h ! 6, h ! 7)
      (H ! 0, H ! 1, H ! 2, H ! 3, H ! 4, H ! 5, H ! 6, H ! 7)"
      by (intro holds8I holds_extends [OF h 1(1)]) simp_all
    from produces_rounds [OF this conjunct2 [OF 1(3)]] show ?case
      unfolding S
    proof (rule produces_bind, goal_cases)
      case (1 b2 s)
      obtain a b_v c d e f g hh where s: "s = (a, b_v, c, d, e, f, g, hh)" by (cases s) auto
      show ?case
        unfolding s prod.case
        by (rule produces_final [OF 1(3) [unfolded s]]) (rule holds_extends [OF holds_extends [OF h \<open>extends inp ?b b1\<close>] 1(1)])
    qed
  qed
  then show ?thesis
    by (rule produces_mono) (use holds_concat [of inp _ _ "fips_compress H M"] in \<open>auto simp: out\<close>)
qed

section \<open>The passthrough gates\<close>

lemma passthrough_Cons:
  "passthrough b (ow # ows) = passthrough (snd (State_Monad.run_state (builder_xor ow (b_zero b)) b)) ows"
  by (simp add: passthrough_def builder_xor_def alloc_wire_def push_gate_def State_Monad.update_def)

lemma passthrough_wires:
  assumes "ok inp b" and "\<forall>w \<in> set ows. w < next_wire b"
  shows "\<exists>b'. passthrough b ows = (gates b', next_wire b') \<and> extends inp b b' \<and> ok inp b' \<and>
    next_wire b' = next_wire b + length ows \<and> length (gates b') = length (gates b) + length ows \<and>
    (\<forall>i < length ows. wire_val inp b' (next_wire b + i) = wire_val inp b (ows ! i))"
  using assms
proof (induction ows arbitrary: b)
  case Nil
  then show ?case by (intro exI [of _ b]) (simp add: passthrough_def)
next
  case (Cons ow ows)
  obtain w b1 where run: "State_Monad.run_state (builder_xor ow (b_zero b)) b = (w, b1)" by fastforce
  then have b1: "w = next_wire b" "next_wire b1 = next_wire b + 1" "length (gates b1) = length (gates b) + 1"
    by (auto simp: builder_xor_def alloc_wire_def push_gate_def State_Monad.update_def)
  have "produces inp b (builder_xor ow (b_zero b)) (\<lambda>b' v. has inp b' v (wire_val inp b ow \<noteq> False))"
    using Cons.prems by (intro produces_builder_xor) (simp_all add: has_def ok_def)
  then have b1': "extends inp b b1" "ok inp b1" "has inp b1 (next_wire b) (wire_val inp b ow)"
    using Cons.prems(1) run b1(1) by (simp_all add: produces_def)
  have "\<forall>w \<in> set ows. w < next_wire b1" using Cons.prems(2) b1(2) by auto
  then obtain b' where b': "passthrough b1 ows = (gates b', next_wire b')" "extends inp b1 b'" "ok inp b'"
      "next_wire b' = next_wire b1 + length ows" "length (gates b') = length (gates b1) + length ows"
      "\<forall>i < length ows. wire_val inp b' (next_wire b1 + i) = wire_val inp b1 (ows ! i)"
    using Cons.IH [OF b1'(2)] by blast
  have "wire_val inp b' (next_wire b + i) = wire_val inp b ((ow # ows) ! i)" if "i < length (ow # ows)" for i
  proof (cases i)
    case 0
    then show ?thesis using b'(2) b1'(3) by (simp add: has_def extends_def)
  next
    case (Suc j)
    then show ?thesis
      using that b'(6) b1(2) b1'(1) Cons.prems(2) by (simp add: extends_def)
  qed
  then show ?case
    using b' b1 b1'(1) by (intro exI [of _ b']) (auto simp: passthrough_Cons run intro: extends_trans)
qed

section \<open>What the circuit computes\<close>

lemma build_compression_run:
  assumes "length H = 8" and "length M = 16"
  shows "\<exists>b out. build_compression = (b, out) \<and> ok ((!) (concat (map word_bits (H @ M)))) b \<and> length out = 256 \<and>
    (\<forall>j < 256. has ((!) (concat (map word_bits (H @ M)))) b (out ! j) (concat (map word_bits (fips_compress H M)) ! j))"
  using produces_compression_body [OF assms] builder_new_ok [of 768 "(!) (concat (map word_bits (H @ M)))"]
  by (auto simp: produces_def build_compression_def split: prod.splits)

lemma compression_circuit_words:
  assumes "length H = 8" and "length M = 16"
  shows "eval_circuit compression_circuit 256 (concat (map word_bits (H @ M))) = concat (map word_bits (fips_compress H M))"
proof -
  let ?inp = "(!) (concat (map word_bits (H @ M)))"
  obtain b out where b: "build_compression = (b, out)" "ok ?inp b" "length out = 256"
      "\<forall>j < 256. has ?inp b (out ! j) (concat (map word_bits (fips_compress H M)) ! j)"
    using build_compression_run [OF assms] by blast
  then have "\<forall>w \<in> set out. w < next_wire b" by (auto simp: in_set_conv_nth has_def)
  with passthrough_wires [OF b(2)] obtain b' where b': "passthrough b out = (gates b', next_wire b')"
      "next_wire b' = next_wire b + 256" "\<forall>i < 256. wire_val ?inp b' (next_wire b + i) = wire_val ?inp b (out ! i)"
    using b(3) by fastforce
  have "length (fips_compress H M) = 8"
    using assms(1) by (simp add: fips_compress_def split: prod.split)
  then have len: "length (concat (map word_bits (fips_compress H M))) = 256" by simp
  have "eval_circuit compression_circuit 256 (concat (map word_bits (H @ M))) = map (wire_val ?inp b') [next_wire b..<next_wire b + 256]"
    by (simp add: eval_circuit_def compression_circuit_def b(1) b' wire_val_def)
  also have "\<dots> = concat (map word_bits (fips_compress H M))"
    using len b(4) b'(3) by (intro nth_equalityI) (simp_all add: has_def)
  finally show ?thesis .
qed

section \<open>Bytes\<close>

definition be_words :: "nat \<Rightarrow> bytes \<Rightarrow> u32 list" where
  "be_words n bs = map (\<lambda>i. word_of_nat (from_be (take 4 (drop (4 * i) bs)))) [0..<n]"

definition words_be :: "u32 list \<Rightarrow> bytes" where
  "words_be ws = concat (map (\<lambda>w. to_be 4 (unat w)) ws)"

definition sha256_compress :: "bytes \<Rightarrow> bytes \<Rightarrow> bytes" where
  "sha256_compress iv block = words_be (fips_compress (be_words 8 iv) (be_words 16 block))"

lemma word_bits_be: "bytes_to_bits (to_be 4 (unat W)) = word_bits W"
proof -
  have "bit (word_of_nat (unat W div 256 ^ k) :: byte) j = bit W (8 * k + j)" if "j < 8" for j k
  proof -
    have "(256::nat) ^ k = 2 ^ (8 * k)" by (simp add: power_mult)
    then have "unat W div 256 ^ k = drop_bit (8 * k) (unat W)" by (simp add: drop_bit_eq_div)
    then show ?thesis
      using that by (simp add: bit_simps bit_of_nat_iff_bit)
  qed
  note b = this [of _ 1, simplified] this [of _ 2, simplified] this [of _ 3, simplified]
  have "[0..<32] = [0, 1, 2, 3, 4, 5, 6, 7, 8, 9, 10, 11, 12, 13, 14, 15, 16, 17, 18, 19, 20, 21, 22, 23, 24, 25, 26,
      27, 28, 29, 30, 31::nat]"
    by code_simp
  then have "word_bits W = map (bit W) [31, 30, 29, 28, 27, 26, 25, 24, 23, 22, 21, 20, 19, 18, 17, 16,
      15, 14, 13, 12, 11, 10, 9, 8, 7, 6, 5, 4, 3, 2, 1, 0]"
    by (simp add: word_bits_def)
  then show ?thesis
    by (simp add: to_be_numeral byte_bits_def b bit_ucast_iff)
qed

lemma word_bits_bytes: "length bs = 4 \<Longrightarrow> word_bits (word_of_nat (from_be bs)) = bytes_to_bits bs"
proof -
  assume l: "length bs = 4"
  then have "unat (word_of_nat (from_be bs) :: u32) = from_be bs"
    using from_be_less [of bs] by (simp add: unat_of_nat)
  then show ?thesis
    using word_bits_be [of "word_of_nat (from_be bs)"] to_be_from_be_len [OF l] by simp
qed

lemma bytes_to_bits_words_be: "bytes_to_bits (words_be ws) = concat (map word_bits ws)"
  by (induction ws) (simp_all add: words_be_def word_bits_be del: to_be.simps)

lemma be_words_Suc: "be_words (Suc n) bs = word_of_nat (from_be (take 4 bs)) # be_words n (drop 4 bs)"
proof -
  have "be_words (Suc n) bs = map (\<lambda>i. word_of_nat (from_be (take 4 (drop (4 * i) bs)))) (0 # map Suc [0..<n])"
    unfolding be_words_def map_Suc_upt by (simp only: upt_conv_Cons [OF zero_less_Suc])
  then show ?thesis by (simp add: be_words_def comp_def add.commute)
qed

lemma be_words_numeral:
  "be_words (numeral k) bs = word_of_nat (from_be (take 4 bs)) # be_words (pred_numeral k) (drop 4 bs)"
  "be_words 0 bs = []"
  by (simp_all add: numeral_eq_Suc be_words_Suc) (simp add: be_words_def)

lemma zeros_numeral: "zeros (numeral k) = 0 # zeros (pred_numeral k)"
  by (simp add: numeral_eq_Suc)

lemma bits_be_words: "length bs = 4 * n \<Longrightarrow> concat (map word_bits (be_words n bs)) = bytes_to_bits bs"
proof (induction n arbitrary: bs)
  case (Suc n)
  have "bytes_to_bits bs = bytes_to_bits (take 4 bs) @ bytes_to_bits (drop 4 bs)"
    by (simp flip: bytes_to_bits_simps(3))
  with Suc show ?case by (simp add: be_words_Suc word_bits_bytes)
qed (simp add: be_words_def)

lemma length_be_words [simp]: "length (be_words n bs) = n"
  by (simp add: be_words_def)

lemma compression_circuit_bytes:
  assumes "length iv = 32" and "length block = 64"
  shows "eval_circuit compression_circuit 256 (bytes_to_bits iv @ bytes_to_bits block) = bytes_to_bits (sha256_compress iv block)"
  using compression_circuit_words [of "be_words 8 iv" "be_words 16 block"] assms
  by (simp add: bits_be_words bytes_to_bits_words_be sha256_compress_def)

text \<open>
  C10. The circuit the generator writes computes the SHA-256 compression function of FIPS 180-4, on every
  chaining value and every block: its last 256 wires are the bits of the next chaining value.
\<close>

theorem compression_circuit_correct:
  assumes "length iv = 32" and "length block = 64"
  shows "eval_circuit compression_circuit 256 (bytes_to_bits iv @ bytes_to_bits block) = bytes_to_bits (sha256_compress iv block)"
  using assms by (rule compression_circuit_bytes)

text \<open>The test vector of \<open>validate\<close>: the block of the message \<open>abc\<close>.\<close>

definition abc_block :: bytes where
  "abc_block = [97, 98, 99, 128] @ zeros 59 @ [24]"

definition abc_digest :: bytes where
  "abc_digest = [0xba, 0x78, 0x16, 0xbf, 0x8f, 0x01, 0xcf, 0xea, 0x41, 0x41, 0x40, 0xde, 0x5d, 0xae, 0x22, 0x23,
     0xb0, 0x03, 0x61, 0xa3, 0x96, 0x17, 0x7a, 0x9c, 0xb4, 0x10, 0xff, 0x61, 0xf2, 0x00, 0x15, 0xad]"

lemma abc_schedule:
  "fips_schedule [0x61626380, 0, 0, 0, 0, 0, 0, 0, 0, 0, 0, 0, 0, 0, 0, 0x18] =
    [0x61626380, 0, 0, 0, 0, 0, 0, 0,
     0, 0, 0, 0, 0, 0, 0, 0x00000018,
     0x61626380, 0x000f0000, 0x7da86405, 0x600003c6, 0x3e9d7b78, 0x0183fc00, 0x12dcbfdb, 0xe2e2c38e,
     0xc8215c1a, 0xb73679a2, 0xe5bc3909, 0x32663c5b, 0x9d209d67, 0xec8726cb, 0x702138a4, 0xd3b7973b,
     0x93f5997f, 0x3b68ba73, 0xaff4ffc1, 0xf10a5c62, 0x0a8b3996, 0x72af830a, 0x9409e33e, 0x24641522,
     0x9f47bf94, 0xf0a64f5a, 0x3e246a79, 0x27333ba3, 0x0c4763f2, 0x840abf27, 0x7a290d5d, 0x065c43da,
     0xfb3e89cb, 0xcc7617db, 0xb9e66c34, 0xa9993667, 0x84badedd, 0xc21462bc, 0x1487472c, 0xb20f7a99,
     0xef57b9cd, 0xebe6b238, 0x9fe3095e, 0x78bc8d4b, 0xa43fcf15, 0x668b2ff8, 0xeeaba2cc, 0x12b1edeb]"
  by code_simp

lemma abc_rounds:
  "foldl (\<lambda>s t. fips_round
    [0x61626380, 0, 0, 0, 0, 0, 0, 0,
     0, 0, 0, 0, 0, 0, 0, 0x00000018,
     0x61626380, 0x000f0000, 0x7da86405, 0x600003c6, 0x3e9d7b78, 0x0183fc00, 0x12dcbfdb, 0xe2e2c38e,
     0xc8215c1a, 0xb73679a2, 0xe5bc3909, 0x32663c5b, 0x9d209d67, 0xec8726cb, 0x702138a4, 0xd3b7973b,
     0x93f5997f, 0x3b68ba73, 0xaff4ffc1, 0xf10a5c62, 0x0a8b3996, 0x72af830a, 0x9409e33e, 0x24641522,
     0x9f47bf94, 0xf0a64f5a, 0x3e246a79, 0x27333ba3, 0x0c4763f2, 0x840abf27, 0x7a290d5d, 0x065c43da,
     0xfb3e89cb, 0xcc7617db, 0xb9e66c34, 0xa9993667, 0x84badedd, 0xc21462bc, 0x1487472c, 0xb20f7a99,
     0xef57b9cd, 0xebe6b238, 0x9fe3095e, 0x78bc8d4b, 0xa43fcf15, 0x668b2ff8, 0xeeaba2cc, 0x12b1edeb] t s)
    (0x6a09e667, 0xbb67ae85, 0x3c6ef372, 0xa54ff53a, 0x510e527f, 0x9b05688c, 0x1f83d9ab, 0x5be0cd19) [0..<64] =
    (0x506e3058, 0xd39a2165, 0x04d24d6c, 0xb85e2ce9, 0x5ef50f24, 0xfb121210, 0x948d25b6, 0x961f4894)"
  by code_simp

lemma abc_compress: "sha256_compress SHA256_INITIAL_IV_BYTES abc_block = abc_digest"
proof -
  have "be_words 8 SHA256_INITIAL_IV_BYTES =
      [0x6a09e667, 0xbb67ae85, 0x3c6ef372, 0xa54ff53a, 0x510e527f, 0x9b05688c, 0x1f83d9ab, 0x5be0cd19]"
    "be_words 16 abc_block = [0x61626380, 0, 0, 0, 0, 0, 0, 0, 0, 0, 0, 0, 0, 0, 0, 0x18]"
    by (simp_all add: be_words_numeral be_words_Suc abc_block_def SHA256_INITIAL_IV_BYTES_def zeros_numeral from_be_Cons)
  then show ?thesis
    by (simp add: sha256_compress_def fips_compress_def abc_schedule abc_rounds words_be_def to_be_numeral abc_digest_def)
qed

theorem compression_circuit_correct_witness:
  "eval_circuit compression_circuit 256 (bytes_to_bits SHA256_INITIAL_IV_BYTES @ bytes_to_bits abc_block) = bytes_to_bits abc_digest"
  using compression_circuit_correct [of SHA256_INITIAL_IV_BYTES abc_block]
  by (simp add: abc_compress) (simp add: SHA256_INITIAL_IV_BYTES_def abc_block_def)

section \<open>The size of the circuit\<close>

definition adds :: "'a building \<Rightarrow> nat \<Rightarrow> bool" where
  "adds m k \<longleftrightarrow> (\<forall>b. next_wire (snd (State_Monad.run_state m b)) = next_wire b + k \<and>
     length (gates (snd (State_Monad.run_state m b))) = length (gates b) + k)"

lemma adds_return: "adds (State_Monad.return x) 0"
  by (simp add: adds_def)

lemma adds_bind:
  assumes "adds m k" and "\<And>x. adds (f x) l"
  shows "adds (State_Monad.bind m f) (k + l)"
  unfolding adds_def
proof
  fix b
  obtain x b' where "State_Monad.run_state m b = (x, b')" by fastforce
  with assms(1) assms(2) [of x] show "next_wire (snd (State_Monad.run_state (State_Monad.bind m f) b)) = next_wire b + (k + l) \<and>
      length (gates (snd (State_Monad.run_state (State_Monad.bind m f) b))) = length (gates b) + (k + l)"
    by (simp add: adds_def) (metis add.assoc snd_conv)
qed

lemma adds_for: "(\<And>i s. adds (f i s) k) \<Longrightarrow> adds (for_in is s f) (length is * k)"
  by (induction "is" arbitrary: s) (simp_all add: adds_return adds_bind)

lemma adds_gates: "adds (builder_xor a c) 1" "adds (builder_and a c) 1" "adds (builder_inv a) 1"
  by (simp_all add: adds_def builder_xor_def builder_and_def builder_inv_def alloc_wire_def push_gate_def State_Monad.update_def)

lemma adds_words: "adds (xor_u32 x y) 32" "adds (and_u32 x y) 32" "adds (not_u32 x) 32" "adds (shr_u32 x n) 0" "adds (constant_u32 v) 0"
proof -
  have loop: "adds (for_in [0..<32] s (\<lambda>i out. State_Monad.bind (f i) (\<lambda>w. State_Monad.return (out[i := w])))) 32"
    if "\<And>i. adds (f i) 1" for s and f :: "nat \<Rightarrow> nat building"
  proof -
    have "adds (for_in [0..<32] s (\<lambda>i out. State_Monad.bind (f i) (\<lambda>w. State_Monad.return (out[i := w])))) (length [0..<32] * (1 + 0))"
      by (rule adds_for, rule adds_bind, rule that, rule adds_return)
    then show ?thesis by simp
  qed
  show "adds (xor_u32 x y) 32" "adds (and_u32 x y) 32" "adds (not_u32 x) 32"
    unfolding xor_u32_def and_u32_def not_u32_def by (intro loop adds_gates)+
qed (simp_all add: adds_def shr_u32_def constant_u32_def)

lemma adds_add_u32: "adds (add_u32 x y) 157"
proof -
  have "adds (for_in (rev [0..<31]) p (\<lambda>i (sum', carry). do {
       t1 \<leftarrow> builder_xor (x ! i) (y ! i);
       s \<leftarrow> builder_xor t1 carry;
       t2 \<leftarrow> builder_and (x ! i) (y ! i);
       t3 \<leftarrow> builder_and t1 carry;
       carry \<leftarrow> builder_xor t2 t3;
       State_Monad.return (sum'[i := s], carry)})) (length (rev [0..<31]) * (1 + (1 + (1 + (1 + (1 + 0))))))" for p
    unfolding split_def by (rule adds_for) (intro adds_bind adds_gates adds_return)
  then have loop: "adds (for_in (rev [0..<31]) p (\<lambda>i (sum', carry). do {
       t1 \<leftarrow> builder_xor (x ! i) (y ! i);
       s \<leftarrow> builder_xor t1 carry;
       t2 \<leftarrow> builder_and (x ! i) (y ! i);
       t3 \<leftarrow> builder_and t1 carry;
       carry \<leftarrow> builder_xor t2 t3;
       State_Monad.return (sum'[i := s], carry)})) 155" for p
    by simp
  have "adds (add_u32 x y) (1 + (1 + (155 + 0)))"
    unfolding add_u32_def by (intro adds_bind adds_gates loop) (simp add: split_def adds_return)
  then show ?thesis by simp
qed

lemma adds_functions: "adds (ch x y z) (32 + (32 + (32 + 32)))" "adds (maj x y z) (32 + (32 + (32 + (32 + 32))))"
  "adds (big_sigma0 x) (32 + 32)" "adds (big_sigma1 x) (32 + 32)" "adds (small_sigma0 x) (0 + (32 + 32))"
  "adds (small_sigma1 x) (0 + (32 + 32))"
  unfolding ch_def maj_def big_sigma0_def big_sigma1_def small_sigma0_def small_sigma1_def
  by (intro adds_bind adds_words)+

lemma adds_schedule_step: "adds (schedule_step i w) 599"
proof -
  have "adds (schedule_step i w) ((0 + (32 + 32)) + ((0 + (32 + 32)) + (157 + (157 + (157 + 0)))))"
    unfolding schedule_step_def by (intro adds_bind adds_functions adds_add_u32 adds_return)
  then show ?thesis by simp
qed

lemma adds_round_step: "adds (round_step w i s) 1515"
proof -
  obtain a b_v c d e f g hh where s: "s = (a, b_v, c, d, e, f, g, hh)" by (cases s) auto
  have "adds (round_step w i s) (0 + ((32 + 32) + ((32 + (32 + (32 + 32))) + (157 + (157 + (157 + (157 + ((32 + 32) +
    ((32 + (32 + (32 + (32 + 32)))) + (157 + (157 + (157 + 0))))))))))))"
    unfolding s round_step_def prod.case by (intro adds_bind adds_functions adds_words adds_add_u32 adds_return)
  then show ?thesis by simp
qed

lemma adds_compression_body: "adds compression_body (48 * 599 + (64 * 1515 + 8 * 157))"
proof -
  have s: "adds (for_in [16..<64] w schedule_step) (48 * 599)" for w
    using adds_for [of schedule_step 599 "[16..<64]" w] adds_schedule_step by simp
  have r: "adds (for_in [0..<64] p (round_step w)) (64 * 1515)" for p w
    using adds_for [of "round_step w" 1515 "[0..<64]" p] adds_round_step by simp
  have "adds compression_body (48 * 599 + (64 * 1515 + (157 + (157 + (157 + (157 + (157 + (157 + (157 + (157 + 0))))))))))"
    unfolding compression_body_def Let_def split_def by (intro adds_bind s r adds_add_u32 adds_return)
  then show ?thesis by simp
qed

lemma build_compression_size: "next_wire (fst build_compression) = 127738 \<and> length (gates (fst build_compression)) = 126970"
  using adds_compression_body
  by (simp add: adds_def build_compression_def builder_new_simps split_def)

lemma compression_circuit_gates:
  obtains b out gs where "build_compression = (b, out)" "length out = 256" "passthrough b out = (gs, 127994)"
    "compression_circuit = (gs, 127994)" "length gs = 127226" "map g_out gs = [768..<127994]"
    "list_all (\<lambda>g. g_in1 g < g_out g \<and> g_in2 g < g_out g) gs"
proof -
  define H M where "H = replicate 8 (0 :: u32)" and "M = replicate 16 (0 :: u32)"
  let ?inp = "(!) (concat (map word_bits (H @ M)))"
  have "length H = 8" "length M = 16" by (simp_all add: H_def M_def)
  then obtain b out where b: "build_compression = (b, out)" "ok ?inp b" "length out = 256"
      "\<forall>j < 256. has ?inp b (out ! j) (concat (map word_bits (fips_compress H M)) ! j)"
    using build_compression_run by blast
  then have "\<forall>w \<in> set out. w < next_wire b" by (auto simp: in_set_conv_nth has_def)
  then obtain b' where b': "passthrough b out = (gates b', next_wire b')" "ok ?inp b'"
      "next_wire b' = next_wire b + length out" "length (gates b') = length (gates b) + length out"
    using passthrough_wires [OF b(2)] by blast
  have size: "next_wire b' = 127994" "length (gates b') = 127226"
    using b'(3,4) b(3) build_compression_size [unfolded b(1)] by simp_all
  have outs: "map g_out (gates b') = [768..<127994]" "list_all (\<lambda>g. g_in1 g < g_out g \<and> g_in2 g < g_out g) (gates b')"
  proof -
    have "(127994::nat) - 127226 = 768" by simp
    then show "map g_out (gates b') = [768..<127994]" using b'(2) unfolding ok_def size by (simp only:)
    show "list_all (\<lambda>g. g_in1 g < g_out g \<and> g_in2 g < g_out g) (gates b')"
      using b'(2) by (simp add: ok_def list_all_iff)
  qed
  show thesis
    by (rule that [OF b(1) b(3) _ _ size(2) outs]) (simp_all add: b'(1) size compression_circuit_def b(1))
qed

text \<open>
  C31. The size of the circuit and the order of its gates: 127,226 gates on 127,994 wires, as the file
  \<open>circuits/sha-256-compress.txt\<close> says; the gates drive the wires behind the 768 inputs one after the
  other, every gate reads wires in front of its own, and the two header lines are those of the file.
\<close>

theorem compression_circuit_shape:
  "length (fst compression_circuit) = 127226 \<and> snd compression_circuit = 127994 \<and>
   map g_out (fst compression_circuit) = [768..<127994] \<and>
   list_all (\<lambda>g. g_in1 g < g_out g \<and> g_in2 g < g_out g) (fst compression_circuit) \<and>
   take 3 (write_circuit (fst build_compression) (256 + 512) 0 (snd build_compression)) =
     [''127226 127994'', ''768 0   256'', []]"
proof -
  obtain b out gs where c: "build_compression = (b, out)" "length out = 256" "passthrough b out = (gs, 127994)"
    "compression_circuit = (gs, 127994)" "length gs = 127226" "map g_out gs = [768..<127994]"
    "list_all (\<lambda>g. g_in1 g < g_out g \<and> g_in2 g < g_out g) gs"
    by (rule compression_circuit_gates)
  have dec: "decimal 127226 = ''127226''" "decimal 127994 = ''127994''" "decimal 768 = ''768''" "decimal 0 = ''0''" "decimal 256 = ''256''"
    by (simp_all add: decimal.simps char_of_def bit_0)
  have "take 3 (write_circuit (fst build_compression) (256 + 512) 0 (snd build_compression)) = [''127226 127994'', ''768 0   256'', []]"
    using c(2,5) by (simp add: write_circuit_def c(1,3) dec)
  with c(5-7) show ?thesis unfolding c(4) fst_conv snd_conv by blast
qed

section \<open>The generator\<close>

text \<open>
  \<open>parse\<close> is \<open>BinaryCircuit::parse\<close> on the lines of the file and \<open>compress256\<close> the function of the
  crate \<open>sha2\<close>; the first error is the failed assertion. The second component of the result says
  whether the validation succeeded, the first is the file, if one is written.
\<close>

definition validate ::
  "(string list \<Rightarrow> (gate list \<times> nat) option) \<Rightarrow> (bytes \<Rightarrow> bytes \<Rightarrow> bytes) \<Rightarrow> string list \<Rightarrow> string + unit" where
  "validate parse compress256 circ_lines =
     (case parse circ_lines of
        None \<Rightarrow> Inl ''parse generated circuit''
      | Some circ \<Rightarrow>
        let iv = SHA256_INITIAL_IV_BYTES;
            m = ((replicate 64 0)[0 := 97, 1 := 98, 2 := 99, 3 := 0x80])[63 := 0x18];
            expected = compress256 iv m
        in if expected \<noteq> abc_digest then Inl ''sanity: sha2::compress256''
           else let out = eval_circuit circ 256 (bytes_to_bits (iv @ m))
                in if bits_to_bytes 32 out \<noteq> expected then Inl ''circuit output mismatch'' else Inr ())"

definition gen_main ::
  "(string list \<Rightarrow> (gate list \<times> nat) option) \<Rightarrow> (bytes \<Rightarrow> bytes \<Rightarrow> bytes) \<Rightarrow> bool \<Rightarrow> string list option \<times> (string + unit)" where
  "gen_main parse compress256 validate_only =
     (case build_compression of (b, output_wires) \<Rightarrow>
       let buf = write_circuit b (256 + 512) 0 output_wires
       in (if validate_only then None else Some buf, validate parse compress256 buf))"

lemma abc_block_upd: "((replicate 64 0)[0 := 97, 1 := 98, 2 := 99, 3 := 0x80])[63 := 0x18] = abc_block"
  by code_simp

lemma gen_main_validates:
  assumes "parse (write_circuit (fst build_compression) (256 + 512) 0 (snd build_compression)) = Some compression_circuit"
  shows "gen_main parse sha256_compress validate_only =
    (if validate_only then None else Some (write_circuit (fst build_compression) (256 + 512) 0 (snd build_compression)), Inr ())"
proof -
  have l: "length SHA256_INITIAL_IV_BYTES = 32" "length abc_block = 64"
    by (simp_all add: SHA256_INITIAL_IV_BYTES_def abc_block_def)
  have out: "eval_circuit compression_circuit 256 (bytes_to_bits SHA256_INITIAL_IV_BYTES @ bytes_to_bits abc_block) = bytes_to_bits abc_digest"
    using compression_circuit_bytes [OF l] by (simp add: abc_compress)
  have dig: "bits_to_bytes 32 (bytes_to_bits abc_digest) = abc_digest"
    by (rule bits_bytes_bits) (simp add: abc_digest_def)
  show ?thesis
    using assms unfolding gen_main_def validate_def split_def abc_block_upd Let_def bytes_to_bits_simps(3) out dig
    by (simp only: option.case abc_compress out dig) simp
qed

section \<open>The circuit as the compression function of the key schedule\<close>

definition circuit_env :: hash_env where
  "circuit_env = md_hash_env sha256_compress"

lemma circuit_env_ok: "hash_env_ok circuit_env"
proof -
  have "length (words_be ws) = 4 * length ws" for ws
    by (induction ws) (simp_all add: words_be_def del: to_be.simps)
  then show ?thesis
    unfolding circuit_env_def
    by (intro md_hash_env_ok) (simp add: sha256_compress_def fips_compress_def split_def)
qed

lemma circuit_env_inner:
  assumes "length bits = 768"
  shows "inner (sha256_compress_wrk17_circuit circuit_env) bits = eval_circuit compression_circuit 256 bits"
proof -
  have "bytes_to_bits (bits_to_bytes n bs) = bs" if "length bs = 8 * n" for n bs
    using that by (induction n arbitrary: bs) (auto simp: byte_bits_byte)
  then show ?thesis
    using assms compression_circuit_bytes [of "bits_to_bytes 32 (take 256 bits)" "bits_to_bytes 64 (drop 256 bits)"]
    by (simp add: sha256_compress_wrk17_circuit_def circuit_env_def md_hash_env_def)
qed

end
