(* ===== verification/Wrk17_Sha256.thy ===== *)
theory Wrk17_Sha256
  imports Wrk17_Runs Sha256_Circuit
begin

text \<open>
  The key schedule over the garbling protocol: the Bristol circuit of the theory \<open>Sha256_Circuit\<close> as
  calls on a backend, in the wrapper of \<open>garble.rs\<close>, run by the protocol of the theory \<open>Wrk17\<close> in place
  of the ideal runs of the theory \<open>Hkdf\<close>.
\<close>

section \<open>Bristol circuits as calls\<close>

definition gate_call :: "gate \<Rightarrow> call" where
  "gate_call g = (case g_kind g of Inv \<Rightarrow> Call_Negate (g_in1 g) | Xor \<Rightarrow> Call_Xor (g_in1 g) (g_in2 g) | And \<Rightarrow> Call_And (g_in1 g) (g_in2 g))"

definition bristol_calls :: "gate list \<times> nat \<Rightarrow> nat \<Rightarrow> nat \<Rightarrow> call_circuit" where
  "bristol_calls c n_in n_out =
     (case c of (gs, nwires) \<Rightarrow>
        \<lparr>cc_inputs = n_in, cc_calls = map gate_call gs, cc_outputs = [nwires - n_out..<nwires]\<rparr>)"

text \<open>The gates drive the wires behind the inputs one after the other, from wires in front of their own.\<close>

definition in_order :: "nat \<Rightarrow> gate list \<Rightarrow> bool" where
  "in_order n gs \<longleftrightarrow> map g_out gs = [n..<n + length gs] \<and> list_all (\<lambda>g. g_in1 g < g_out g \<and> g_in2 g < g_out g) gs"

lemma in_order_Cons:
  "in_order n (g # gs) \<longleftrightarrow> g_out g = n \<and> g_in1 g < n \<and> g_in2 g < n \<and> in_order (Suc n) gs"
proof -
  have "[n..<n + length (g # gs)] = n # [Suc n..<Suc n + length gs]" by (simp add: upt_conv_Cons del: upt_Suc)
  then show ?thesis by (auto simp: in_order_def simp del: upt_Suc)
qed

lemma wf_gate_calls: "in_order n gs \<Longrightarrow> wf_calls n (map gate_call gs)"
proof (induction gs arbitrary: n)
  case (Cons g gs)
  then show ?case by (auto simp: in_order_Cons gate_call_def split: gate_kind.split)
qed simp

lemma run_gate_calls:
  assumes "in_order (length vs) gs" and "\<And>w. w < length vs \<Longrightarrow> vs ! w = v w" and "w < length vs + length gs"
  shows "run_calls (map gate_call gs) vs ! w = foldl eval_gate v gs w"
  using assms
proof (induction gs arbitrary: vs v)
  case (Cons g gs)
  have g: "g_out g = length vs" "g_in1 g < length vs" "g_in2 g < length vs" "in_order (Suc (length vs)) gs"
    using Cons.prems(1) by (simp_all add: in_order_Cons)
  have step: "(vs @ [call_value vs (gate_call g)]) ! u = eval_gate v g u" if "u < Suc (length vs)" for u
    using that g Cons.prems(2) by (cases "u = length vs") (auto simp: nth_append gate_call_def split: gate_kind.split)
  have "run_calls (map gate_call gs) (vs @ [call_value vs (gate_call g)]) ! w = foldl eval_gate (eval_gate v g) gs w"
    by (rule Cons.IH) (use g(4) step Cons.prems(3) in simp_all)
  then show ?case by (simp del: eval_gate.simps)
qed simp

lemma bristol_calls_value:
  assumes "in_order n gs" and "nwires = n + length gs" and "n_out \<le> nwires" and "length zs = n"
  shows "wf_circuit (bristol_calls (gs, nwires) n n_out)"
    and "circuit_value (bristol_calls (gs, nwires) n n_out) zs = eval_circuit (gs, nwires) n_out zs"
proof -
  show "wf_circuit (bristol_calls (gs, nwires) n n_out)"
    using assms wf_gate_calls by (auto simp: wf_circuit_def bristol_calls_def list_all_iff)
  show "circuit_value (bristol_calls (gs, nwires) n n_out) zs = eval_circuit (gs, nwires) n_out zs"
    using assms run_gate_calls [of zs gs "(!) zs"] by (auto simp: circuit_value_def bristol_calls_def eval_circuit_def)
qed

section \<open>The compression function\<close>

definition compress_calls :: call_circuit where
  "compress_calls = split_calls (bristol_calls compression_circuit 768 256) 768 256"

lemma compress_calls_implement: "implements compress_calls (split_wrk17 (sha256_compress_wrk17_circuit circuit_env))"
proof -
  obtain gs where c: "compression_circuit = (gs, 127994)" "length gs = 127226" "map g_out gs = [768..<127994]"
    "list_all (\<lambda>g. g_in1 g < g_out g \<and> g_in2 g < g_out g) gs"
    by (rule compression_circuit_gates)
  have n: "(127994 :: nat) = 768 + length gs" using c(2) by simp
  have ord: "in_order 768 gs" unfolding in_order_def n [symmetric] using c(3,4) by blast
  note calls = bristol_calls_value [OF ord n, of 256, folded c(1)]
  have "wf_circuit (bristol_calls compression_circuit 768 256)" using calls(1) [of "replicate 768 False"] by simp
  moreover have "cc_inputs (bristol_calls compression_circuit 768 256) = 768" "length (cc_outputs (bristol_calls compression_circuit 768 256)) = 256"
    by (simp_all add: bristol_calls_def c(1))
  moreover have "circuit_value (bristol_calls compression_circuit 768 256) zs = inner (sha256_compress_wrk17_circuit circuit_env) zs"
    if "length zs = 768" for zs
    using calls(2) [of zs] circuit_env_inner [OF that] that by simp
  ultimately show ?thesis
    using split_implements [of "bristol_calls compression_circuit 768 256" "sha256_compress_wrk17_circuit circuit_env"]
    by (simp add: sha256_compress_wrk17_circuit_def compress_calls_def)
qed

section \<open>The key schedule over the garbling protocol\<close>

lemma circuits_in_local [simp]: "circuits_in Cs (local_result x)"
  by (cases x rule: local_result.cases) simp_all

lemma circuits_in_compress [simp]:
  "circuits_in {split_wrk17 (sha256_compress_wrk17_circuit H)} (notary_sha256_compress_xor H iv b)"
  "circuits_in {split_wrk17 (sha256_compress_wrk17_circuit H)} (client_sha256_compress_xor H iv b)"
  by (simp_all add: notary_sha256_compress_xor_def client_sha256_compress_xor_def compress_xor_notary_wrk17_def compress_xor_client_wrk17_def)

lemma circuits_in_hmac [simp]:
  "circuits_in {split_wrk17 (sha256_compress_wrk17_circuit H)} (notary_hmac_sha256 H k n)"
  "circuits_in {split_wrk17 (sha256_compress_wrk17_circuit H)} (client_hmac_sha256 H k m)"
  "circuits_in {split_wrk17 (sha256_compress_wrk17_circuit H)} (notary_hmac_sha256_xor_msg H k m)"
  "circuits_in {split_wrk17 (sha256_compress_wrk17_circuit H)} (client_hmac_sha256_xor_msg H k m)"
  unfolding notary_hmac_sha256_def client_hmac_sha256_def notary_hmac_sha256_xor_msg_def client_hmac_sha256_xor_msg_def Let_def
  by (intro circuits_in_pbind circuits_in_local circuits_in_compress)+

lemma circuits_in_key_schedule:
  "circuits_in {split_wrk17 (sha256_compress_wrk17_circuit H)} (notary_tls13_client_traffic_from_ikm_shares H ikm sh sf)"
  "circuits_in {split_wrk17 (sha256_compress_wrk17_circuit H)} (client_tls13_client_traffic_from_ikm_shares H ikm sh sf)"
  unfolding notary_tls13_client_traffic_from_ikm_shares_def client_tls13_client_traffic_from_ikm_shares_def Let_def
    notary_hkdf_extract_def client_hkdf_extract_def notary_hkdf_expand_label_def client_hkdf_expand_label_def
    notary_hkdf_extract_xor_ikm_def client_hkdf_extract_xor_ikm_def
  by (intro circuits_in_pbind circuits_in_hmac, simp)+

text \<open>
  C7. The key schedule of the two parties over the garbling protocol: with the OT bootstrap of both
  sessions in front, and every compression run by the protocol on the generated Bristol circuit in
  the wrapper of \<open>garble.rs\<close>, both parties finish on every schedule with XOR shares of the keys and IVs
  of the reference key schedule, computed with the SHA-256 of FIPS 180-4.
\<close>

theorem key_schedule_over_wrk17:
  assumes "auth_ok P" and "length ikm_n = 32" and "length ikm_c = 32"
    and "length sh_n = 32" and "length sf_n = 32" and "length sh_c = 32" and "length sf_c = 32"
  shows "safe (both_ok (traffic_shares_of (reference_tls13_client_traffic circuit_env (bxor ikm_n ikm_c) sh_c sf_c)))
    (wrk17_notary_session (\<lambda>_. compress_calls) (gb_lib P) (labels P)
       (notary_tls13_client_traffic_from_ikm_shares circuit_env ikm_n sh_n sf_n),
     wrk17_client_session (\<lambda>_. compress_calls) (ev_lib P) (labels P)
       (client_tls13_client_traffic_from_ikm_shares circuit_env ikm_c sh_c sf_c), [], [])"
proof (rule delivers_safe, rule sessions_deliver [OF _ assms(1) _ circuits_in_key_schedule])
  show "delivers (notary_tls13_client_traffic_from_ikm_shares circuit_env ikm_n sh_n sf_n)
      (client_tls13_client_traffic_from_ikm_shares circuit_env ikm_c sh_c sf_c)
      (traffic_shares_of (reference_tls13_client_traffic circuit_env (bxor ikm_n ikm_c) sh_c sf_c))"
    using assms by (intro key_schedule_run circuit_env_ok) (simp_all add: shares_of_def)
qed (use compress_calls_implement in simp)

theorem key_schedule_over_wrk17_witness:
  "safe (both_ok (traffic_shares_of (reference_tls13_client_traffic circuit_env
       (bxor (replicate 32 1) (replicate 32 2)) (replicate 32 3) (replicate 32 4))))
    (wrk17_notary_session (\<lambda>_. compress_calls) dealer_garbler dealer_labels
       (notary_tls13_client_traffic_from_ikm_shares circuit_env (replicate 32 1) (zeros 32) (zeros 32)),
     wrk17_client_session (\<lambda>_. compress_calls) dealer_evaluator dealer_labels
       (client_tls13_client_traffic_from_ikm_shares circuit_env (replicate 32 2) (replicate 32 3) (replicate 32 4)), [], [])"
  using key_schedule_over_wrk17 [OF dealer_ok, of "replicate 32 1" "replicate 32 2" "zeros 32" "zeros 32" "replicate 32 3" "replicate 32 4"]
  unfolding dealer_fields by (simp only: length_replicate length_zeros simp_thms)

end
