(* ===== verification/Wrk17_Ghash.thy ===== *)
theory Wrk17_Ghash
  imports Wrk17_Runs Ghash
begin

text \<open>
  The GHASH circuits of \<open>ghash.rs\<close> as the calls they make on a backend (\<open>ghash_mul_calls\<close>,
  \<open>ghash_chain_calls\<close>): the same loops as in the theory \<open>Ghash\<close>, on wires instead of bits. The lemmas
  show that the calls compute \<open>ghash_chain_execute\<close>, so that the two-party GHASH runs over the garbling
  protocol.
\<close>

section \<open>Calls\<close>

text \<open>The number of inputs and the calls so far; a call gives the next wire.\<close>

type_synonym emitter = "nat \<times> call list"

definition emit :: "call \<Rightarrow> emitter \<Rightarrow> nat \<times> emitter" where
  "emit c s = (fst s + length (snd s), (fst s, snd s @ [c]))"

definition mul_step :: "nat \<Rightarrow> nat list \<Rightarrow> nat list \<times> emitter \<Rightarrow> nat \<Rightarrow> nat list \<times> emitter" where
  "mul_step xi v = (\<lambda>(z, s) j.
     let (xv, s) = emit (Call_And xi (v ! j)) s;
         (w, s) = emit (Call_Xor (z ! j) xv) s
     in (z[j := w], s))"

definition reduce_step :: "nat \<Rightarrow> nat list \<times> emitter \<Rightarrow> nat \<Rightarrow> nat list \<times> emitter" where
  "reduce_step l = (\<lambda>(v, s) r. let (w, s) = emit (Call_Xor (v ! r) l) s in (v[r := w], s))"

definition round_calls :: "nat \<Rightarrow> (nat list \<times> nat list) \<times> emitter \<Rightarrow> nat \<Rightarrow> (nat list \<times> nat list) \<times> emitter" where
  "round_calls zero = (\<lambda>((z, v), s) xi.
     let (z, s) = foldl (mul_step xi v) (z, s) [0..<128];
         l = v ! 127;
         new_v = zero # take 127 v;
         (v, s) = foldl (reduce_step l) (new_v, s) [0, 1, 2, 7]
     in ((z, v), s))"

definition ghash_mul_calls :: "nat list \<Rightarrow> nat list \<Rightarrow> emitter \<Rightarrow> nat list \<times> emitter" where
  "ghash_mul_calls x y s =
     (let (zero, s) = emit (Call_Constant False) s;
          ((z, v), s) = foldl (round_calls zero) ((replicate 128 zero, y), s) (take 128 x)
      in (z, s))"

fun xor_calls :: "nat list \<Rightarrow> nat list \<Rightarrow> emitter \<Rightarrow> nat list \<times> emitter" where
  "xor_calls (a # as) (b # bs) s =
     (let (w, s) = emit (Call_Xor a b) s; (ws, s) = xor_calls as bs s in (w # ws, s))"
| "xor_calls _ _ s = ([], s)"

definition ghash_chain_wires :: "nat \<Rightarrow> emitter \<Rightarrow> nat list \<times> emitter" where
  "ghash_chain_wires n_blocks s =
     (let inputs = [0..<128 + n_blocks * 128];
          h = take 128 inputs;
          (zero, s) = emit (Call_Constant False) s
      in foldl (\<lambda>(acc, s) blk.
           let block = take 128 (drop (128 + blk * 128) inputs);
               (x, s) = xor_calls acc block s
           in ghash_mul_calls x h s) (replicate 128 zero, s) [0..<n_blocks])"

definition ghash_chain_calls :: "nat \<Rightarrow> call_circuit" where
  "ghash_chain_calls n_blocks =
     (let n = 128 + n_blocks * 128;
          (acc, (_, cs)) = ghash_chain_wires n_blocks (n, [])
      in \<lparr>cc_inputs = n, cc_calls = cs, cc_outputs = acc\<rparr>)"

section \<open>The values on the wires\<close>

definition wire_is :: "bool list \<Rightarrow> emitter \<Rightarrow> nat \<Rightarrow> bool \<Rightarrow> bool" where
  "wire_is inp s w b \<longleftrightarrow> w < fst s + length (snd s) \<and> run_calls (snd s) inp ! w = b"

abbreviation "wires_are inp s \<equiv> list_all2 (wire_is inp s)"

definition sound :: "bool list \<Rightarrow> emitter \<Rightarrow> bool" where
  "sound inp s \<longleftrightarrow> fst s = length inp \<and> wf_calls (fst s) (snd s)"

definition grows :: "bool list \<Rightarrow> emitter \<Rightarrow> emitter \<Rightarrow> bool" where
  "grows inp s s' \<longleftrightarrow> sound inp s' \<and> (\<forall>w b. wire_is inp s w b \<longrightarrow> wire_is inp s' w b)"

lemma grows_refl: "sound inp s \<Longrightarrow> grows inp s s"
  by (simp add: grows_def)

lemma grows_trans: "grows inp s s' \<Longrightarrow> grows inp s' s'' \<Longrightarrow> grows inp s s''"
  by (simp add: grows_def)

lemma grows_wire: "grows inp s s' \<Longrightarrow> wire_is inp s w b \<Longrightarrow> wire_is inp s' w b"
  by (simp add: grows_def)

lemma grows_wires: "grows inp s s' \<Longrightarrow> wires_are inp s ws bs \<Longrightarrow> wires_are inp s' ws bs"
  by (erule list_all2_mono) (rule grows_wire)

lemma wires_nth: "wires_are inp s ws bs \<Longrightarrow> i < length bs \<Longrightarrow> wire_is inp s (ws ! i) (bs ! i)"
  by (simp add: list_all2_conv_all_nth)

lemma wires_update: "wires_are inp s ws bs \<Longrightarrow> wire_is inp s w b \<Longrightarrow> wires_are inp s (ws[i := w]) (bs[i := b])"
  by (rule list_all2_update_cong)

text \<open>What a call adds.\<close>

lemma emit_grows:
  assumes "sound inp s" and "emit c s = (w, s')" and "wf_call (fst s + length (snd s)) c"
  shows "grows inp s s' \<and> wire_is inp s' w (call_value (run_calls (snd s) inp) c)"
  using assms by (auto simp: emit_def grows_def sound_def wire_is_def wf_calls_append run_calls_append nth_append)

lemma emit_xor:
  assumes "sound inp s" and "emit (Call_Xor i j) s = (w, s')" and "wire_is inp s i a" and "wire_is inp s j b"
  shows "grows inp s s' \<and> wire_is inp s' w (a \<noteq> b)"
  using emit_grows [OF assms(1,2)] assms(3,4) by (simp add: wire_is_def)

lemma emit_and:
  assumes "sound inp s" and "emit (Call_And i j) s = (w, s')" and "wire_is inp s i a" and "wire_is inp s j b"
  shows "grows inp s s' \<and> wire_is inp s' w (a \<and> b)"
  using emit_grows [OF assms(1,2)] assms(3,4) by (simp add: wire_is_def)

lemma emit_constant:
  assumes "sound inp s" and "emit (Call_Constant b) s = (w, s')"
  shows "grows inp s s' \<and> wire_is inp s' w b"
  using emit_grows [OF assms] by simp

lemma growsD: "grows inp s s' \<Longrightarrow> sound inp s'"
  by (simp add: grows_def)

section \<open>The multiplication\<close>

lemma mul_steps:
  assumes "sound inp s" and xi: "wire_is inp s xi x" and v: "wires_are inp s v vb" and z: "wires_are inp s z zb"
    and len: "length vb = 128" "length zb = 128" and "m \<le> 128"
  shows "foldl (mul_step xi v) (z, s) [0..<m] = (z', s') \<Longrightarrow>
    grows inp s s' \<and> wires_are inp s' z' (map (\<lambda>j. if j < m then zb ! j \<noteq> (x \<and> vb ! j) else zb ! j) [0..<128])"
  using assms(7)
proof (induction m arbitrary: z' s')
  case 0
  have "map (\<lambda>j. zb ! j) [0..<128] = zb" using len by (metis map_nth)
  with 0 assms(1) z show ?case by (simp add: grows_refl)
next
  case (Suc m)
  let ?zb = "\<lambda>m. map (\<lambda>j. if j < m then zb ! j \<noteq> (x \<and> vb ! j) else zb ! j) [0..<128]"
  obtain z1 s1 where 1: "foldl (mul_step xi v) (z, s) [0..<m] = (z1, s1)" by (cases "foldl (mul_step xi v) (z, s) [0..<m]")
  with Suc.IH Suc.prems(2) have g1: "grows inp s s1" and z1: "wires_are inp s1 z1 (?zb m)" by auto
  obtain xv s2 where 2: "emit (Call_And xi (v ! m)) s1 = (xv, s2)" by (cases "emit (Call_And xi (v ! m)) s1")
  obtain w s3 where 3: "emit (Call_Xor (z1 ! m) xv) s2 = (w, s3)" by (cases "emit (Call_Xor (z1 ! m) xv) s2")
  have step: "mul_step xi v (z1, s1) m = (z1[m := w], s3)" by (simp add: mul_step_def 2 3)
  have r: "z' = z1[m := w]" "s' = s3"
    using Suc.prems(1) step by (simp_all add: 1)
  have "wire_is inp s1 (v ! m) (vb ! m)" "wire_is inp s1 xi x"
    using grows_wire [OF g1] wires_nth [OF v] xi len Suc.prems(2) by auto
  from emit_and [OF growsD [OF g1] 2 this(2,1)] have g2: "grows inp s1 s2" and xv: "wire_is inp s2 xv (x \<and> vb ! m)" by auto
  have "wire_is inp s2 (z1 ! m) (zb ! m)"
    using grows_wire [OF g2 wires_nth [OF z1, of m]] Suc.prems(2) len by simp
  from emit_xor [OF growsD [OF g2] 3 this xv] have g3: "grows inp s2 s3" and w: "wire_is inp s3 w (zb ! m \<noteq> (x \<and> vb ! m))" by auto
  have "wires_are inp s3 (z1[m := w]) ((?zb m)[m := (zb ! m \<noteq> (x \<and> vb ! m))])"
    by (rule wires_update [OF grows_wires [OF g3 grows_wires [OF g2 z1]] w])
  moreover have "(?zb m)[m := (zb ! m \<noteq> (x \<and> vb ! m))] = ?zb (Suc m)"
    using Suc.prems(2) by (intro nth_equalityI) (auto simp: nth_list_update less_Suc_eq)
  ultimately show ?case
    using grows_trans [OF g1 grows_trans [OF g2 g3]] r by simp
qed

lemma reduce_steps:
  assumes "sound inp s" and "wire_is inp s l b" and "wires_are inp s v vb" and "list_all (\<lambda>r. r < length vb) rs"
    and "foldl (reduce_step l) (v, s) rs = (v', s')"
  shows "grows inp s s' \<and> wires_are inp s' v' (foldl (\<lambda>v r. v[r := (v ! r \<noteq> b)]) vb rs)"
  using assms
proof (induction rs arbitrary: v vb s)
  case (Cons r rs)
  obtain w s1 where 1: "emit (Call_Xor (v ! r) l) s = (w, s1)" by (cases "emit (Call_Xor (v ! r) l) s")
  have "wire_is inp s (v ! r) (vb ! r)" using Cons.prems(3,4) by (simp add: wires_nth)
  from emit_xor [OF Cons.prems(1) 1 this Cons.prems(2)] have g: "grows inp s s1" and w: "wire_is inp s1 w (vb ! r \<noteq> b)" by auto
  have "grows inp s1 s' \<and> wires_are inp s' v' (foldl (\<lambda>v r. v[r := (v ! r \<noteq> b)]) (vb[r := (vb ! r \<noteq> b)]) rs)"
    by (rule Cons.IH [OF growsD [OF g] grows_wire [OF g Cons.prems(2)] wires_update [OF grows_wires [OF g Cons.prems(3)] w]])
      (use Cons.prems(4,5) in \<open>simp_all add: reduce_step_def 1\<close>)
  then show ?case using grows_trans [OF g] by simp
qed (simp add: grows_refl)

lemma round_step:
  assumes "sound inp s" and xi: "wire_is inp s xi x" and zero: "wire_is inp s zero False"
    and z: "wires_are inp s z zb" "length zb = 128" and v: "wires_are inp s v vb" "length vb = 128"
    and run: "round_calls zero ((z, v), s) xi = ((z', v'), s')"
  shows "grows inp s s' \<and> wires_are inp s' z' (fst (ghash_round (zb, vb) x)) \<and> wires_are inp s' v' (snd (ghash_round (zb, vb) x))"
proof -
  obtain z1 s1 where 1: "foldl (mul_step xi v) (z, s) [0..<128] = (z1, s1)" by (cases "foldl (mul_step xi v) (z, s) [0..<128]")
  obtain v2 s2 where 2: "foldl (reduce_step (v ! 127)) (zero # take 127 v, s1) [0, 1, 2, 7] = (v2, s2)" by (cases "foldl (reduce_step (v ! 127)) (zero # take 127 v, s1) [0, 1, 2, 7]")
  have r: "z' = z1" "v' = v2" "s' = s2" using run by (simp_all add: round_calls_def 1 2 [unfolded One_nat_def] del: foldl_Cons foldl_Nil)
  from mul_steps [OF assms(1) xi v(1) z(1) v(2) z(2) order.refl 1]
  have g1: "grows inp s s1" and z1: "wires_are inp s1 z1 (map (\<lambda>j. if j < 128 then zb ! j \<noteq> (x \<and> vb ! j) else zb ! j) [0..<128])" by auto
  have zs: "map (\<lambda>j. if j < 128 then zb ! j \<noteq> (x \<and> vb ! j) else zb ! j) [0..<128] = fst (ghash_round (zb, vb) x)"
    by (simp add: ghash_round_def Let_def)
  have "wires_are inp s1 (zero # take 127 v) (False # take 127 vb)"
    using grows_wire [OF g1 zero] grows_wires [OF g1 v(1)] by (simp add: list_all2_takeI)
  moreover have l: "wire_is inp s1 (v ! 127) (vb ! 127)"
    using grows_wire [OF g1 wires_nth [OF v(1), of 127]] v(2) by simp
  moreover have "list_all (\<lambda>r. r < length (False # take 127 vb)) [0, 1, 2, 7]" using v(2) by simp
  ultimately have 3: "grows inp s1 s2 \<and>
      wires_are inp s2 v2 (foldl (\<lambda>v r. v[r := (v ! r \<noteq> vb ! 127)]) (False # take 127 vb) [0, 1, 2, 7])"
    using 2 by (intro reduce_steps [OF growsD [OF g1]])
  then have g2: "grows inp s1 s2" ..
  have v2: "wires_are inp s2 v2 (snd (ghash_round (zb, vb) x))"
    unfolding ghash_round_def Let_def prod.case snd_conv using 3 ..
  show ?thesis
    unfolding r using grows_trans [OF g1 g2] grows_wires [OF g2 z1, unfolded zs] v2 by simp
qed

lemma length_reduce: "length (foldl (\<lambda>v r. v[r := (v ! r \<noteq> b)]) vb rs) = length vb"
  by (induction rs arbitrary: vb) simp_all

lemma length_round_snd: "length v = 128 \<Longrightarrow> length (snd (ghash_round (z, v) x)) = 128"
  by (simp only: ghash_round_def Let_def prod.case snd_conv length_reduce) simp

lemma rounds:
  assumes "sound inp s" and "wires_are inp s xs xb" and "wire_is inp s zero False"
    and "wires_are inp s z zb" "length zb = 128" and "wires_are inp s v vb" "length vb = 128"
    and "foldl (round_calls zero) ((z, v), s) xs = ((z', v'), s')"
  shows "grows inp s s' \<and> wires_are inp s' z' (fst (foldl ghash_round (zb, vb) xb))"
  using assms
proof (induction xs arbitrary: xb z zb v vb s)
  case (Cons w ws)
  then obtain b bs where xb: "xb = b # bs" by (auto simp: list_all2_Cons1)
  obtain z1 v1 s1 where 1: "round_calls zero ((z, v), s) w = ((z1, v1), s1)" by (cases "round_calls zero ((z, v), s) w") auto
  have "wire_is inp s w b" using Cons.prems(2) xb by simp
  from round_step [OF Cons.prems(1) this Cons.prems(3-7) 1]
  have g: "grows inp s s1" and z1: "wires_are inp s1 z1 (fst (ghash_round (zb, vb) b))"
    and v1: "wires_are inp s1 v1 (snd (ghash_round (zb, vb) b))" by auto
  have "wires_are inp s1 ws bs" using grows_wires [OF g] Cons.prems(2) xb by simp
  note IH = Cons.IH [OF growsD [OF g] this grows_wire [OF g Cons.prems(3)] z1 length_ghash_round v1 length_round_snd [OF Cons.prems(7)]]
  have "grows inp s1 s' \<and> wires_are inp s' z' (fst (foldl ghash_round (ghash_round (zb, vb) b) bs))"
    using IH Cons.prems(8) 1 by simp
  then show ?case using grows_trans [OF g] xb by simp
qed (auto simp: grows_refl)

lemma mul_calls:
  assumes "sound inp s" and "wires_are inp s x xb" and "wires_are inp s y yb" "length yb = 128"
    and "ghash_mul_calls x y s = (z, s')"
  shows "grows inp s s' \<and> wires_are inp s' z (ghash_mul_execute_on xb yb)"
proof -
  obtain zero s1 where 1: "emit (Call_Constant False) s = (zero, s1)" by (cases "emit (Call_Constant False) s")
  from emit_constant [OF assms(1) 1] have g: "grows inp s s1" and zero: "wire_is inp s1 zero False" by auto
  obtain z2 v2 s2 where 2: "foldl (round_calls zero) ((replicate 128 zero, y), s1) (take 128 x) = ((z2, v2), s2)"
    by (cases "foldl (round_calls zero) ((replicate 128 zero, y), s1) (take 128 x)") auto
  have "wires_are inp s1 (take 128 x) (take 128 xb)" using grows_wires [OF g assms(2)] by (rule list_all2_takeI)
  moreover have "wires_are inp s1 (replicate 128 zero) (replicate 128 False)" using zero by (simp add: list_all2_conv_all_nth)
  ultimately have "grows inp s1 s2 \<and> wires_are inp s2 z2 (fst (foldl ghash_round (replicate 128 False, yb) (take 128 xb)))"
    by (intro rounds [OF growsD [OF g] _ zero _ _ grows_wires [OF g assms(3)] assms(4) 2]) simp_all
  then show ?thesis
    using assms(5) 1 2 grows_trans [OF g] by (simp add: ghash_mul_calls_def ghash_mul_execute_on_def)
qed

section \<open>The chain\<close>

lemma xor_steps:
  assumes "sound inp s" and "wires_are inp s as ab" and "wires_are inp s bs bb" and "xor_calls as bs s = (ws, s')"
  shows "grows inp s s' \<and> wires_are inp s' ws (xor_bits ab bb)"
  using assms
proof (induction as bs s arbitrary: ab bb ws s' rule: xor_calls.induct)
  case (1 a as b bs s)
  obtain xa xas where ab: "ab = xa # xas" using "1.prems"(2) by (auto simp: list_all2_Cons1)
  obtain xb xbs where bb: "bb = xb # xbs" using "1.prems"(3) by (auto simp: list_all2_Cons1)
  obtain w s1 where e: "emit (Call_Xor a b) s = (w, s1)" by (cases "emit (Call_Xor a b) s")
  obtain vs s2 where r: "xor_calls as bs s1 = (vs, s2)" by (cases "xor_calls as bs s1")
  from emit_xor [OF "1.prems"(1) e, of xa xb] "1.prems"(2,3) ab bb
  have g: "grows inp s s1" and w: "wire_is inp s1 w (xa \<noteq> xb)" by auto
  have "wires_are inp s1 as xas" "wires_are inp s1 bs xbs" using grows_wires [OF g] "1.prems"(2,3) ab bb by auto
  from "1.IH" [OF e [symmetric] refl growsD [OF g] this r]
  have g2: "grows inp s1 s2" and vs: "wires_are inp s2 vs (xor_bits xas xbs)" by auto
  show ?case
    using "1.prems"(4) e r ab bb grows_trans [OF g g2] grows_wire [OF g2 w] vs by (auto simp: xor_bits_def)
qed (auto simp: grows_refl xor_bits_def)

lemma inputs_are: "length inp = n \<Longrightarrow> sound inp (n, []) \<and> wires_are inp (n, []) [0..<n] inp"
  by (simp add: sound_def list_all2_conv_all_nth wire_is_def)

lemma chain_wires:
  assumes len: "length inp = 128 + n * 128" and run: "ghash_chain_wires n (length inp, []) = (acc, s)"
  shows "sound inp s \<and> wires_are inp s acc (ghash_chain_execute n inp)"
proof -
  let ?h = "take 128 inp" and ?block = "\<lambda>blk. take 128 (drop (128 + blk * 128) inp)"
  let ?step = "\<lambda>(acc, s) blk. case xor_calls acc (take 128 (drop (128 + blk * 128) [0..<length inp])) s of
    (x, s) \<Rightarrow> ghash_mul_calls x (take 128 [0..<length inp]) s"
  let ?bits = "\<lambda>acc blk. ghash_mul_execute_on (xor_bits acc (?block blk)) ?h"
  note start = inputs_are [OF refl, of inp]
  obtain zero s0 where 0: "emit (Call_Constant False) (length inp, []) = (zero, s0)" by (cases "emit (Call_Constant False) (length inp, [])")
  from emit_constant [OF _ 0] start have g0: "grows inp (length inp, []) s0" and zero: "wire_is inp s0 zero False" by auto
  have steps: "foldl ?step (replicate 128 zero, s0) blks = (acc, s) \<Longrightarrow>
      grows inp s0 s \<and> wires_are inp s acc (foldl ?bits (replicate 128 False) blks)" for blks acc s
  proof (induction blks arbitrary: acc s rule: rev_induct)
    case Nil
    then show ?case using zero growsD [OF g0] by (auto simp: grows_refl list_all2_conv_all_nth)
  next
    case (snoc blk blks)
    obtain a1 s1 where 1: "foldl ?step (replicate 128 zero, s0) blks = (a1, s1)" by (cases "foldl ?step (replicate 128 zero, s0) blks")
    from snoc.IH [OF 1] have g1: "grows inp s0 s1" and a1: "wires_are inp s1 a1 (foldl ?bits (replicate 128 False) blks)" by auto
    have inputs: "wires_are inp s1 [0..<length inp] inp" using grows_wires [OF grows_trans [OF g0 g1]] start by simp
    obtain x s2 where 2: "xor_calls a1 (take 128 (drop (128 + blk * 128) [0..<length inp])) s1 = (x, s2)"
      by (cases "xor_calls a1 (take 128 (drop (128 + blk * 128) [0..<length inp])) s1")
    have "wires_are inp s1 (take 128 (drop (128 + blk * 128) [0..<length inp])) (?block blk)"
      by (intro list_all2_takeI list_all2_dropI inputs)
    from xor_steps [OF growsD [OF g1] a1 this 2]
    have g2: "grows inp s1 s2" and x: "wires_are inp s2 x (xor_bits (foldl ?bits (replicate 128 False) blks) (?block blk))" by auto
    have 3: "ghash_mul_calls x (take 128 [0..<length inp]) s2 = (acc, s)" using snoc.prems by (simp only: foldl_append foldl_Cons foldl_Nil 1 2 prod.case)
    have "wires_are inp s2 (take 128 [0..<length inp]) ?h" by (intro list_all2_takeI grows_wires [OF g2 inputs])
    from mul_calls [OF growsD [OF g2] x this _ 3] len
    show ?case using grows_trans [OF g1] grows_trans [OF g2] by simp
  qed
  have "foldl ?step (replicate 128 zero, s0) [0..<n] = (acc, s)"
    using run unfolding ghash_chain_wires_def Let_def len [symmetric] 0 prod.case .
  from steps [OF this] show ?thesis
    by (auto simp: ghash_chain_execute_def Let_def intro: growsD)
qed

lemma length_chain_execute [simp]: "length (ghash_chain_execute n inp) = 128"
  by (cases n) (simp_all add: ghash_chain_execute_def Let_def)

lemma chain_calls:
  assumes "length inp = 128 + n * 128"
  shows "wf_circuit (ghash_chain_calls n)" and "length (cc_outputs (ghash_chain_calls n)) = 128"
    and "cc_inputs (ghash_chain_calls n) = 128 + n * 128"
    and "circuit_value (ghash_chain_calls n) inp = ghash_chain_execute n inp"
proof -
  obtain acc m cs where run: "ghash_chain_wires n (length inp, []) = (acc, m, cs)" by (cases "ghash_chain_wires n (length inp, [])")
  have c: "ghash_chain_calls n = \<lparr>cc_inputs = length inp, cc_calls = cs, cc_outputs = acc\<rparr>"
    using run assms by (simp add: ghash_chain_calls_def Let_def)
  have w: "sound inp (m, cs)" "wires_are inp (m, cs) acc (ghash_chain_execute n inp)"
    using chain_wires [OF assms run] by auto
  show "cc_inputs (ghash_chain_calls n) = 128 + n * 128" using c assms by simp
  show "length (cc_outputs (ghash_chain_calls n)) = 128" using c list_all2_lengthD [OF w(2)] by simp
  show "wf_circuit (ghash_chain_calls n)"
    using w by (auto simp: c wf_circuit_def sound_def list_all_length list_all2_conv_all_nth wire_is_def)
  show "circuit_value (ghash_chain_calls n) inp = ghash_chain_execute n inp"
    using w(2) by (auto simp: c circuit_value_def list_all2_conv_all_nth wire_is_def intro!: nth_equalityI)
qed

definition ghash_calls :: "nat \<Rightarrow> call_circuit" where
  "ghash_calls n = split_calls (ghash_chain_calls n) (128 + n * 128) 128"

lemma ghash_calls_implement: "implements (ghash_calls n) (split_wrk17 (ghash_chain_wrk17_circuit n))"
  using split_implements [of "ghash_chain_calls n" "ghash_chain_wrk17_circuit n"]
    chain_calls [of "replicate (128 + n * 128) False" n] chain_calls(4)
  by (simp add: ghash_calls_def ghash_chain_wrk17_circuit_def)

end
