(* ===== verification/Wrk17_Session.thy ===== *)
theory Wrk17_Session
  imports Wrk17_Sha256 Wrk17_Ghash Notary_Tls
begin

text \<open>
  The worker session over the garbling protocol: key schedule, records and bundle of the theory
  \<open>Notary_Tls\<close> with every garbled circuit run by the protocol of the theory \<open>Wrk17\<close>. The compression runs
  the generated circuit, GHASH the calls of \<open>ghash.rs\<close>; the calls of the AES circuit, a data file, are a
  parameter that computes the block cipher (\<open>computes_aes\<close>).
\<close>

section \<open>The circuits of a session\<close>

definition computes_aes :: "cipher \<Rightarrow> call_circuit \<Rightarrow> bool" where
  "computes_aes A d \<longleftrightarrow> wf_circuit d \<and> cc_inputs d = AES_SHARED_INPUTS \<and> length (cc_outputs d) = AES_OUTPUT_BITS \<and>
     (\<forall>zs. length zs = AES_SHARED_INPUTS \<longrightarrow> circuit_value d zs = aes_circuit A zs)"

definition session_circuits :: "worker_env \<Rightarrow> wrk17_circuit set" where
  "session_circuits W = {split_wrk17 (sha256_compress_wrk17_circuit (we_hash W)), split_wrk17 (aes_wrk17_circuit (we_cipher W))} \<union>
     range (\<lambda>n. split_wrk17 (ghash_chain_wrk17_circuit n))"

text \<open>The executor of each circuit. The code picks it by its type, here it is picked by what it computes.\<close>

definition session_calls :: "worker_env \<Rightarrow> call_circuit \<Rightarrow> wrk17_circuit \<Rightarrow> call_circuit" where
  "session_calls W d c =
     (if c = split_wrk17 (sha256_compress_wrk17_circuit (we_hash W)) then compress_calls
      else if c = split_wrk17 (aes_wrk17_circuit (we_cipher W)) then split_calls d AES_SHARED_INPUTS AES_OUTPUT_BITS
      else ghash_calls (garbler_inputs c div 128 - 2))"

lemma session_calls_implement:
  assumes "we_hash W = circuit_env" and "computes_aes (we_cipher W) d" and "c \<in> session_circuits W"
  shows "implements (session_calls W d c) c"
proof -
  have aes: "implements (split_calls d AES_SHARED_INPUTS AES_OUTPUT_BITS) (split_wrk17 (aes_wrk17_circuit (we_cipher W)))"
    using split_implements [of d "aes_wrk17_circuit (we_cipher W)"] assms(2) by (simp add: computes_aes_def aes_wrk17_circuit_def)
  have "garbler_inputs (split_wrk17 (ghash_chain_wrk17_circuit n)) div 128 - 2 = n" for n
    by (simp add: split_wrk17_def sc_garbler_inputs_def ghash_chain_wrk17_circuit_def)
  then show ?thesis
    using assms(3) aes compress_calls_implement ghash_calls_implement
    by (auto simp: session_circuits_def session_calls_def assms(1))
qed

lemma session_circuits_mem [simp]:
  "split_wrk17 (sha256_compress_wrk17_circuit (we_hash W)) \<in> session_circuits W"
  "split_wrk17 (aes_wrk17_circuit (we_cipher W)) \<in> session_circuits W"
  "split_wrk17 (ghash_chain_wrk17_circuit n) \<in> session_circuits W"
  by (simp_all add: session_circuits_def)

section \<open>The circuits the processes run\<close>

lemma circuits_in_mono: "circuits_in Cs p \<Longrightarrow> Cs \<subseteq> Ds \<Longrightarrow> circuits_in Ds p"
  by (induction p) auto

lemma circuits_in_pfor: "(\<And>i s. circuits_in Cs (f i s)) \<Longrightarrow> circuits_in Cs (pfor is s f)"
  by (induction "is" arbitrary: s) (simp_all add: circuits_in_pbind)

lemma circuits_in_primitives [simp]:
  "circuits_in (session_circuits W) (notary_aes_block_wrk17 (we_cipher W) b k)"
  "circuits_in (session_circuits W) (client_aes_block_wrk17 (we_cipher W) b k)"
  "circuits_in (session_circuits W) (notary_ghash_chain_wrk17 bs h)"
  "circuits_in (session_circuits W) (client_ghash_chain_wrk17 bs h)"
  by (simp_all add: notary_aes_block_wrk17_def client_aes_block_wrk17_def wrk17_notary_masked_run_def wrk17_client_masked_run_def
      notary_ghash_chain_wrk17_def client_ghash_chain_wrk17_def run_notary_ghash_chain_def run_client_ghash_chain_def)

lemma circuits_in_gcm [simp]:
  "circuits_in (session_circuits W) (notary_encrypt_gcm (we_cipher W) k nonce aad n)"
  "circuits_in (session_circuits W) (notary_decrypt_gcm (we_cipher W) k nonce m n)"
  "circuits_in (session_circuits W) (client_encrypt_gcm (we_cipher W) k pt aad)"
  "circuits_in (session_circuits W) (client_decrypt_gcm_2pc (we_cipher W) k ct aad tag)"
  by (auto simp: notary_encrypt_gcm_def notary_decrypt_gcm_def client_encrypt_gcm_def client_decrypt_gcm_2pc_def Let_def
      case_prod_unfold intro!: circuits_in_pbind circuits_in_pfor)

lemma circuits_in_messages [simp]:
  "circuits_in Cs (write_header h)" "circuits_in Cs read_header" "circuits_in Cs (read_commit W n)"
  "circuits_in Cs (client_finish_session W sid sn)" "circuits_in Cs (worker_finish W sk K bnd recs)"
  by (simp_all add: write_header_def read_header_def read_commit_def client_finish_session_def worker_finish_def Let_def
      split: option.split)

lemma circuits_in_worker: "circuits_in (session_circuits W) (run_notary_worker_inner frames W sk K bnd recs)"
  by (induction frames arbitrary: recs) (auto intro!: circuits_in_pbind)

lemma circuits_in_client: "circuits_in (session_circuits W) (client_session W kc_tx kc_rx jobs sid sn)"
  by (induction jobs)
    (auto simp: encrypt_one_def decrypt_one_def case_prod_unfold intro!: circuits_in_pbind split: client_job.split)

lemma circuits_in_hkdf [simp]:
  "circuits_in (session_circuits W) (notary_tls13_client_traffic_from_ikm_shares (we_hash W) ikm sh sf)"
  "circuits_in (session_circuits W) (client_tls13_client_traffic_from_ikm_shares (we_hash W) ikm sh sf)"
  by (rule circuits_in_mono [OF circuits_in_key_schedule(1)], simp)
    (rule circuits_in_mono [OF circuits_in_key_schedule(2)], simp)

lemma circuits_in_session:
  "circuits_in (session_circuits W) (run_notary_worker_attested_2pc frames W sk setup)"
  "circuits_in (session_circuits W) (pbind (client_run_2pc_traffic_hkdf W ikm sh sf) (\<lambda>t.
     pbind (client_session W (share_k_tx t) (share_k_rx t) jobs sid sn) (\<lambda>b. Done (share_k_tx t, share_k_rx t, b))))"
  by (auto simp: run_notary_worker_attested_2pc_def client_run_2pc_traffic_hkdf_def case_prod_unfold Let_def
      intro!: circuits_in_pbind circuits_in_worker circuits_in_client)

section \<open>The session over the garbling protocol\<close>


text \<open>For the instance: the XOR of block and key as a block cipher, and its calls.\<close>

definition xor_halves :: "nat \<Rightarrow> call_circuit" where
  "xor_halves n = \<lparr>cc_inputs = n + n, cc_calls = map (\<lambda>i. Call_Xor i (n + i)) [0..<n], cc_outputs = [n + n..<n + n + n]\<rparr>"

lemma xor_halves:
  shows "wf_circuit (xor_halves n)"
    and "length zs = n + n \<Longrightarrow> circuit_value (xor_halves n) zs = xor_bits (take n zs) (drop n zs)"
proof -
  have "wf_calls (n + n + 0) (map (\<lambda>i. Call_Xor i (n + i)) [0..<n])"
    by (rule wf_calls_map) auto
  then show "wf_circuit (xor_halves n)"
    by (auto simp: xor_halves_def wf_circuit_def list_all_iff)
  assume l: "length zs = n + n"
  then have "run_calls (map (\<lambda>i. Call_Xor i (n + i)) [0..<n]) (zs @ []) = zs @ [] @ map (\<lambda>i. zs ! i \<noteq> zs ! (n + i)) [0..<n]"
    by (intro run_calls_map) (auto simp: nth_append)
  with l show "circuit_value (xor_halves n) zs = xor_bits (take n zs) (drop n zs)"
    by (auto simp: circuit_value_def xor_halves_def xor_bits_def nth_append intro!: nth_equalityI)
qed

lemma computes_xor_cipher: "computes_aes xor_cipher (xor_halves 128)"
proof -
  have "aes_circuit xor_cipher zs = xor_bits (take 128 zs) (drop 128 zs)" if "length zs = 256" for zs
    using that by (simp add: aes_circuit_def xor_cipher_def bytes_to_bits_bxor bytes_bits_bytes)
  moreover have "cc_inputs (xor_halves 128) = 256" "length (cc_outputs (xor_halves 128)) = 128"
    by (simp_all add: xor_halves_def)
  ultimately show ?thesis
    using xor_halves(1) [of 128] xor_halves(2) [of _ 128] by (simp add: computes_aes_def AES_SHARED_INPUTS_def AES_OUTPUT_BITS_def)
qed

definition circuit_shares_env :: "(bytes \<Rightarrow> bytes \<Rightarrow> notary_bundle) \<Rightarrow> worker_env" where
  "circuit_shares_env f = shares_env f\<lparr>we_hash := circuit_env\<rparr>"


end
