(* ===== verification/Spec2Isabelle.thy ===== *)
theory Spec2Isabelle
  imports Agreement Proxy Tools Wrk17_Session
begin

text \<open>
  A verification development for a TLS-notary demo: a client and a notary run a TLS 1.3 session in
  which the traffic keys are split between them, the notary signs a log of the records, and a guest
  program in the SP1 virtual machine checks the recorded session and commits a claim about the JSON
  response (a field of a response of a host is above a threshold).

  The program and its parts.

  \<^item> The guest (\<open>guest/src/main.rs\<close>) has two paths. Without a notary (\<open>run_self_prove\<close>) it derives the
    session keys from the client's ephemeral key, decrypts the handshake, checks the certificate chain,
    the CertificateVerify signature and the Finished MAC, and decrypts the response. With a notary
    (\<open>run_notary_path\<close>) it verifies the signed bundle, compares the raw traffic with the binding, and
    opens each server record against the commit of the bundle with the key shares the bundle has.
  \<^item> The shared types (\<open>common/src/lib.rs\<close>): witness, claim, bundle, binding, and the signed bytes.
  \<^item> The notary crate (\<open>notary/src\<close>): key exchange on scalar shares (\<open>ecdh.rs\<close>), key schedule on XOR
    shares (\<open>hkdf.rs\<close>), split-key AES-GCM (\<open>aes.rs\<close>, \<open>ghash.rs\<close>), the record worker (\<open>tls.rs\<close>), the
    handshake transcript and capture (\<open>transcript.rs\<close>, \<open>handshake.rs\<close>), the garbling sessions
    (\<open>garble.rs\<close>), the generator of the SHA-256 circuit, the proxy, the demo client and two tools
    (\<open>bin\<close>), and a vendored copy of authenticated garbling (\<open>deps/swanky-authenticated-garbling\<close>).
  \<^item> The host programs (\<open>host/src\<close>) capture a session and run the guest on it.

  The theories, from the bottom up.

  \<^item> \<open>Prelude\<close>: bytes, big-endian numbers, faults (a panic is \<open>Inl\<close>), XOR of byte strings; the locale
    \<open>framed_codec\<close> of encodings read back in front of a longer input.
  \<^item> \<open>Bundle\<close>: the types and signed bytes of \<open>common\<close>. The signed bytes determine the bundle within the
    bounds of the length casts, and not beyond them.
  \<^item> \<open>Tls_Records\<close>, \<open>Http\<close>, \<open>Der_Cert\<close>, \<open>Guest\<close>: the guest, in the order of the source: record and
    handshake parsers, header and chunk parsing and the comparison of doubles, DER walking, host names
    and certificate chains, then both paths of \<open>main\<close>. A commit of a claim is the result \<open>Inr\<close>. Shown:
    what an accepted claim implies on either path, completeness of the notary path, the transcript the
    handshake loop hashes, exact characterisations of the parsers.
  \<^item> \<open>Kdf\<close>, \<open>Transcript\<close>, \<open>Agreement\<close>: the reference key schedule, the transcript and capture code of
    the notary, and the agreement of both crates on keys and transcript hashes.
  \<^item> \<open>Processes\<close>: a function on a \<open>Channel\<close> is a tree \<open>proc\<close> of reads, writes, random draws and garbled
    circuit runs; two of them run against each other by a step relation with a queue per direction.
    \<open>safe\<close> speaks of all schedules and all random bytes and excludes deadlock, \<open>serves\<close> and \<open>delivers\<close>
    of one schedule; one schedule is enough (\<open>serves_safe\<close>), so protocols are proved on one and hold on
    all. \<open>gets_stuck\<close> states a reachable deadlock.
  \<^item> \<open>Garble\<close>, \<open>Hkdf\<close>, \<open>Ghash\<close>, \<open>Gcm\<close>, \<open>Ecdh\<close>, \<open>Notary_Tls\<close>: the two-party protocols with ideal circuit
    runs. Each operation ends, on every schedule, with XOR shares of the reference result (locale
    \<open>shared_op\<close>, interpreted for the compression, the HMAC and the AES block; locale \<open>ikm_exchange\<close> for
    both key exchanges). The worker session is compared with the bundle signed over the client's log.
  \<^item> \<open>Sha256_Circuit\<close>: the generator \<open>gen_sha256_compress.rs\<close> as a state monad over the builder. The
    circuit computes the compression function of FIPS 180-4, and has the size of the bundled file.
  \<^item> \<open>Wrk17\<close>, \<open>Wrk17_Correct\<close>: the vendored garbling crate: \<open>WirePreProcessor\<close>, \<open>Garbler\<close> and
    \<open>Evaluator\<close> with all operations, as backends that run the calls of a circuit. A run gives the
    evaluator the outputs on both inputs, and a wrong masked value fails the check of its gate.
  \<^item> \<open>Wrk17_Runs\<close>, \<open>Wrk17_Sha256\<close>, \<open>Wrk17_Ghash\<close>, \<open>Wrk17_Session\<close>: the protocol in place of the ideal runs.
    Whatever two processes deliver with ideal runs they deliver with the protocol, if the circuits they
    use are computed by their call sequences. The wrapper of \<open>garble.rs\<close> around the generated circuit is,
    and so are the GHASH circuits of \<open>ghash.rs\<close> as calls on a backend; so the two-party key schedule and
    the whole worker session run over the protocol.
  \<^item> \<open>Proxy\<close>: the setup frame and connection handling of \<open>notary_proxy.rs\<close>, the modes of \<open>notary_demo.rs\<close>
    after the handshake, and what goes wrong between them.
  \<^item> \<open>Tools\<close>: the host programs, the bundle verifier and the offline check of the key exchange.
  \<^item> This theory: the demo's witness against the guest's check of the binding.

  Parameters. Code that is not in the repository is an argument, with what is used of it as a
  hypothesis: the Ed25519, X25519, AES-GCM, SHA-256, HMAC, certificate and JSON crates of the guest
  (\<open>guest_env\<close>), the hash and HMAC of the notary (\<open>hash_env_ok\<close>: lengths, and HMAC as nested
  compressions), the curve as a group with its encodings (\<open>curve_ok\<close>), the AES circuit, a data file, as a
  block cipher with 16-byte output (\<open>cipher_ok\<close>), bincode, the clock, the rustls handshake of the demo
  as a function of the injected scalar, and the authenticated shares and AND triples under the
  garbling (\<open>auth_ok\<close>: linear shares, the MAC equation, openings, products). Each hypothesis is met by a
  concrete instance in a witness.

  Bounds and fuel. The worker's loop over frames takes the number of frames as fuel; one more than the
  number of records is enough for a session, as the last frame is the client's finish. Loops of the
  parsers end by the length of their input. Processes have no infinite runs (\<open>no_infinite_run\<close>).

  Not modelled. The build script and the crate roots are glue. Sockets, files, argument and URL
  parsing, logging and printing are left out, also threads and their channels: the client's worker
  thread is the run of its jobs in order. The semi-honest variants of the two-party functions serve only
  tests and the older block circuit. Timing, randomness quality and secrecy are not treated: a random
  draw is any byte string, and the theorems are about results and checks. The AES circuit file is not
  evaluated: in the session over the garbling protocol its calls are a parameter that computes the
  block cipher (\<open>computes_aes\<close>).
\<close>

section \<open>The demo's witness and the guest\<close>



end
